(* ===== verification/Prelude.thy ===== *)
theory Prelude
  imports Complex_Main "HOL-Library.Char_ord" "HOL-Library.List_Lexorder"
begin

text \<open>
  Shared vocabulary of the development.  It holds the Python exceptions the service raises or
  catches and their class hierarchy, the result type of a computation that may raise, the
  bounded double-ended queue of \<open>collections.deque(maxlen=...)\<close> with its laws, and the
  collections of simplification rules the component theories add to.
\<close>

section \<open>Rule collections\<close>

named_theorems py_simps \<open>evaluation rules of the Python built-ins\<close>
named_theorems emit_simps \<open>what an operation of the service records in the event store\<close>
named_theorems inv_intros \<open>preservation of component invariants\<close>

section \<open>Exceptions\<close>

text \<open>
  The exception classes that the code names, and one constructor for every other class.
  An exception carries the text that \<open>str(exc)\<close> gives.
\<close>

datatype exc_class =
    ValueError | UnicodeDecodeError | JSONDecodeError
  | TypeError | AttributeError | KeyError | OSError | TimeoutError
  | SessionWatchdogTimeout | RuntimeError | AcpHostError | SandboxBridgeError
  | HTTPError | ValidationError | CancelledError | OtherException string

datatype pyexc = PyExc (exc_of: exc_class) (exc_str: string)

fun exc_name :: "exc_class \<Rightarrow> string" where
  "exc_name ValueError = ''ValueError''"
| "exc_name UnicodeDecodeError = ''UnicodeDecodeError''"
| "exc_name JSONDecodeError = ''JSONDecodeError''"
| "exc_name TypeError = ''TypeError''"
| "exc_name AttributeError = ''AttributeError''"
| "exc_name KeyError = ''KeyError''"
| "exc_name OSError = ''OSError''"
| "exc_name TimeoutError = ''TimeoutError''"
| "exc_name SessionWatchdogTimeout = ''SessionWatchdogTimeout''"
| "exc_name RuntimeError = ''RuntimeError''"
| "exc_name AcpHostError = ''AcpHostError''"
| "exc_name SandboxBridgeError = ''SandboxBridgeError''"
| "exc_name HTTPError = ''HTTPError''"
| "exc_name ValidationError = ''ValidationError''"
| "exc_name CancelledError = ''CancelledError''"
| "exc_name (OtherException n) = n"

text \<open>
  Class membership as \<open>except\<close> clauses test it: \<open>TimeoutError\<close> is an \<open>OSError\<close>,
  \<open>UnicodeDecodeError\<close> and \<open>JSONDecodeError\<close> are \<open>ValueError\<close>s, and
  \<open>CancelledError\<close> is the one class here that \<open>except Exception\<close> does not catch.
\<close>

definition is_exception :: "pyexc \<Rightarrow> bool" where
  "is_exception e \<longleftrightarrow> exc_of e \<noteq> CancelledError"

definition is_timeout :: "pyexc \<Rightarrow> bool" where
  "is_timeout e \<longleftrightarrow> exc_of e \<in> {TimeoutError, SessionWatchdogTimeout}"

definition is_os_error :: "pyexc \<Rightarrow> bool" where
  "is_os_error e \<longleftrightarrow> exc_of e \<in> {OSError, TimeoutError, SessionWatchdogTimeout}"

definition is_value_error :: "pyexc \<Rightarrow> bool" where
  "is_value_error e \<longleftrightarrow>
     exc_of e \<in> {ValueError, UnicodeDecodeError, JSONDecodeError, ValidationError}"

lemmas exc_class_defs = is_exception_def is_timeout_def is_os_error_def is_value_error_def

section \<open>Results\<close>

type_synonym 'a pyres = "pyexc + 'a"

definition rbind :: "'a pyres \<Rightarrow> ('a \<Rightarrow> 'b pyres) \<Rightarrow> 'b pyres" where
  "rbind r f = (case r of Inl e \<Rightarrow> Inl e | Inr x \<Rightarrow> f x)"

definition rmap :: "('a \<Rightarrow> 'b) \<Rightarrow> 'a pyres \<Rightarrow> 'b pyres" where
  "rmap f r = (case r of Inl e \<Rightarrow> Inl e | Inr x \<Rightarrow> Inr (f x))"

definition is_ok :: "'a pyres \<Rightarrow> bool" where
  "is_ok r = (case r of Inl _ \<Rightarrow> False | Inr _ \<Rightarrow> True)"

lemma rbind_simps [simp, py_simps]:
  "rbind (Inl e) f = Inl e" "rbind (Inr x) f = f x"
  by (simp_all add: rbind_def)

lemma rmap_simps [simp, py_simps]:
  "rmap g (Inl e) = Inl e" "rmap g (Inr x) = Inr (g x)"
  by (simp_all add: rmap_def)

lemma is_ok_simps [simp, py_simps]: "is_ok (Inl e) = False" "is_ok (Inr x) = True"
  by (simp_all add: is_ok_def)

lemma rbind_eq_Inr: "rbind r f = Inr y \<longleftrightarrow> (\<exists>x. r = Inr x \<and> f x = Inr y)"
  by (cases r) auto

lemma rbind_eq_Inl: "rbind r f = Inl e \<longleftrightarrow> r = Inl e \<or> (\<exists>x. r = Inr x \<and> f x = Inl e)"
  by (cases r) auto

lemma rmap_eq_Inr: "rmap g r = Inr y \<longleftrightarrow> (\<exists>x. r = Inr x \<and> y = g x)"
  by (cases r) auto

text \<open>A loop whose body may raise: the first exception ends it.\<close>

fun rmapM :: "('a \<Rightarrow> 'b pyres) \<Rightarrow> 'a list \<Rightarrow> 'b list pyres" where
  "rmapM f [] = Inr []"
| "rmapM f (x # xs) = rbind (f x) (\<lambda>y. rmap ((#) y) (rmapM f xs))"

lemma rmapM_Inr: "(\<And>x. x \<in> set xs \<Longrightarrow> f x = Inr (g x)) \<Longrightarrow> rmapM f xs = Inr (map g xs)"
  by (induction xs) auto

lemma rmapM_cong [fundef_cong]:
  "xs = ys \<Longrightarrow> (\<And>x. x \<in> set ys \<Longrightarrow> f x = g x) \<Longrightarrow> rmapM f xs = rmapM g ys"
  by (induction xs arbitrary: ys) auto

text \<open>Every exception of a computation satisfies a predicate.\<close>

definition raises :: "(pyexc \<Rightarrow> bool) \<Rightarrow> 'a pyres \<Rightarrow> bool" where
  "raises P r = (case r of Inl e \<Rightarrow> P e | Inr _ \<Rightarrow> True)"

lemma raises_simps [simp]: "raises P (Inl e) = P e" "raises P (Inr x)"
  by (simp_all add: raises_def)

lemma raises_rbind: "raises P r \<Longrightarrow> (\<And>x. raises P (f x)) \<Longrightarrow> raises P (rbind r f)"
  by (cases r) simp_all

lemma raises_rmap [simp]: "raises P (rmap g r) = raises P r"
  by (cases r) simp_all

section \<open>Operations on a state\<close>

text \<open>An operation that may raise acts on a state in either case.\<close>

type_synonym ('s, 'a) action = "'s \<Rightarrow> 'a pyres \<times> 's"

definition io_return :: "'a \<Rightarrow> ('s, 'a) action" where
  "io_return x s = (Inr x, s)"

definition io_lift :: "'a pyres \<Rightarrow> ('s, 'a) action" where
  "io_lift r s = (r, s)"

definition io_bind :: "('s, 'a) action \<Rightarrow> ('a \<Rightarrow> ('s, 'b) action) \<Rightarrow> ('s, 'b) action" where
  "io_bind m f s = (case m s of (Inl e, t) \<Rightarrow> (Inl e, t) | (Inr x, t) \<Rightarrow> f x t)"

section \<open>The last elements of a list\<close>

definition last_n :: "nat \<Rightarrow> 'a list \<Rightarrow> 'a list" where
  "last_n n xs = drop (length xs - n) xs"

lemma length_last_n [simp]: "length (last_n n xs) = min n (length xs)"
  by (simp add: last_n_def)

lemma last_n_all [simp]: "length xs \<le> n \<Longrightarrow> last_n n xs = xs"
  by (simp add: last_n_def)

lemma last_n_append_ge: "n \<le> length ys \<Longrightarrow> last_n n (xs @ ys) = last_n n ys"
  by (simp add: last_n_def)

lemma last_n_append_le:
  "length ys \<le> n \<Longrightarrow> last_n n (xs @ ys) = last_n (n - length ys) xs @ ys"
  by (simp add: last_n_def)

lemma last_n_last_n_append: "last_n n (last_n n xs @ ys) = last_n n (xs @ ys)"
proof (cases "length ys \<le> n")
  case True
  have "last_n (n - length ys) (last_n n xs) = last_n (n - length ys) xs"
    by (cases "length xs \<le> n") (auto simp: last_n_def)
  with True show ?thesis by (simp add: last_n_append_le)
next
  case False
  then show ?thesis by (simp add: last_n_append_ge)
qed

lemma set_last_n: "set (last_n n xs) \<subseteq> set xs"
  by (simp add: last_n_def set_drop_subset)

lemma map_last_n: "map f (last_n n xs) = last_n n (map f xs)"
  by (simp add: last_n_def drop_map)

lemma distinct_last_n: "distinct xs \<Longrightarrow> distinct (last_n n xs)"
  by (simp add: last_n_def)

lemma last_n_decomp: "\<exists>ys. xs = ys @ last_n n xs"
  by (metis append_take_drop_id last_n_def)

lemma last_n_last_n: "last_n a (last_n b xs) = last_n (min a b) xs"
proof -
  have "length (last_n b xs) - a + (length xs - b) = length xs - min a b"
    by (simp add: min_def)
  then show ?thesis by (simp add: last_n_def)
qed

text \<open>The part of a list before the first occurrence of an element.\<close>

lemma takeWhile_neq_append: "c \<notin> set xs \<Longrightarrow> takeWhile (\<lambda>x. x \<noteq> c) (xs @ c # ys) = xs"
  by (induction xs) auto

lemma append_sep_inj:
  assumes "xs @ c # ds = ys @ c # es" and "c \<notin> set ds" and "c \<notin> set es"
  shows "xs = ys \<and> ds = es"
proof -
  have *: "takeWhile (\<lambda>x. x \<noteq> c) (rev (zs @ c # fs)) = rev fs" if "c \<notin> set fs" for zs fs
    using that by (simp add: takeWhile_neq_append)
  have "rev ds = rev es"
    using * [OF assms(2), of xs] * [OF assms(3), of ys] assms(1) by simp
  with assms(1) show ?thesis by simp
qed

section \<open>Association lists\<close>

text \<open>Association lists in listing order: an update keeps the place of an existing entry.\<close>

fun upsert :: "string \<Rightarrow> 'a \<Rightarrow> (string \<times> 'a) list \<Rightarrow> (string \<times> 'a) list" where
  "upsert k v [] = [(k, v)]"
| "upsert k v ((a, b) # xs) = (if a = k then (k, v) # xs else (a, b) # upsert k v xs)"

definition remove_key :: "string \<Rightarrow> (string \<times> 'a) list \<Rightarrow> (string \<times> 'a) list" where
  "remove_key k xs = filter (\<lambda>(a, _). a \<noteq> k) xs"

lemma map_of_upsert [simp]: "map_of (upsert k v xs) j = (if j = k then Some v else map_of xs j)"
  by (induction k v xs rule: upsert.induct) auto

lemma list_all_upsert: "list_all P xs \<Longrightarrow> P (k, v) \<Longrightarrow> list_all P (upsert k v xs)"
  by (induction k v xs rule: upsert.induct) auto

lemma map_of_remove_key [simp]: "map_of (remove_key k xs) j = (if j = k then None else map_of xs j)"
  by (induction xs) (auto simp: remove_key_def)

lemma keys_upsert: "fst ` set (upsert k v xs) = insert k (fst ` set xs)"
  by (induction k v xs rule: upsert.induct) auto

lemma distinct_upsert: "distinct (map fst xs) \<Longrightarrow> distinct (map fst (upsert k v xs))"
proof (induction k v xs rule: upsert.induct)
  case (2 k v a b xs)
  then show ?case using keys_upsert [of k v xs] by auto
qed simp

lemma distinct_remove_key: "distinct (map fst xs) \<Longrightarrow> distinct (map fst (remove_key k xs))"
  by (simp add: remove_key_def distinct_map_filter)

section \<open>Bounded double-ended queues\<close>

text \<open>
  \<open>collections.deque(maxlen=n)\<close>: an \<open>append\<close> to a full deque drops the leftmost
  element.  With \<open>maxlen = 0\<close> nothing is ever kept.
\<close>

definition deque_append :: "nat \<Rightarrow> 'a list \<Rightarrow> 'a \<Rightarrow> 'a list" where
  "deque_append maxlen xs x = drop (Suc (length xs) - maxlen) (xs @ [x])"

lemma deque_append_last_n: "deque_append m xs x = last_n m (xs @ [x])"
  by (simp add: deque_append_def last_n_def)

text \<open>
  The interface of a bounded log: an operation that appends one item, the list of items held
  and the capacity.  Whatever is kept after a run of appends is the most recent part of
  everything appended.
\<close>

locale bounded_log =
  fixes items :: "'s \<Rightarrow> 'a list"
    and capacity :: "'s \<Rightarrow> nat"
    and add :: "'a \<Rightarrow> 's \<Rightarrow> 's"
  assumes items_add: "items (add x s) = last_n (capacity s) (items s @ [x])"
    and capacity_add: "capacity (add x s) = capacity s"
begin

lemma capacity_adds: "capacity (fold add xs s) = capacity s"
  by (induction xs arbitrary: s) (simp_all add: capacity_add)

lemma items_adds:
  "length (items s) \<le> capacity s \<Longrightarrow> items (fold add xs s) = last_n (capacity s) (items s @ xs)"
proof (induction xs arbitrary: s)
  case Nil
  then show ?case by simp
next
  case (Cons x xs)
  have "length (items (add x s)) \<le> capacity (add x s)"
    by (simp add: items_add capacity_add)
  from Cons.IH [OF this] show ?case
    by (simp add: items_add capacity_add last_n_last_n_append)
qed

lemma bounded_adds: "length (items s) \<le> capacity s \<Longrightarrow> length (items (fold add xs s)) \<le> capacity s"
  by (simp add: items_adds)

lemma newest_kept:
  assumes "length (items s) \<le> capacity s" and "length xs \<le> capacity s"
  shows "\<exists>ys. items (fold add xs s) = ys @ xs"
  using assms by (simp add: items_adds last_n_append_le)

end

interpretation plain_deque: bounded_log snd fst "\<lambda>x (m, xs). (m, deque_append m xs x)"
  by unfold_locales (auto simp: deque_append_last_n)

end
