(* ===== verification/Py_Str.thy ===== *)
theory Py_Str
  imports Prelude
begin

text \<open>
  Python strings and the string methods the service uses.  A \<open>str\<close> is represented by its
  UTF-8 encoding: a \<open>char\<close> of the model is one byte, so every string without lone surrogates
  is covered and \<open>encode("utf-8")\<close> is the identity.  \<open>py_chars\<close> cuts a string into
  its code points.  Whitespace is exact (every code point for which \<open>str.isspace\<close> is true);
  \<open>lower\<close> is exact on ASCII letters and on the Kelvin sign U+212A, the one other code point
  whose lower case is an ASCII letter by itself, and leaves further non-ASCII letters unchanged,
  so a comparison of a lowered string with an ASCII constant is exact.
\<close>

section \<open>Code points\<close>

definition code :: "char \<Rightarrow> nat" where
  "code c = of_char c"

definition is_cont :: "char \<Rightarrow> bool" where
  "is_cont c \<longleftrightarrow> 128 \<le> code c \<and> code c < 192"

function py_chars :: "string \<Rightarrow> string list" where
  "py_chars [] = []"
| "py_chars (c # cs) = (c # takeWhile is_cont cs) # py_chars (dropWhile is_cont cs)"
  by pat_completeness auto
termination
  by (relation "measure length") (auto simp: length_dropWhile_le less_Suc_eq_le)

lemma concat_py_chars [simp]: "concat (py_chars s) = s"
  by (induction s rule: py_chars.induct) simp_all

text \<open>ASCII strings, where a byte is a character.\<close>

definition is_ascii :: "string \<Rightarrow> bool" where
  "is_ascii s \<longleftrightarrow> list_all (\<lambda>c. code c < 128) s"

lemma py_chars_ascii: "is_ascii s \<Longrightarrow> py_chars s = map (\<lambda>c. [c]) s"
proof (induction s)
  case Nil
  then show ?case by simp
next
  case (Cons c cs)
  then have "takeWhile is_cont cs = []" and "dropWhile is_cont cs = cs"
    by (cases cs; simp add: is_ascii_def is_cont_def)+
  with Cons show ?case by (simp add: is_ascii_def)
qed

section \<open>lower, strip\<close>

definition lower_ascii :: "char \<Rightarrow> char" where
  "lower_ascii c = (if 65 \<le> code c \<and> code c \<le> 90 then char_of (code c + 32) else c)"

definition lower_char :: "string \<Rightarrow> string" where
  "lower_char ch = (if map code ch = [226, 132, 170] then ''k'' else map lower_ascii ch)"

definition py_lower :: "string \<Rightarrow> string" where
  "py_lower s = concat (map lower_char (py_chars s))"

definition is_space_char :: "string \<Rightarrow> bool" where
  "is_space_char ch \<longleftrightarrow>
     map code ch \<in> set ([[9], [10], [11], [12], [13], [28], [29], [30], [31], [32],
        [194, 133], [194, 160], [225, 154, 128], [226, 128, 168], [226, 128, 169],
        [226, 128, 175], [226, 129, 159], [227, 128, 128]]
        @ map (\<lambda>n. [226, 128, n]) [128..<139])"

definition strip_list :: "('a \<Rightarrow> bool) \<Rightarrow> 'a list \<Rightarrow> 'a list" where
  "strip_list p xs = rev (dropWhile p (rev (dropWhile p xs)))"

definition py_strip :: "string \<Rightarrow> string" where
  "py_strip s = concat (strip_list is_space_char (py_chars s))"

definition py_rstrip :: "string \<Rightarrow> string" where
  "py_rstrip s = concat (rev (dropWhile is_space_char (rev (py_chars s))))"

text \<open>\<open>s.rstrip(x)\<close> for a single ASCII character \<open>x\<close>.\<close>

definition py_rstrip_of :: "char \<Rightarrow> string \<Rightarrow> string" where
  "py_rstrip_of x s = rev (dropWhile ((=) x) (rev s))"

lemma py_lower_Nil [simp]: "py_lower [] = []"
  by (simp add: py_lower_def)

lemma py_strip_Nil [simp]: "py_strip [] = []"
  by (simp add: py_strip_def strip_list_def)

section \<open>Prefixes, suffixes, splitting and joining\<close>

definition py_startswith :: "string \<Rightarrow> string \<Rightarrow> bool" where
  "py_startswith s p \<longleftrightarrow> take (length p) s = p"

text \<open>\<open>sub in s\<close>\<close>

fun py_contains :: "string \<Rightarrow> string \<Rightarrow> bool" where
  "py_contains sub [] = (sub = [])"
| "py_contains sub (c # cs) = (py_startswith (c # cs) sub \<or> py_contains sub cs)"

definition py_endswith :: "string \<Rightarrow> string \<Rightarrow> bool" where
  "py_endswith s p \<longleftrightarrow> length p \<le> length s \<and> drop (length s - length p) s = p"

lemma py_startswith_append [simp]: "py_startswith (p @ s) p"
  by (simp add: py_startswith_def)

lemma py_startswith_iff: "py_startswith s p \<longleftrightarrow> (\<exists>t. s = p @ t)"
  by (metis append_eq_conv_conj append_take_drop_id py_startswith_def)

lemma py_endswith_iff: "py_endswith s p \<longleftrightarrow> (\<exists>t. s = t @ p)"
  unfolding py_endswith_def
  by (metis append_eq_append_conv append_take_drop_id diff_add_inverse2 drop_eq_Nil
      length_append length_drop le_add2 diff_diff_cancel)

text \<open>\<open>s.split(sep)\<close> for a separator of one ASCII character.\<close>

fun py_split :: "char \<Rightarrow> string \<Rightarrow> string list" where
  "py_split sep [] = [[]]"
| "py_split sep (c # cs) =
     (if c = sep then [] # py_split sep cs
      else (case py_split sep cs of [] \<Rightarrow> [[c]] | w # ws \<Rightarrow> (c # w) # ws))"

lemma py_split_nonempty [simp]: "py_split sep s \<noteq> []"
  by (induction s) (auto split: list.splits)

fun py_join :: "string \<Rightarrow> string list \<Rightarrow> string" where
  "py_join sep [] = []"
| "py_join sep [x] = x"
| "py_join sep (x # y # zs) = x @ sep @ py_join sep (y # zs)"

lemma py_join_split: "py_join [sep] (py_split sep s) = s"
proof (induction s)
  case Nil
  then show ?case by simp
next
  case (Cons c cs)
  obtain w ws where "py_split sep cs = w # ws"
    by (meson list.exhaust py_split_nonempty)
  with Cons show ?case by (cases ws) auto
qed

lemma py_split_no_sep: "w \<in> set (py_split sep s) \<Longrightarrow> sep \<notin> set w"
proof (induction s arbitrary: w)
  case Nil
  then show ?case by simp
next
  case (Cons c cs)
  obtain v vs where vs: "py_split sep cs = v # vs"
    by (meson list.exhaust py_split_nonempty)
  with Cons show ?case by (auto split: if_splits)
qed

text \<open>\<open>s.rsplit(sep, 1)[-1]\<close>: what follows the last separator, the whole string without one.\<close>

definition after_last :: "char \<Rightarrow> string \<Rightarrow> string" where
  "after_last sep s = rev (takeWhile (\<lambda>c. c \<noteq> sep) (rev s))"

lemma after_last_no_sep: "sep \<notin> set (after_last sep s)"
  by (auto simp: after_last_def dest: set_takeWhileD)

section \<open>Numerals\<close>

definition digit_char :: "nat \<Rightarrow> char" where
  "digit_char d = (if d < 10 then char_of (48 + d) else char_of (87 + d))"

fun nat_digits :: "nat \<Rightarrow> nat list" where
  "nat_digits n = (if n < 10 then [n] else nat_digits (n div 10) @ [n mod 10])"

declare nat_digits.simps [simp del]

definition py_str_nat :: "nat \<Rightarrow> string" where
  "py_str_nat n = map digit_char (nat_digits n)"

definition py_str_int :: "int \<Rightarrow> string" where
  "py_str_int i = (if i < 0 then ''-'' @ py_str_nat (nat (- i)) else py_str_nat (nat i))"

definition digits_val :: "nat list \<Rightarrow> nat" where
  "digits_val ds = foldl (\<lambda>a d. 10 * a + d) 0 ds"

lemma digits_val_nat_digits: "digits_val (nat_digits n) = n"
proof (induction n rule: nat_digits.induct)
  case (1 n)
  then show ?case
    by (subst nat_digits.simps) (auto simp: digits_val_def)
qed

lemma nat_digits_lt: "d \<in> set (nat_digits n) \<Longrightarrow> d < 10"
proof (induction n rule: nat_digits.induct)
  case (1 n)
  then show ?case
    by (subst (asm) nat_digits.simps) (auto split: if_splits)
qed

lemma code_char_of [simp]: "n < 256 \<Longrightarrow> code (char_of n) = n"
  by (simp add: code_def)

lemma code_inj: "code c = code d \<Longrightarrow> c = d"
  by (simp add: code_def)

lemma digit_char_inj: "d < 10 \<Longrightarrow> e < 10 \<Longrightarrow> digit_char d = digit_char e \<Longrightarrow> d = e"
  by (auto simp: digit_char_def dest: arg_cong [where f = code])

lemma code_digit_char: "d < 10 \<Longrightarrow> code (digit_char d) = 48 + d"
  by (simp add: digit_char_def)

lemma py_str_nat_inj: "py_str_nat m = py_str_nat n \<Longrightarrow> m = n"
proof -
  assume eq: "py_str_nat m = py_str_nat n"
  have "map (\<lambda>c. code c - 48) (py_str_nat k) = nat_digits k" for k
    unfolding py_str_nat_def map_map
    by (rule map_idI) (simp add: code_digit_char nat_digits_lt)
  with eq have "nat_digits m = nat_digits n" by metis
  then show "m = n" by (metis digits_val_nat_digits)
qed

lemma py_str_nat_digits: "c \<in> set (py_str_nat n) \<Longrightarrow> 48 \<le> code c \<and> code c < 58"
  by (auto simp: py_str_nat_def dest!: nat_digits_lt simp: code_digit_char)

section \<open>repr\<close>

text \<open>
  \<open>repr(s)\<close>: single quotes unless the string holds a single quote and no double quote.
  Printable non-ASCII text stands for itself.
\<close>

definition hex2 :: "nat \<Rightarrow> string" where
  "hex2 n = [digit_char (n div 16), digit_char (n mod 16)]"

definition repr_char :: "char \<Rightarrow> char \<Rightarrow> string" where
  "repr_char q c =
     (if c = q \<or> code c = 92 then [char_of (92::nat), c]
      else if code c = 9 then [char_of (92::nat), CHR ''t'']
      else if code c = 10 then [char_of (92::nat), CHR ''n'']
      else if code c = 13 then [char_of (92::nat), CHR ''r'']
      else if code c < 32 \<or> code c = 127 then [char_of (92::nat), CHR ''x''] @ hex2 (code c)
      else [c])"

definition py_repr_str :: "string \<Rightarrow> string" where
  "py_repr_str s =
     (let q = (if char_of (39::nat) \<in> set s \<and> char_of (34::nat) \<notin> set s
               then char_of (34::nat) else char_of (39::nat))
      in q # concat (map (repr_char q) s) @ [q])"

lemmas [py_simps] = py_lower_def py_strip_def py_startswith_def py_endswith_def

end
