(* ===== verification/Sha256.thy ===== *)
theory Sha256
  imports Py_Str "HOL-Library.Word"
begin

text \<open>
  The two primitives the signature check takes from the standard library, on bytes (\<open>8 word\<close>):
  SHA-256 (\<open>hashlib.sha256\<close>), as FIPS 180-4 defines it with its operations on \<open>32 word\<close>,
  and HMAC (\<open>hmac.new(key, msg, sha256).digest()\<close>), as FIPS 198-1 defines it, stated once for
  any hash of a fixed output length and instantiated with SHA-256.
\<close>

unbundle bit_operations_syntax

type_synonym byte = "8 word"
type_synonym word32 = "32 word"

section \<open>Padding and parsing of the message\<close>

definition be_bytes :: "nat \<Rightarrow> nat \<Rightarrow> byte list" where
  "be_bytes k n = map (\<lambda>i. word_of_nat (n div 256 ^ (k - 1 - i))) [0..<k]"

definition sha_pad :: "byte list \<Rightarrow> byte list" where
  "sha_pad m =
     m @ [0x80] @ replicate ((119 - length m mod 64) mod 64) 0 @ be_bytes 8 (8 * length m)"

definition be_word :: "byte list \<Rightarrow> word32" where
  "be_word bs = foldl (\<lambda>a b. push_bit 8 a OR ucast b) 0 bs"

fun chunks_of :: "nat \<Rightarrow> nat \<Rightarrow> 'a list \<Rightarrow> 'a list list" where
  "chunks_of 0 k xs = []"
| "chunks_of (Suc n) k xs = take k xs # chunks_of n k (drop k xs)"

definition block_words :: "byte list \<Rightarrow> word32 list" where
  "block_words b = map be_word (chunks_of 16 4 b)"

section \<open>Compression\<close>

text \<open>
  The constants are computed as the standard derives them: the first 32 bits of the fractional
  parts of the square roots of the first 8 primes and of the cube roots of the first 64.  A root
  is taken of the prime scaled by \<open>2 ^ (32 * k)\<close>, bit by bit from the top.
\<close>

definition primes_below :: "nat \<Rightarrow> nat list" where
  "primes_below n = filter (\<lambda>p. list_all (\<lambda>d. p mod d \<noteq> 0) [2..<p]) [2..<n]"

fun root_bits :: "nat \<Rightarrow> nat \<Rightarrow> nat \<Rightarrow> nat \<Rightarrow> nat" where
  "root_bits k n 0 r = r"
| "root_bits k n (Suc b) r =
     root_bits k n b (if (r + 2 ^ b) ^ k \<le> n then r + 2 ^ b else r)"

definition frac_root :: "nat \<Rightarrow> nat \<Rightarrow> word32" where
  "frac_root k p = word_of_nat (root_bits k (p * 2 ^ (32 * k)) 40 0)"

definition sha_K :: "word32 list" where
  "sha_K = map (frac_root 3) (primes_below 312)"

definition sha_H0 :: "word32 list" where
  "sha_H0 = map (frac_root 2) [2, 3, 5, 7, 11, 13, 17, 19]"

lemma root_bits_mono: "r ^ k \<le> n \<Longrightarrow> root_bits k n b r ^ k \<le> n"
  by (induction b arbitrary: r) auto

text \<open>The computed root is the greatest one: the constants are the truncated roots.\<close>

lemma root_bits_greatest:
  "n < (r + 2 ^ b) ^ k \<Longrightarrow> n < Suc (root_bits k n b r) ^ k"
proof (induction b arbitrary: r)
  case (Suc b)
  show ?case
  proof (cases "(r + 2 ^ b) ^ k \<le> n")
    case True
    have "n < Suc (root_bits k n b (r + 2 ^ b)) ^ k"
      by (rule Suc.IH) (use Suc.prems in \<open>simp add: mult_2 add.assoc\<close>)
    with True show ?thesis by simp
  next
    case False
    with Suc.IH [of r] show ?thesis by simp
  qed
qed simp

definition rotr :: "nat \<Rightarrow> word32 \<Rightarrow> word32" where
  "rotr n x = drop_bit n x OR push_bit (32 - n) x"

definition big_sigma0 :: "word32 \<Rightarrow> word32" where
  "big_sigma0 x = rotr 2 x XOR rotr 13 x XOR rotr 22 x"

definition big_sigma1 :: "word32 \<Rightarrow> word32" where
  "big_sigma1 x = rotr 6 x XOR rotr 11 x XOR rotr 25 x"

definition small_sigma0 :: "word32 \<Rightarrow> word32" where
  "small_sigma0 x = rotr 7 x XOR rotr 18 x XOR drop_bit 3 x"

definition small_sigma1 :: "word32 \<Rightarrow> word32" where
  "small_sigma1 x = rotr 17 x XOR rotr 19 x XOR drop_bit 10 x"

definition sha_ch :: "word32 \<Rightarrow> word32 \<Rightarrow> word32 \<Rightarrow> word32" where
  "sha_ch x y z = (x AND y) XOR (NOT x AND z)"

definition sha_maj :: "word32 \<Rightarrow> word32 \<Rightarrow> word32 \<Rightarrow> word32" where
  "sha_maj x y z = (x AND y) XOR (x AND z) XOR (y AND z)"

text \<open>The message schedule, the window of the last sixteen words first.\<close>

fun schedule :: "nat \<Rightarrow> word32 list \<Rightarrow> word32 list" where
  "schedule 0 ws = ws"
| "schedule (Suc n) ws =
     (let t = length ws in
      schedule n (ws @ [small_sigma1 (ws ! (t - 2)) + ws ! (t - 7)
                        + small_sigma0 (ws ! (t - 15)) + ws ! (t - 16)]))"

type_synonym sha_state =
  "word32 \<times> word32 \<times> word32 \<times> word32 \<times> word32 \<times> word32 \<times> word32 \<times> word32"

fun sha_round :: "sha_state \<Rightarrow> word32 \<times> word32 \<Rightarrow> sha_state" where
  "sha_round (a, b, c, d, e, f, g, h) (k, w) =
     (let t1 = h + big_sigma1 e + sha_ch e f g + k + w;
          t2 = big_sigma0 a + sha_maj a b c
      in (t1 + t2, a, b, c, d + t1, e, f, g))"

fun state_words :: "sha_state \<Rightarrow> word32 list" where
  "state_words (a, b, c, d, e, f, g, h) = [a, b, c, d, e, f, g, h]"

definition words_state :: "word32 list \<Rightarrow> sha_state" where
  "words_state ws = (ws ! 0, ws ! 1, ws ! 2, ws ! 3, ws ! 4, ws ! 5, ws ! 6, ws ! 7)"

definition compress :: "word32 list \<Rightarrow> byte list \<Rightarrow> word32 list" where
  "compress hs b =
     (let ws = schedule 48 (block_words b);
          st = foldl sha_round (words_state hs) (zip sha_K ws)
      in map2 (+) hs (state_words st))"

definition sha256 :: "byte list \<Rightarrow> byte list" where
  "sha256 m =
     (let p = sha_pad m;
          hs = foldl compress sha_H0 (chunks_of (length p div 64) 64 p)
      in concat (map (\<lambda>w. be_bytes 4 (unat w)) hs))"

lemma length_state_words: "length (state_words st) = 8"
  by (induction st rule: state_words.induct) simp

lemma length_compress: "length hs = 8 \<Longrightarrow> length (compress hs b) = 8"
  by (simp add: compress_def Let_def length_state_words)

lemma length_foldl_compress: "length hs = 8 \<Longrightarrow> length (foldl compress hs bs) = 8"
  by (induction bs arbitrary: hs) (simp_all add: length_compress)

lemma length_be_bytes [simp]: "length (be_bytes k n) = k"
  by (simp add: be_bytes_def)

lemma length_concat_const: "(\<And>x. x \<in> set xs \<Longrightarrow> length (f x) = k) \<Longrightarrow>
    length (concat (map f xs)) = k * length xs"
  by (induction xs) auto

theorem length_sha256: "length (sha256 m) = 32"
  by (simp add: sha256_def Let_def length_concat_const [where k = 4] length_foldl_compress
      sha_H0_def)

text \<open>The padded message is a whole number of blocks.\<close>

lemma pad_zeros:
  assumes "r < (64::nat)"
  shows "(119 - r) mod 64 = (if r < 56 then 55 - r else 119 - r)"
proof (cases "r < 56")
  case True
  then have "(119 - r) mod 64 = (55 - r + 64) mod 64" by (intro arg_cong2 [where f = "(mod)"]) linarith+
  with True show ?thesis by (simp only: mod_add_self2 if_True) simp
next
  case False
  with assms show ?thesis by simp
qed

lemma length_sha_pad: "64 dvd length (sha_pad m)"
proof -
  define q r where "q = length m div 64" and "r = length m mod 64"
  then have len: "length m = 64 * q + r" and r: "r < 64" by simp_all
  have "length (sha_pad m) = 64 * q + r + 1 + (119 - r) mod 64 + 8"
    by (simp add: sha_pad_def len r)
  also have "\<dots> = 64 * (q + (if r < 56 then 1 else 2))"
    using r by (simp add: pad_zeros)
  finally show ?thesis by simp
qed

section \<open>HMAC\<close>

text \<open>
  What HMAC asks of a hash: a block size and a shorter output of fixed length.  The key is
  hashed when it is longer than a block, and padded with zeros to a block.
\<close>

definition hmac_key :: "(byte list \<Rightarrow> byte list) \<Rightarrow> nat \<Rightarrow> byte list \<Rightarrow> byte list" where
  "hmac_key H B k =
     (let k' = (if B < length k then H k else k) in k' @ replicate (B - length k') 0)"

definition hmac :: "(byte list \<Rightarrow> byte list) \<Rightarrow> nat \<Rightarrow> byte list \<Rightarrow> byte list \<Rightarrow> byte list" where
  "hmac H B k msg =
     (let k0 = hmac_key H B k in
      H (map (\<lambda>b. b XOR 0x5c) k0 @ H (map (\<lambda>b. b XOR 0x36) k0 @ msg)))"

locale hash_function =
  fixes H :: "byte list \<Rightarrow> byte list" and B L :: nat
  assumes length_hash: "length (H m) = L"
    and output_fits: "L \<le> B"
begin

lemma length_key: "length (hmac_key H B k) = B"
  by (auto simp: hmac_key_def Let_def length_hash output_fits)

lemma length_hmac: "length (hmac H B k m) = L"
  by (simp add: hmac_def Let_def length_hash)

lemma padded_key_same: "length k \<le> B \<Longrightarrow> hmac H B (hmac_key H B k) m = hmac H B k m"
  by (simp add: hmac_def hmac_key_def Let_def)

end

interpretation sha256_hash: hash_function sha256 64 32
  by unfold_locales (simp_all add: length_sha256)

definition hmac_sha256 :: "byte list \<Rightarrow> byte list \<Rightarrow> byte list" where
  "hmac_sha256 k msg = hmac sha256 64 k msg"

lemma length_hmac_sha256: "length (hmac_sha256 k m) = 32"
  by (simp add: hmac_sha256_def sha256_hash.length_hmac)

end
