(* ===== verification/Signature.thy ===== *)
theory Signature
  imports Sha256
begin

text \<open>
  \<open>github.py\<close>: the \<open>X-Hub-Signature-256\<close> header of a delivery, computed and verified.
  The definitions follow the two functions of the module; the lemmas say which headers are
  accepted for a body and a secret.
\<close>

definition utf8_bytes :: "string \<Rightarrow> byte list" where
  "utf8_bytes s = map (\<lambda>c. word_of_nat (code c)) s"

definition hexdigest :: "byte list \<Rightarrow> string" where
  "hexdigest bs = concat (map (\<lambda>b. hex2 (unat b)) bs)"

definition hex_val :: "char \<Rightarrow> nat option" where
  "hex_val c =
     (let n = code c in
      if 48 \<le> n \<and> n \<le> 57 then Some (n - 48)
      else if 97 \<le> n \<and> n \<le> 102 then Some (n - 87)
      else if 65 \<le> n \<and> n \<le> 70 then Some (n - 55)
      else None)"

text \<open>
  \<open>bytes.fromhex\<close>: ASCII whitespace is skipped before every byte, each byte is two hexadecimal
  digits of either case, and anything else is a \<open>ValueError\<close> (\<open>None\<close>).
\<close>

definition is_ascii_space :: "char \<Rightarrow> bool" where
  "is_ascii_space c \<longleftrightarrow> code c \<in> {9, 10, 11, 12, 13, 32}"

fun bytes_fromhex :: "string \<Rightarrow> byte list option" where
  "bytes_fromhex [] = Some []"
| "bytes_fromhex [c] = (if is_ascii_space c then Some [] else None)"
| "bytes_fromhex (c # d # s) =
     (if is_ascii_space c then bytes_fromhex (d # s)
      else (case (hex_val c, hex_val d) of
              (Some h, Some l) \<Rightarrow> map_option ((#) (word_of_nat (16 * h + l))) (bytes_fromhex s)
            | _ \<Rightarrow> None))"

definition sig_prefix :: string where
  "sig_prefix = ''sha256=''"

definition compute_signature :: "byte list \<Rightarrow> string \<Rightarrow> string" where
  "compute_signature body secret = sig_prefix @ hexdigest (hmac_sha256 (utf8_bytes secret) body)"

definition verify_signature :: "byte list \<Rightarrow> string option \<Rightarrow> string \<Rightarrow> bool" where
  "verify_signature body signature_header secret =
     (case signature_header of
        None \<Rightarrow> False
      | Some hdr \<Rightarrow>
          if hdr = [] then False
          else if \<not> py_startswith hdr sig_prefix then False
          else (case bytes_fromhex (drop (length sig_prefix) hdr) of
                  None \<Rightarrow> False
                | Some expected \<Rightarrow> hmac_sha256 (utf8_bytes secret) body = expected))"

section \<open>Hexadecimal round trip\<close>

lemma hex_val_digit: "n < 16 \<Longrightarrow> hex_val (digit_char n) = Some n"
  by (auto simp: hex_val_def digit_char_def)

lemma digit_char_not_space: "n < 16 \<Longrightarrow> \<not> is_ascii_space (digit_char n)"
  by (auto simp: is_ascii_space_def digit_char_def)

lemma unat_byte_lt: "unat (b :: byte) < 256"
  using unsigned_less [where 'a = nat, of b] by simp

lemma bytes_fromhex_hex2:
  "bytes_fromhex (hex2 (unat b) @ s) = map_option ((#) b) (bytes_fromhex s)"
proof -
  have "unat b div 16 < 16" and "unat b mod 16 < 16"
    using unat_byte_lt [of b] by (simp_all add: less_mult_imp_div_less)
  then show ?thesis
    by (simp add: hex2_def hex_val_digit digit_char_not_space)
qed

lemma bytes_fromhex_hexdigest: "bytes_fromhex (hexdigest bs) = Some bs"
  by (induction bs) (simp_all add: hexdigest_def bytes_fromhex_hex2)

section \<open>Which headers verify\<close>

lemma verify_signature_iff:
  "verify_signature body (Some hdr) secret \<longleftrightarrow>
     (\<exists>hex. hdr = sig_prefix @ hex \<and>
            bytes_fromhex hex = Some (hmac_sha256 (utf8_bytes secret) body))"
proof (cases "py_startswith hdr sig_prefix")
  case True
  then obtain hex where hdr: "hdr = sig_prefix @ hex" by (auto simp: py_startswith_iff)
  then have "hdr \<noteq> []" by (simp add: sig_prefix_def)
  with True hdr show ?thesis
    by (auto simp: verify_signature_def split: option.splits)
next
  case False
  then show ?thesis by (auto simp: verify_signature_def py_startswith_iff)
qed

lemma verify_signature_None [simp]: "\<not> verify_signature body None secret"
  by (simp add: verify_signature_def)

lemma verify_computed: "verify_signature body (Some (compute_signature body secret)) secret"
  by (simp add: verify_signature_iff compute_signature_def bytes_fromhex_hexdigest)

text \<open>
  C25: a signature the service computes for a body verifies against that body and secret, and a
  header that verifies under any secret carries exactly the HMAC of the body: two accepted
  headers of one body decode to the same 32 bytes.
\<close>

theorem verify_signature_correct:
  "verify_signature body (Some (compute_signature body secret)) secret \<and>
   (\<forall>hdr. verify_signature body (Some hdr) secret =
      (\<exists>hex. hdr = sig_prefix @ hex \<and>
         bytes_fromhex hex = bytes_fromhex (drop 7 (compute_signature body secret))))"
proof -
  have *: "bytes_fromhex (drop 7 (compute_signature body secret))
           = Some (hmac_sha256 (utf8_bytes secret) body)"
    by (simp add: compute_signature_def sig_prefix_def bytes_fromhex_hexdigest)
  show ?thesis
    unfolding * verify_signature_iff by (simp add: compute_signature_def bytes_fromhex_hexdigest)
qed

text \<open>A header is never accepted for less than 64 hexadecimal digits.\<close>

lemma bytes_fromhex_length: "bytes_fromhex s = Some bs \<Longrightarrow> 2 * length bs \<le> length s"
  by (induction s arbitrary: bs rule: bytes_fromhex.induct)
     (fastforce split: if_splits option.splits)+

end
