(* ===== verification/Py_Val.thy ===== *)
theory Py_Val
  imports Py_Str
begin

text \<open>
  Python values as they travel through the service: what \<open>json.loads\<close> builds from a request
  body, what the event data holds, and the schema objects of the protocol library, which are
  opaque but for the text \<open>str\<close> gives and the result of \<open>model_dump\<close>.  A float is
  represented by its \<open>repr\<close>.  A dictionary is the list of its items in insertion order.
  On these values: truth, \<open>or\<close>, \<open>get\<close>, iteration, \<open>str\<close>, and \<open>json.dumps\<close>
  in the three configurations the code calls it with.
\<close>

section \<open>Values\<close>

datatype pyval =
    PNone
  | PBool bool
  | PInt int
  | PFloat string
  | PStr string
  | PList "pyval list"
  | PTuple "pyval list"
  | PDict "(string \<times> pyval) list"
  | PObj (obj_str: string) (obj_dump: "pyval option")

fun truthy :: "pyval \<Rightarrow> bool" where
  "truthy PNone = False"
| "truthy (PBool b) = b"
| "truthy (PInt i) = (i \<noteq> 0)"
| "truthy (PFloat r) = (r \<notin> {''0.0'', ''-0.0''})"
| "truthy (PStr s) = (s \<noteq> [])"
| "truthy (PList xs) = (xs \<noteq> [])"
| "truthy (PTuple xs) = (xs \<noteq> [])"
| "truthy (PDict kvs) = (kvs \<noteq> [])"
| "truthy (PObj s d) = True"

definition py_or :: "pyval \<Rightarrow> pyval \<Rightarrow> pyval" where
  "py_or a b = (if truthy a then a else b)"

definition dict_items :: "pyval \<Rightarrow> (string \<times> pyval) list option" where
  "dict_items v = (case v of PDict kvs \<Rightarrow> Some kvs | _ \<Rightarrow> None)"

abbreviation is_dict :: "pyval \<Rightarrow> bool" where
  "is_dict v \<equiv> dict_items v \<noteq> None"

text \<open>\<open>d.get(k, default)\<close>; only a dictionary has the method.\<close>

fun py_type_name :: "pyval \<Rightarrow> string" where
  "py_type_name PNone = ''NoneType''"
| "py_type_name (PBool b) = ''bool''"
| "py_type_name (PInt i) = ''int''"
| "py_type_name (PFloat r) = ''float''"
| "py_type_name (PStr s) = ''str''"
| "py_type_name (PList xs) = ''list''"
| "py_type_name (PTuple xs) = ''tuple''"
| "py_type_name (PDict kvs) = ''dict''"
| "py_type_name (PObj s d) = ''object''"

definition dict_get :: "(string \<times> pyval) list \<Rightarrow> string \<Rightarrow> pyval \<Rightarrow> pyval" where
  "dict_get kvs k d = (case map_of kvs k of None \<Rightarrow> d | Some v \<Rightarrow> v)"

definition py_get :: "pyval \<Rightarrow> string \<Rightarrow> pyval \<Rightarrow> pyval pyres" where
  "py_get v k d =
     (case v of
        PDict kvs \<Rightarrow> Inr (dict_get kvs k d)
      | _ \<Rightarrow> Inl (PyExc AttributeError (''object has no attribute get: '' @ py_type_name v)))"

lemma py_get_dict [simp, py_simps]: "py_get (PDict kvs) k d = Inr (dict_get kvs k d)"
  by (simp add: py_get_def)

lemma py_get_Inr: "py_get v k d = Inr w \<longleftrightarrow> (\<exists>kvs. v = PDict kvs \<and> w = dict_get kvs k d)"
  by (cases v) (auto simp: py_get_def)

text \<open>Iteration: a string gives its characters, a dictionary its keys.\<close>

fun py_iter :: "pyval \<Rightarrow> pyval list pyres" where
  "py_iter (PList xs) = Inr xs"
| "py_iter (PTuple xs) = Inr xs"
| "py_iter (PStr s) = Inr (map PStr (py_chars s))"
| "py_iter (PDict kvs) = Inr (map (\<lambda>kv. PStr (fst kv)) kvs)"
| "py_iter v = Inl (PyExc TypeError (''object is not iterable: '' @ py_type_name v))"

section \<open>str and repr\<close>

fun py_repr :: "pyval \<Rightarrow> string" where
  "py_repr PNone = ''None''"
| "py_repr (PBool b) = (if b then ''True'' else ''False'')"
| "py_repr (PInt i) = py_str_int i"
| "py_repr (PFloat r) = r"
| "py_repr (PStr s) = py_repr_str s"
| "py_repr (PList xs) = ''['' @ py_join '', '' (map py_repr xs) @ '']''"
| "py_repr (PTuple xs) =
     (case xs of [x] \<Rightarrow> ''('' @ py_repr x @ '',)''
      | _ \<Rightarrow> ''('' @ py_join '', '' (map py_repr xs) @ '')'')"
| "py_repr (PDict kvs) =
     ''{'' @ py_join '', '' (map (\<lambda>kv. py_repr_str (fst kv) @ '': '' @ py_repr (snd kv)) kvs) @ ''}''"
| "py_repr (PObj s d) = s"

definition py_str :: "pyval \<Rightarrow> string" where
  "py_str v = (case v of PStr s \<Rightarrow> s | _ \<Rightarrow> py_repr v)"

lemma py_str_PStr [simp, py_simps]: "py_str (PStr s) = s"
  by (simp add: py_str_def)

text \<open>The idiom \<open>str(x or "")\<close>.\<close>

definition str_or_empty :: "pyval \<Rightarrow> string" where
  "str_or_empty v = py_str (py_or v (PStr []))"

lemma str_or_empty_simps [simp, py_simps]:
  "str_or_empty (PStr s) = s"
  "str_or_empty PNone = []"
  by (simp_all add: str_or_empty_def py_or_def)

section \<open>json.dumps\<close>

text \<open>
  \<open>ensure_ascii\<close> is on everywhere: what is outside printable ASCII is escaped as UTF-16 code
  units.
\<close>

definition hex4 :: "nat \<Rightarrow> string" where
  "hex4 n = hex2 (n div 256) @ hex2 (n mod 256)"

definition u_escape :: "nat \<Rightarrow> string" where
  "u_escape n = char_of (92::nat) # CHR ''u'' # hex4 n"

text \<open>The code point of one UTF-8 sequence.\<close>

definition code_point :: "string \<Rightarrow> nat" where
  "code_point ch =
     (case map code ch of
        [a] \<Rightarrow> a
      | [a, b] \<Rightarrow> (a mod 32) * 64 + b mod 64
      | [a, b, c] \<Rightarrow> (a mod 16) * 4096 + (b mod 64) * 64 + c mod 64
      | [a, b, c, d] \<Rightarrow> (a mod 8) * 262144 + (b mod 64) * 4096 + (c mod 64) * 64 + d mod 64
      | _ \<Rightarrow> 65533)"

definition json_char :: "string \<Rightarrow> string" where
  "json_char ch =
     (let n = code_point ch in
      if n = 34 \<or> n = 92 then [char_of (92::nat), char_of n]
      else if n = 10 then [char_of (92::nat), CHR ''n'']
      else if n = 13 then [char_of (92::nat), CHR ''r'']
      else if n = 9 then [char_of (92::nat), CHR ''t'']
      else if n = 8 then [char_of (92::nat), CHR ''b'']
      else if n = 12 then [char_of (92::nat), CHR ''f'']
      else if 32 \<le> n \<and> n < 127 then [char_of n]
      else if n < 65536 then u_escape n
      else u_escape (55296 + (n - 65536) div 1024) @ u_escape (56320 + (n - 65536) mod 1024))"

definition json_str :: "string \<Rightarrow> string" where
  "json_str s = char_of (34::nat) # concat (map json_char (py_chars s)) @ [char_of (34::nat)]"

definition json_float :: "string \<Rightarrow> string" where
  "json_float r =
     (if r = ''nan'' then ''NaN'' else if r = ''inf'' then ''Infinity''
      else if r = ''-inf'' then ''-Infinity'' else r)"

text \<open>
  The layout of the output: \<open>item_sep\<close> and \<open>key_sep\<close>, the indentation (if any), whether
  keys are sorted, and whether an object that is not a JSON value is written as its \<open>str\<close>
  (\<open>default=str\<close>) or raises.
\<close>

record json_opts =
  item_sep :: string
  key_sep :: string
  indent :: "nat option"
  sort_keys :: bool
  default_str :: bool

definition json_compact :: json_opts where
  "json_compact = \<lparr>item_sep = '','', key_sep = '':'', indent = None,
     sort_keys = False, default_str = False\<rparr>"

definition json_indented :: "bool \<Rightarrow> json_opts" where
  "json_indented sorted_keys = \<lparr>item_sep = '','', key_sep = '': '', indent = Some 2,
     sort_keys = sorted_keys, default_str = False\<rparr>"

definition json_brackets :: "json_opts \<Rightarrow> nat \<Rightarrow> char \<Rightarrow> char \<Rightarrow> string list \<Rightarrow> string" where
  "json_brackets opts lvl l r parts =
     (if parts = [] then [l, r]
      else (case indent opts of
              None \<Rightarrow> l # py_join (item_sep opts) parts @ [r]
            | Some w \<Rightarrow>
                (let nl = (\<lambda>k. char_of (10::nat) # replicate (w * k) CHR '' '') in
                 l # nl (Suc lvl) @ py_join (item_sep opts @ nl (Suc lvl)) parts @ nl lvl @ [r])))"

definition sort_items :: "json_opts \<Rightarrow> (string \<times> 'a) list \<Rightarrow> (string \<times> 'a) list" where
  "sort_items opts kvs = (if sort_keys opts then sort_key fst kvs else kvs)"

lemma set_sort_items [simp]: "set (sort_items opts kvs) = set kvs"
  by (simp add: sort_items_def)

lemma sort_items_size [termination_simp]:
  "(k, v) \<in> set (sort_items opts kvs) \<Longrightarrow> size v < Suc (size_list (size_prod (\<lambda>_. 0) size) kvs)"
  by (simp add: size_list_estimation' less_Suc_eq_le)

fun json_dumps :: "json_opts \<Rightarrow> nat \<Rightarrow> pyval \<Rightarrow> string pyres" where
  "json_dumps opts lvl PNone = Inr ''null''"
| "json_dumps opts lvl (PBool b) = Inr (if b then ''true'' else ''false'')"
| "json_dumps opts lvl (PInt i) = Inr (py_str_int i)"
| "json_dumps opts lvl (PFloat r) = Inr (json_float r)"
| "json_dumps opts lvl (PStr s) = Inr (json_str s)"
| "json_dumps opts lvl (PList xs) =
     rmap (json_brackets opts lvl CHR ''['' CHR '']'') (rmapM (json_dumps opts (Suc lvl)) xs)"
| "json_dumps opts lvl (PTuple xs) =
     rmap (json_brackets opts lvl CHR ''['' CHR '']'') (rmapM (json_dumps opts (Suc lvl)) xs)"
| "json_dumps opts lvl (PDict kvs) =
     rmap (json_brackets opts lvl CHR ''{'' CHR ''}'')
       (rmapM (\<lambda>(k, v). rmap (\<lambda>t. json_str k @ key_sep opts @ t) (json_dumps opts (Suc lvl) v))
          (sort_items opts kvs))"
| "json_dumps opts lvl (PObj s d) =
     (if default_str opts then Inr (json_str s)
      else Inl (PyExc TypeError (''Object is not JSON serializable: '' @ s)))"

text \<open>A value that holds no opaque object serialises under every configuration.\<close>

fun plain :: "pyval \<Rightarrow> bool" where
  "plain (PList xs) = list_all plain xs"
| "plain (PTuple xs) = list_all plain xs"
| "plain (PDict kvs) = list_all (\<lambda>kv. plain (snd kv)) kvs"
| "plain (PObj s d) = False"
| "plain v = True"

lemma is_ok_rmap [simp]: "is_ok (rmap g r) = is_ok r"
  by (cases r) simp_all

lemma is_ok_rbind: "is_ok (rbind r f) \<longleftrightarrow> (\<exists>x. r = Inr x \<and> is_ok (f x))"
  by (cases r) simp_all

lemma is_ok_iff: "is_ok r \<longleftrightarrow> (\<exists>x. r = Inr x)"
  by (cases r) simp_all

lemma is_ok_rmapM: "is_ok (rmapM f xs) \<longleftrightarrow> (\<forall>x \<in> set xs. is_ok (f x))"
proof (induction xs)
  case (Cons x xs)
  then show ?case by (cases "f x") simp_all
qed simp

lemma rmapM_ok: "(\<And>x. x \<in> set xs \<Longrightarrow> is_ok (f x)) \<Longrightarrow> is_ok (rmapM f xs)"
  by (simp add: is_ok_rmapM)

lemma json_dumps_plain: "plain v \<or> default_str opts \<Longrightarrow> is_ok (json_dumps opts lvl v)"
proof (induction opts lvl v rule: json_dumps.induct)
  case (8 opts lvl kvs)
  then show ?case
    by (fastforce simp: list_all_iff intro!: rmapM_ok)
qed (auto simp: list_all_iff intro!: rmapM_ok)

lemma rmapM_is_ok: "is_ok (rmapM f xs) \<Longrightarrow> x \<in> set xs \<Longrightarrow> is_ok (f x)"
  by (simp add: is_ok_rmapM)

lemma json_dumps_ok_iff:
  "is_ok (json_dumps opts lvl v) \<longleftrightarrow> plain v \<or> default_str opts"
proof (cases "default_str opts")
  case True
  then show ?thesis by (simp add: json_dumps_plain)
next
  case False
  have "is_ok (json_dumps opts lvl v) \<Longrightarrow> plain v"
    using False
  proof (induction opts lvl v rule: json_dumps.induct)
    case (8 opts lvl kvs)
    have "plain (snd kv)" if "kv \<in> set kvs" for kv
      using 8 that rmapM_is_ok [of _ "sort_items opts kvs" kv]
      by (cases kv) fastforce
    then show ?case by (simp add: list_all_iff)
  qed (auto simp: list_all_iff dest: rmapM_is_ok)
  then show ?thesis using json_dumps_plain by blast
qed

end
