(* ===== verification/Json_Text.thy ===== *)
theory Json_Text
  imports Py_Val
begin

text \<open>
  What \<open>json.dumps\<close> writes: without indentation the output is one line of printable ASCII
  characters, whatever text the value holds.  The line formats of the service (event-stream
  frames, JSON Lines files) rest on this.
\<close>

text \<open>Text made of printable ASCII characters has no line end.\<close>

definition printable :: "string \<Rightarrow> bool" where
  "printable s \<longleftrightarrow> list_all (\<lambda>c. 32 \<le> code c \<and> code c < 127) s"

fun printable_floats :: "pyval \<Rightarrow> bool" where
  "printable_floats (PFloat r) = printable r"
| "printable_floats (PList xs) = list_all printable_floats xs"
| "printable_floats (PTuple xs) = list_all printable_floats xs"
| "printable_floats (PDict kvs) = list_all (\<lambda>kv. printable_floats (snd kv)) kvs"
| "printable_floats v = True"

lemma printable_simps [simp]:
  "printable []" "printable (x # xs) \<longleftrightarrow> 32 \<le> code x \<and> code x < 127 \<and> printable xs"
  "printable (xs @ ys) \<longleftrightarrow> printable xs \<and> printable ys"
  by (auto simp: printable_def)

lemma printable_concat: "printable (concat xss) \<longleftrightarrow> (\<forall>xs \<in> set xss. printable xs)"
  by (induction xss) auto

lemma printable_join: "printable sep \<Longrightarrow> (\<forall>x \<in> set xs. printable x) \<Longrightarrow> printable (py_join sep xs)"
  by (induction sep xs rule: py_join.induct) auto

lemma printable_hex2: "n < 256 \<Longrightarrow> printable (hex2 n)"
  by (auto simp: hex2_def digit_char_def)

lemma printable_u_escape: "n < 65536 \<Longrightarrow> printable (u_escape n)"
  by (auto simp: u_escape_def hex4_def printable_hex2 less_mult_imp_div_less code_def)

lemma code_point_lt: "code_point ch < 2097152"
proof -
  have "(a mod 8) * 262144 + (b mod 64) * 4096 + (c mod 64) * 64 + d mod 64 < 2097152" for a b c d :: nat
  proof -
    have "a mod 8 < 8" "b mod 64 < 64" "c mod 64 < 64" "d mod 64 < 64" by simp_all
    then show ?thesis by linarith
  qed
  moreover have "(a mod 16) * 4096 + (b mod 64) * 64 + c mod 64 < 2097152" for a b c :: nat
  proof -
    have "a mod 16 < 16" "b mod 64 < 64" "c mod 64 < 64" by simp_all
    then show ?thesis by linarith
  qed
  moreover have "(a mod 32) * 64 + b mod 64 < 2097152" for a b :: nat
  proof -
    have "a mod 32 < 32" "b mod 64 < 64" by simp_all
    then show ?thesis by linarith
  qed
  moreover have "code c < 2097152" for c
    using nat_of_char_less_256 [of c] by (simp add: code_def del: nat_of_char_less_256)
  ultimately show ?thesis
    by (auto simp: code_point_def split: list.splits)
qed

lemma printable_json_char: "printable (json_char ch)"
proof -
  have "(code_point ch - 65536) div 1024 < 2048"
    using code_point_lt [of ch] by (simp add: less_mult_imp_div_less)
  then show ?thesis
    by (auto simp: json_char_def Let_def printable_u_escape code_def)
qed

lemma printable_json_str: "printable (json_str s)"
  by (auto simp: json_str_def printable_concat printable_json_char)

lemma printable_str_int: "printable (py_str_int i)"
  by (auto simp: py_str_int_def printable_def list_all_iff code_def dest!: py_str_nat_digits)

lemma printable_brackets:
  assumes "indent opts = None" "printable (item_sep opts)" "printable [l, r]" "\<forall>p \<in> set parts. printable p"
  shows "printable (json_brackets opts lvl l r parts)"
  using assms by (auto simp: json_brackets_def printable_join)

lemma rmapM_set: "rmapM f xs = Inr ys \<Longrightarrow> y \<in> set ys \<Longrightarrow> \<exists>x \<in> set xs. f x = Inr y"
  by (induction xs arbitrary: ys) (auto simp: rbind_eq_Inr rmap_eq_Inr)

lemma rmapM_printable:
  assumes "rmapM f xs = Inr ys" and "\<And>x t. x \<in> set xs \<Longrightarrow> f x = Inr t \<Longrightarrow> printable t"
  shows "\<forall>y \<in> set ys. printable y"
  using assms by (auto dest: rmapM_set)

lemma printable_json_dumps:
  "json_dumps opts lvl v = Inr t \<Longrightarrow> indent opts = None \<Longrightarrow> printable (item_sep opts) \<Longrightarrow>
   printable (key_sep opts) \<Longrightarrow> printable_floats v \<Longrightarrow> printable t"
proof (induction opts lvl v arbitrary: t rule: json_dumps.induct)
  case (4 opts lvl r)
  then show ?case by (auto simp: json_float_def code_def split: if_splits)
next
  case (6 opts lvl xs)
  then obtain ys where ys: "rmapM (json_dumps opts (Suc lvl)) xs = Inr ys"
      and t: "t = json_brackets opts lvl CHR ''['' CHR '']'' ys" by (auto simp: rmap_eq_Inr)
  have "\<forall>y \<in> set ys. printable y"
    by (rule rmapM_printable [OF ys]) (use 6 in \<open>auto simp: list_all_iff\<close>)
  with 6 t show ?case by (simp add: printable_brackets code_def)
next
  case (7 opts lvl xs)
  then obtain ys where ys: "rmapM (json_dumps opts (Suc lvl)) xs = Inr ys"
      and t: "t = json_brackets opts lvl CHR ''['' CHR '']'' ys" by (auto simp: rmap_eq_Inr)
  have "\<forall>y \<in> set ys. printable y"
    by (rule rmapM_printable [OF ys]) (use 7 in \<open>auto simp: list_all_iff\<close>)
  with 7 t show ?case by (simp add: printable_brackets code_def)
next
  case (8 opts lvl kvs)
  then obtain ys where ys: "rmapM (\<lambda>(k, v). rmap (\<lambda>t. json_str k @ key_sep opts @ t)
        (json_dumps opts (Suc lvl) v)) (sort_items opts kvs) = Inr ys"
      and t: "t = json_brackets opts lvl CHR ''{'' CHR ''}'' ys" by (auto simp: rmap_eq_Inr)
  have "printable y" if "y \<in> set ys" for y
  proof -
    from rmapM_set [OF ys that] obtain k v u where kv: "(k, v) \<in> set (sort_items opts kvs)"
        and u: "json_dumps opts (Suc lvl) v = Inr u" "y = json_str k @ key_sep opts @ u"
      by (auto simp: rmap_eq_Inr)
    have "printable u"
      by (rule "8.IH" [OF kv refl u(1)]) (use 8 kv in \<open>auto simp: list_all_iff\<close>)
    with u 8 show ?thesis by (simp add: printable_json_str)
  qed
  with 8 t show ?case by (auto intro!: printable_brackets simp: code_def)
qed (auto simp: printable_json_str printable_str_int code_def split: if_splits)

section \<open>Lines\<close>

lemma py_split_sep: "sep \<notin> set w \<Longrightarrow> py_split sep (w @ sep # r) = w # py_split sep r"
  by (induction w) auto

lemma py_split_none: "sep \<notin> set w \<Longrightarrow> py_split sep w = [w]"
  by (induction w) auto

lemma printable_no_newline: "printable s \<Longrightarrow> char_of (10::nat) \<notin> set s"
  by (auto simp: printable_def list_all_iff code_def)

lemma plain_dict_get: "plain (PDict kvs) \<Longrightarrow> plain d \<Longrightarrow> plain (dict_get kvs k d)"
  by (force simp: dict_get_def list_all_iff dest: map_of_SomeD split: option.splits)

lemma plain_py_get: "py_get v k d = Inr w \<Longrightarrow> plain v \<Longrightarrow> plain d \<Longrightarrow> plain w"
  by (auto simp: py_get_Inr simp del: plain.simps intro: plain_dict_get)

end
