(* ===== verification/Filters.thy ===== *)
theory Filters
  imports Py_Val
begin

text \<open>
  \<open>filters.py\<close>: the transport-level dispatch gate.  \<open>should_dispatch\<close> takes the event
  name, the decoded payload and the process environment, and returns whether the delivery may
  dispatch the agent, with the reason; a payload whose parts have unexpected types raises as the
  Python does.  The lemmas give the gate's contract: which deliveries pass, and the authorisation
  of the direct-body label.
\<close>

type_synonym environ = "string \<Rightarrow> string option"

definition environ_get :: "environ \<Rightarrow> string \<Rightarrow> string \<Rightarrow> string" where
  "environ_get env k d = (case env k of None \<Rightarrow> d | Some v \<Rightarrow> v)"

definition EVENT_ALLOW :: "string set" where
  "EVENT_ALLOW = {''issues''}"

definition ACTION_ALLOW :: "string set" where
  "ACTION_ALLOW = {''labeled''}"

definition LABEL_PREFIXES :: "string list" where
  "LABEL_PREFIXES = [''orchestration:'', ''gh-issue-tracking:'']"

definition LABEL_EXACT :: "string set" where
  "LABEL_EXACT = {''implementation:ready'', ''implementation:complete''}"

definition DIRECT_BODY_LABEL :: string where
  "DIRECT_BODY_LABEL = ''gh-issue-tracking:direct-body''"

definition direct_body_allowed_senders :: "environ \<Rightarrow> string set" where
  "direct_body_allowed_senders env =
     (let raw = environ_get env ''DIRECT_BODY_ALLOWED_SENDERS'' '''' in
      set (map (\<lambda>s. py_lower (py_strip s))
             (filter (\<lambda>s. py_strip s \<noteq> '''') (py_split CHR '','' raw))))"

definition is_workflow_label :: "string \<Rightarrow> bool" where
  "is_workflow_label name =
     (let n = py_lower (py_strip name) in
      list_ex (py_startswith n) LABEL_PREFIXES \<or> n \<in> LABEL_EXACT)"

definition is_bot_actor :: "string \<Rightarrow> bool" where
  "is_bot_actor login =
     (let n = py_lower (py_strip login) in
      py_endswith n ''[bot]'' \<or> py_endswith n ''-bot'')"

text \<open>\<open>(payload.get(k1) or {}).get(k2)\<close>\<close>

definition nested_get :: "pyval \<Rightarrow> string \<Rightarrow> string \<Rightarrow> pyval pyres" where
  "nested_get payload k1 k2 =
     rbind (py_get payload k1 PNone) (\<lambda>v. py_get (py_or v (PDict [])) k2 PNone)"

text \<open>
  The set of lowered label names on the issue: \<open>str(lbl.get("name") or "").strip().lower()\<close>
  for every element of the issue's \<open>labels\<close> that is a dictionary.
\<close>

definition label_name_of :: "pyval \<Rightarrow> string" where
  "label_name_of lbl =
     (case dict_items lbl of
        None \<Rightarrow> ''''
      | Some kvs \<Rightarrow> py_lower (py_strip (str_or_empty (dict_get kvs ''name'' PNone))))"

definition label_names :: "pyval list \<Rightarrow> string list" where
  "label_names lbls = map label_name_of (filter is_dict lbls)"

definition issue_label_names :: "pyval \<Rightarrow> string list pyres" where
  "issue_label_names payload =
     rbind (nested_get payload ''issue'' ''labels'') (\<lambda>ls.
     rbind (py_iter (py_or ls (PList []))) (\<lambda>lbls.
     Inr (label_names lbls)))"

fun should_dispatch :: "environ \<Rightarrow> string \<Rightarrow> pyval \<Rightarrow> (bool \<times> string) pyres" where
  "should_dispatch env event0 payload =
     (let event = py_lower event0 in
      rbind (py_get (py_or payload (PDict [])) ''action'' PNone) (\<lambda>act.
      let action = py_lower (str_or_empty act) in
      if event \<notin> EVENT_ALLOW
      then Inr (False, ''event '' @ py_repr_str event @ '' not dispatched (only issues)'')
      else if action \<notin> ACTION_ALLOW
      then Inr (False, event @ ''.'' @ py_repr_str action @ '' not dispatched (only labeled)'')
      else
        rbind (nested_get payload ''sender'' ''login'') (\<lambda>login.
        let sender = str_or_empty login in
        if is_bot_actor sender
        then Inr (False, ''bot actor '' @ py_repr_str sender @ '' skipped (anti-loop)'')
        else
          rbind (nested_get payload ''label'' ''name'') (\<lambda>nm.
          let label_name = str_or_empty nm in
          if \<not> is_workflow_label label_name
          then Inr (False, ''label '' @ py_repr_str label_name @ '' not workflow-relevant'')
          else
            rbind (issue_label_names payload) (\<lambda>issue_labels.
            if DIRECT_BODY_LABEL \<in> set issue_labels \<or> py_lower label_name = DIRECT_BODY_LABEL
            then
              (let allowed_senders = direct_body_allowed_senders env in
               if allowed_senders = {}
               then Inr (False, ''direct-body dispatch disabled (set DIRECT_BODY_ALLOWED_SENDERS to enable)'')
               else if py_lower sender \<notin> allowed_senders
               then Inr (False, ''direct-body dispatch not permitted for sender '' @ py_repr_str sender)
               else Inr (True, ''allowed''))
            else Inr (True, ''allowed''))))))"

declare should_dispatch.simps [simp del]

section \<open>The payload as the gate reads it\<close>

text \<open>
  The four things the gate reads, each an error when the payload has the wrong shape.
\<close>

definition action_of :: "pyval \<Rightarrow> string pyres" where
  "action_of payload =
     rmap (\<lambda>v. py_lower (str_or_empty v)) (py_get (py_or payload (PDict [])) ''action'' PNone)"

definition sender_of :: "pyval \<Rightarrow> string pyres" where
  "sender_of payload = rmap str_or_empty (nested_get payload ''sender'' ''login'')"

definition label_of :: "pyval \<Rightarrow> string pyres" where
  "label_of payload = rmap str_or_empty (nested_get payload ''label'' ''name'')"

lemmas gate_readers = action_of_def sender_of_def label_of_def

text \<open>A delivery carries direct-body when its issue or its trigger label does.\<close>

definition carries_direct_body :: "string \<Rightarrow> string list \<Rightarrow> bool" where
  "carries_direct_body label issue_labels \<longleftrightarrow>
     DIRECT_BODY_LABEL \<in> set issue_labels \<or> py_lower label = DIRECT_BODY_LABEL"

lemma should_dispatch_allowed_iff:
  "should_dispatch env event payload = Inr (True, reason) \<longleftrightarrow>
     reason = ''allowed'' \<and> py_lower event = ''issues'' \<and> action_of payload = Inr ''labeled'' \<and>
     (\<exists>sender label labels.
        sender_of payload = Inr sender \<and> \<not> is_bot_actor sender \<and>
        label_of payload = Inr label \<and> is_workflow_label label \<and>
        issue_label_names payload = Inr labels \<and>
        (carries_direct_body label labels \<longrightarrow>
           py_lower sender \<in> direct_body_allowed_senders env))"
  (is "_ = ?spec")
proof (cases "py_get (py_or payload (PDict [])) ''action'' PNone")
  case (Inl e)
  then show ?thesis by (simp add: should_dispatch.simps action_of_def)
next
  case act: (Inr act)
  show ?thesis
  proof (cases "nested_get payload ''sender'' ''login''")
    case (Inl e)
    with act show ?thesis by (simp add: should_dispatch.simps gate_readers Let_def)
  next
    case login: (Inr login)
    show ?thesis
    proof (cases "nested_get payload ''label'' ''name''")
      case (Inl e)
      with act login show ?thesis by (simp add: should_dispatch.simps gate_readers Let_def)
    next
      case name: (Inr nm)
      show ?thesis
        using act login name
        by (cases "issue_label_names payload")
           (auto simp: should_dispatch.simps gate_readers Let_def EVENT_ALLOW_def ACTION_ALLOW_def
             carries_direct_body_def)
    qed
  qed
qed

text \<open>The reason \<open>allowed\<close> goes with permission only.\<close>

lemma should_dispatch_reason:
  "should_dispatch env event payload = Inr (b, reason) \<Longrightarrow> b \<longleftrightarrow> reason = ''allowed''"
  unfolding should_dispatch.simps [of env event payload] Let_def
  by (auto simp: rbind_eq_Inr split: if_splits)

lemma py_get_exc: "py_get v k d = Inl e \<Longrightarrow> exc_of e = AttributeError"
  by (cases v) (auto simp: py_get_def)

lemma py_iter_exc: "py_iter v = Inl e \<Longrightarrow> exc_of e = TypeError"
  by (cases v rule: py_iter.cases) auto

lemma nested_get_exc: "nested_get v k1 k2 = Inl e \<Longrightarrow> exc_of e = AttributeError"
  by (auto simp: nested_get_def rbind_eq_Inl dest: py_get_exc)

lemma issue_label_names_exc:
  "issue_label_names v = Inl e \<Longrightarrow> exc_of e \<in> {AttributeError, TypeError}"
  by (auto simp: issue_label_names_def rbind_eq_Inl dest: nested_get_exc py_iter_exc)

lemma should_dispatch_exc:
  "should_dispatch env event payload = Inl e \<Longrightarrow> exc_of e \<in> {AttributeError, TypeError}"
  unfolding should_dispatch.simps [of env event payload] Let_def
  by (auto simp: rbind_eq_Inl split: if_splits
      dest: py_get_exc nested_get_exc issue_label_names_exc)

text \<open>Why a delivery is refused: the five guards of the code, in their order.\<close>

definition refused :: "environ \<Rightarrow> string \<Rightarrow> pyval \<Rightarrow> bool" where
  "refused env event payload \<longleftrightarrow>
     py_lower event \<noteq> ''issues'' \<or> action_of payload \<noteq> Inr ''labeled'' \<or>
     (\<exists>sender. sender_of payload = Inr sender \<and> is_bot_actor sender) \<or>
     (\<exists>label. label_of payload = Inr label \<and> \<not> is_workflow_label label) \<or>
     (\<exists>sender label labels.
        sender_of payload = Inr sender \<and> label_of payload = Inr label \<and>
        issue_label_names payload = Inr labels \<and> carries_direct_body label labels \<and>
        py_lower sender \<notin> direct_body_allowed_senders env)"

lemma should_dispatch_refused:
  assumes "should_dispatch env event payload = Inr (False, reason)"
  shows "refused env event payload"
proof (rule ccontr)
  assume ok: "\<not> refused env event payload"
  have "should_dispatch env event payload = Inr (True, ''allowed'')"
    if "rbind (sender_of payload) (\<lambda>_. rbind (label_of payload) (\<lambda>_. issue_label_names payload)) = Inr ls"
    for ls
    using that ok unfolding should_dispatch_allowed_iff refused_def
    by (auto simp: rbind_eq_Inr)
  with assms have *: "rbind (sender_of payload) (\<lambda>_. rbind (label_of payload)
      (\<lambda>_. issue_label_names payload)) \<noteq> Inr ls" for ls
    by fastforce
  from assms * ok show False
    unfolding should_dispatch.simps [of env event payload] Let_def refused_def gate_readers
      carries_direct_body_def EVENT_ALLOW_def ACTION_ALLOW_def
    by (auto simp: rbind_eq_Inr rmap_eq_Inr split: if_splits)
qed

section \<open>Contract of the gate\<close>

text \<open>
  C5: a delivery passes the gate exactly when it is an \<open>issues\<close> event with action
  \<open>labeled\<close>, sent by an actor that is not a bot, triggered by a workflow label, and, if the
  issue or the trigger carries the direct-body label, sent by an allowlisted login; a delivery
  that fails one of these guards is refused or raises, and a malformed payload raises an
  \<open>AttributeError\<close> or a \<open>TypeError\<close> and never passes.
\<close>

theorem should_dispatch_contract:
  "case should_dispatch env event payload of
     Inr (allow, reason) \<Rightarrow>
       allow = (reason = ''allowed'') \<and> allow = (\<not> refused env event payload) \<and>
       (if allow then is_ok (sender_of payload) \<and> is_ok (label_of payload) \<and>
                      is_ok (issue_label_names payload)
        else True)
   | Inl e \<Rightarrow> exc_of e \<in> {AttributeError, TypeError}"
proof (cases "should_dispatch env event payload")
  case (Inl e)
  then show ?thesis using should_dispatch_exc by fastforce
next
  case (Inr r)
  obtain b reason where r: "r = (b, reason)" by (cases r)
  show ?thesis
  proof (cases b)
    case True
    with Inr r have "should_dispatch env event payload = Inr (True, reason)" by simp
    then show ?thesis
      unfolding should_dispatch_allowed_iff using True Inr r
      by (auto simp: refused_def)
  next
    case False
    with Inr r have *: "should_dispatch env event payload = Inr (False, reason)" by simp
    from should_dispatch_reason [OF *] should_dispatch_refused [OF *] False Inr r show ?thesis
      by simp
  qed
qed

text \<open>
  Direct-body dispatch is fail-closed.  When the allowlist variable is unset, empty or holds
  only separators and whitespace, no delivery whose issue or trigger carries the direct-body label
  passes the gate, whoever sends it.
\<close>

theorem direct_body_fail_closed:
  assumes "direct_body_allowed_senders env = {}"
    and "label_of payload = Inr label" and "issue_label_names payload = Inr labels"
    and "carries_direct_body label labels"
  shows "should_dispatch env event payload \<noteq> Inr (True, reason)"
  using assms unfolding should_dispatch_allowed_iff by auto

theorem direct_body_fail_closed_witness:
  "should_dispatch (\<lambda>v. if v = ''DIRECT_BODY_ALLOWED_SENDERS'' then Some '' , '' else None) ''issues''
     (PDict [(''action'', PStr ''labeled''),
             (''label'', PDict [(''name'', PStr ''gh-issue-tracking:direct-body'')]),
             (''issue'', PDict [(''labels'', PList [])]),
             (''sender'', PDict [(''login'', PStr ''octocat'')])]) \<noteq> Inr (True, ''allowed'')"
  by (rule direct_body_fail_closed [where label = "''gh-issue-tracking:direct-body''" and labels = "[]"];
      code_simp)

end
