(* ===== verification/Event_Store.thy ===== *)
theory Event_Store
  imports Py_Val
begin

text \<open>
  \<open>event_store.py\<close>: the ring buffer of events with its subscribers.  \<open>event_store\<close> is
  the object's state: the ring, the registered subscriber queues (identified by numbers, the heap
  of queue objects being \<open>es_queues\<close>), the id counter and boot token, and the optional sink with
  the state of the world the sink acts on.  The clock is a parameter: \<open>es_clock n\<close> is what
  \<open>time.time()\<close> returns to the emit with number \<open>n\<close>.  The operations are the methods, run to
  completion; their interleavings are the subject of theory \<open>Event_Bus\<close>.
\<close>

type_synonym data = "(string \<times> pyval) list"

record event =
  ev_id :: string
  ev_type :: string
  ev_ts :: rat
  ev_data :: data

record 'w event_store =
  es_boot :: string
  es_counter :: nat
  es_clock :: "nat \<Rightarrow> rat"
  es_events :: "event list"
  es_maxlen :: nat
  es_subscribers :: "nat list"
  es_queues :: "nat \<Rightarrow> event list"
  es_fresh :: nat
  es_sink :: "(event \<Rightarrow> 'w \<Rightarrow> pyexc option \<times> 'w) option"
  es_world :: 'w

section \<open>Operations\<close>

text \<open>The boot part of the ids: \<open>f"{int(time.time())}-{uuid.uuid4().hex[:8]}"\<close>.\<close>

definition boot_token :: "nat \<Rightarrow> string \<Rightarrow> string" where
  "boot_token epoch uuid_hex = py_str_nat epoch @ ''-'' @ take 8 uuid_hex"

definition EventStore ::
  "nat \<Rightarrow> (event \<Rightarrow> 'w \<Rightarrow> pyexc option \<times> 'w) option \<Rightarrow> nat \<Rightarrow> string \<Rightarrow> (nat \<Rightarrow> rat) \<Rightarrow> 'w \<Rightarrow> 'w event_store"
where
  "EventStore maxlen sink epoch uuid_hex clock w =
     \<lparr>es_boot = boot_token epoch uuid_hex, es_counter = 1, es_clock = clock, es_events = [],
      es_maxlen = maxlen, es_subscribers = [], es_queues = (\<lambda>_. []), es_fresh = 0,
      es_sink = sink, es_world = w\<rparr>"

definition QUEUE_MAXSIZE :: nat where
  "QUEUE_MAXSIZE = 500"

definition event_id :: "string \<Rightarrow> nat \<Rightarrow> string" where
  "event_id boot n = boot @ ''-'' @ py_str_nat n"

definition make_event :: "'w event_store \<Rightarrow> string \<Rightarrow> data \<Rightarrow> event" where
  "make_event s event_type d =
     \<lparr>ev_id = event_id (es_boot s) (es_counter s), ev_type = event_type,
      ev_ts = es_clock s (es_counter s), ev_data = d\<rparr>"

text \<open>\<open>sub.put_nowait(event)\<close>, a full queue being skipped.\<close>

definition put_nowait :: "event \<Rightarrow> event list \<Rightarrow> event list" where
  "put_nowait e q = (if length q < QUEUE_MAXSIZE then q @ [e] else q)"

definition deliver :: "event \<Rightarrow> nat \<Rightarrow> (nat \<Rightarrow> event list) \<Rightarrow> (nat \<Rightarrow> event list)" where
  "deliver e q qs = qs(q := put_nowait e (qs q))"

definition run_sink :: "event \<Rightarrow> 'w event_store \<Rightarrow> 'w event_store" where
  "run_sink e s =
     (case es_sink s of
        None \<Rightarrow> s
      | Some sink \<Rightarrow> s\<lparr>es_world := snd (sink e (es_world s))\<rparr>)"

definition emit :: "string \<Rightarrow> data \<Rightarrow> 'w event_store \<Rightarrow> 'w event_store" where
  "emit event_type d s =
     (let e = make_event s event_type d;
          s1 = s\<lparr>es_counter := Suc (es_counter s)\<rparr>;
          s2 = s1\<lparr>es_events := deque_append (es_maxlen s1) (es_events s1) e\<rparr>;
          subs = es_subscribers s2;
          s3 = s2\<lparr>es_queues := fold (deliver e) subs (es_queues s2)\<rparr>
      in run_sink e s3)"

definition recent :: "int \<Rightarrow> 'w event_store \<Rightarrow> event list" where
  "recent limit s =
     (if limit \<le> 0 then []
      else (let events = es_events s in
            if limit < int (length events) then drop (length events - nat limit) events
            else events))"

record subscriber =
  sub_q :: nat
  sub_keepalive :: rat
  sub_closed :: bool

text \<open>The replay loop of \<open>subscribe\<close>: it stops at the first event the queue has no room for.\<close>

fun replay :: "event list \<Rightarrow> event list \<Rightarrow> event list" where
  "replay q [] = q"
| "replay q (e # es) = (if length q < QUEUE_MAXSIZE then replay (q @ [e]) es else q)"

definition subscribe :: "rat \<Rightarrow> 'w event_store \<Rightarrow> subscriber \<times> 'w event_store" where
  "subscribe keepalive s =
     (let q = es_fresh s in
      (\<lparr>sub_q = q, sub_keepalive = keepalive, sub_closed = False\<rparr>,
       s\<lparr>es_fresh := Suc q,
         es_queues := (es_queues s)(q := replay [] (es_events s)),
         es_subscribers := es_subscribers s @ [q]\<rparr>))"

text \<open>
  \<open>Subscriber.__next__\<close> returns \<open>Some (Some e)\<close> for an event, \<open>Some None\<close> for the
  keepalive that ends a wait of \<open>sub_keepalive\<close> seconds on an empty queue, and \<open>None\<close> for
  \<open>StopIteration\<close> on a closed subscriber.
\<close>

definition subscriber_next ::
  "subscriber \<Rightarrow> 'w event_store \<Rightarrow> event option option \<times> 'w event_store" where
  "subscriber_next sub s =
     (if sub_closed sub then (None, s)
      else (case es_queues s (sub_q sub) of
              [] \<Rightarrow> (Some None, s)
            | e # es \<Rightarrow> (Some (Some e), s\<lparr>es_queues := (es_queues s)(sub_q sub := es)\<rparr>)))"

definition subscriber_close ::
  "subscriber \<Rightarrow> 'w event_store \<Rightarrow> subscriber \<times> 'w event_store" where
  "subscriber_close sub s =
     (if sub_closed sub then (sub, s)
      else (sub\<lparr>sub_closed := True\<rparr>,
            s\<lparr>es_subscribers := remove1 (sub_q sub) (es_subscribers s)\<rparr>))"

definition subscriber_count :: "'w event_store \<Rightarrow> nat" where
  "subscriber_count s = length (es_subscribers s)"

section \<open>Frame and effect of emit\<close>

lemma run_sink_frame [simp]:
  "es_boot (run_sink e s) = es_boot s" "es_counter (run_sink e s) = es_counter s"
  "es_clock (run_sink e s) = es_clock s" "es_events (run_sink e s) = es_events s"
  "es_maxlen (run_sink e s) = es_maxlen s" "es_subscribers (run_sink e s) = es_subscribers s"
  "es_queues (run_sink e s) = es_queues s" "es_fresh (run_sink e s) = es_fresh s"
  "es_sink (run_sink e s) = es_sink s"
  by (simp_all add: run_sink_def split: option.splits)

lemma emit_frame [simp, emit_simps]:
  "es_boot (emit t d s) = es_boot s" "es_clock (emit t d s) = es_clock s"
  "es_maxlen (emit t d s) = es_maxlen s" "es_subscribers (emit t d s) = es_subscribers s"
  "es_fresh (emit t d s) = es_fresh s" "es_sink (emit t d s) = es_sink s"
  "es_counter (emit t d s) = Suc (es_counter s)"
  by (simp_all add: emit_def Let_def)

lemma es_events_emit [emit_simps]:
  "es_events (emit t d s) = last_n (es_maxlen s) (es_events s @ [make_event s t d])"
  by (simp add: emit_def Let_def deque_append_last_n)

lemma fold_deliver:
  "distinct qs \<Longrightarrow>
   fold (deliver e) qs m q = (if q \<in> set qs then put_nowait e (m q) else m q)"
  by (induction qs arbitrary: m) (auto simp: deliver_def)

lemma es_queues_emit:
  "distinct (es_subscribers s) \<Longrightarrow>
   es_queues (emit t d s) q =
     (if q \<in> set (es_subscribers s) then put_nowait (make_event s t d) (es_queues s q)
      else es_queues s q)"
  by (simp add: emit_def Let_def fold_deliver)

text \<open>The recorded history of the store: types and data of the events still in the ring.\<close>

definition recorded :: "'w event_store \<Rightarrow> (string \<times> data) list" where
  "recorded s = map (\<lambda>e. (ev_type e, ev_data e)) (es_events s)"

lemma recorded_emit [emit_simps]:
  "recorded (emit t d s) = last_n (es_maxlen s) (recorded s @ [(t, d)])"
  by (simp add: recorded_def es_events_emit map_last_n make_event_def)

text \<open>A run of emits, oldest first.\<close>

definition emits :: "(string \<times> data) list \<Rightarrow> 'w event_store \<Rightarrow> 'w event_store" where
  "emits evs s = fold (\<lambda>(t, d). emit t d) evs s"

lemma emits_simps [simp]:
  "emits [] s = s"
  "emits ((t, d) # evs) s = emits evs (emit t d s)"
  by (simp_all add: emits_def)

lemma emits_append: "emits (xs @ ys) s = emits ys (emits xs s)"
  by (simp add: emits_def)

lemma emit_as_emits: "emit t d s = emits [(t, d)] s"
  by simp

text \<open>
  The event store is a bounded log for its clients: what a client can read back after emitting is
  the newest part of everything emitted.
\<close>

interpretation store_log: bounded_log recorded es_maxlen "\<lambda>(t, d). emit t d"
  by unfold_locales (auto simp: recorded_emit)

lemma emits_frame [simp]:
  "es_boot (emits evs s) = es_boot s" "es_maxlen (emits evs s) = es_maxlen s"
  "es_subscribers (emits evs s) = es_subscribers s" "es_sink (emits evs s) = es_sink s"
  "es_counter (emits evs s) = es_counter s + length evs"
  by (induction evs arbitrary: s) auto

lemma recorded_emits:
  "length (recorded s) \<le> es_maxlen s \<Longrightarrow>
   recorded (emits evs s) = last_n (es_maxlen s) (recorded s @ evs)"
  unfolding emits_def by (rule store_log.items_adds)

section \<open>Invariant\<close>

text \<open>
  The ring holds the most recent events, numbered consecutively up to the counter; every
  registered queue is a fresh object of at most \<open>QUEUE_MAXSIZE\<close> events.
\<close>

definition store_inv :: "'w event_store \<Rightarrow> bool" where
  "store_inv s \<longleftrightarrow>
     1 \<le> es_counter s \<and>
     map ev_id (es_events s) =
       map (event_id (es_boot s)) [es_counter s - length (es_events s)..<es_counter s] \<and>
     length (es_events s) < es_counter s \<and> length (es_events s) \<le> es_maxlen s \<and>
     distinct (es_subscribers s) \<and> (\<forall>q \<in> set (es_subscribers s). q < es_fresh s) \<and>
     (\<forall>q. length (es_queues s q) \<le> QUEUE_MAXSIZE)"

lemma store_inv_init [inv_intros]: "store_inv (EventStore m sink ep u clk w)"
  by (simp add: store_inv_def EventStore_def)

lemma length_put_nowait: "length q \<le> QUEUE_MAXSIZE \<Longrightarrow> length (put_nowait e q) \<le> QUEUE_MAXSIZE"
  by (simp add: put_nowait_def)

lemma store_inv_emit [inv_intros]:
  assumes inv: "store_inv s"
  shows "store_inv (emit t d s)"
proof -
  let ?n = "length (es_events s)" and ?c = "es_counter s" and ?m = "es_maxlen s"
  have ids: "map ev_id (es_events s @ [make_event s t d]) = map (event_id (es_boot s)) [?c - ?n..<Suc ?c]"
    using inv by (simp add: store_inv_def make_event_def)
  have "map ev_id (es_events (emit t d s)) =
          last_n ?m (map (event_id (es_boot s)) [?c - ?n..<Suc ?c])"
    by (simp only: es_events_emit map_last_n ids)
  also have "\<dots> = map (event_id (es_boot s)) [Suc ?c - min ?m (Suc ?n)..<Suc ?c]"
    using inv by (auto simp: last_n_def drop_map store_inv_def min_def intro: arg_cong2)
  finally have "map ev_id (es_events (emit t d s)) =
      map (event_id (es_boot s)) [Suc ?c - length (es_events (emit t d s))..<Suc ?c]"
    by (simp add: es_events_emit)
  moreover have "length (es_queues (emit t d s) q) \<le> QUEUE_MAXSIZE" for q
    using inv by (simp add: store_inv_def es_queues_emit length_put_nowait)
  ultimately show ?thesis
    using inv by (simp add: store_inv_def es_events_emit min_def)
qed

lemma store_inv_emits [inv_intros]: "store_inv s \<Longrightarrow> store_inv (emits evs s)"
  by (induction evs arbitrary: s) (auto simp: store_inv_emit)

lemma replay_eq: "length q \<le> QUEUE_MAXSIZE \<Longrightarrow> replay q es = q @ take (QUEUE_MAXSIZE - length q) es"
  by (induction es arbitrary: q) (auto simp: take_Cons' less_Suc_eq_le Suc_diff_Suc)

lemma store_inv_subscribe [inv_intros]:
  "store_inv s \<Longrightarrow> store_inv (snd (subscribe k s))"
  by (auto simp: store_inv_def subscribe_def Let_def replay_eq intro: less_SucI)

lemma store_inv_next [inv_intros]:
  "store_inv s \<Longrightarrow> store_inv (snd (subscriber_next sub s))"
  by (auto simp: store_inv_def subscriber_next_def split: list.splits)
    (metis Suc_leD length_Cons)

lemma store_inv_close [inv_intros]:
  "store_inv s \<Longrightarrow> store_inv (snd (subscriber_close sub s))"
  using set_remove1_subset [of "sub_q sub" "es_subscribers s"]
  by (auto simp: store_inv_def subscriber_close_def)

section \<open>Properties\<close>

text \<open>
  The stores that the operations reach from a new one, under any sequence of calls, and those of a
  process that was started in the second \<open>epoch\<close> and drew \<open>uuid_hex\<close>.
\<close>

inductive store_reach :: "'w event_store \<Rightarrow> bool" where
  init: "store_reach (EventStore m sink ep u clk w)"
| emit: "store_reach s \<Longrightarrow> store_reach (emit t d s)"
| subscribe: "store_reach s \<Longrightarrow> store_reach (snd (subscribe k s))"
| get_next: "store_reach s \<Longrightarrow> store_reach (snd (subscriber_next sub s))"
| close: "store_reach s \<Longrightarrow> store_reach (snd (subscriber_close sub s))"

inductive process_reach :: "nat \<Rightarrow> string \<Rightarrow> 'w event_store \<Rightarrow> bool" for epoch uuid_hex where
  start: "process_reach epoch uuid_hex (EventStore m sink epoch uuid_hex clk w)"
| emit: "process_reach epoch uuid_hex s \<Longrightarrow> process_reach epoch uuid_hex (emit t d s)"
| subscribe: "process_reach epoch uuid_hex s \<Longrightarrow> process_reach epoch uuid_hex (snd (subscribe k s))"
| get_next: "process_reach epoch uuid_hex s \<Longrightarrow> process_reach epoch uuid_hex (snd (subscriber_next sub s))"
| close: "process_reach epoch uuid_hex s \<Longrightarrow> process_reach epoch uuid_hex (snd (subscriber_close sub s))"

lemma process_store_reach: "process_reach epoch uuid_hex s \<Longrightarrow> store_reach s"
  by (induction rule: process_reach.induct) (auto intro: store_reach.intros)

lemma process_boot: "process_reach epoch uuid_hex s \<Longrightarrow> es_boot s = boot_token epoch uuid_hex"
  by (induction rule: process_reach.induct)
    (simp_all add: EventStore_def subscribe_def subscriber_next_def subscriber_close_def Let_def split: list.split)

lemma store_reach_inv: "store_reach s \<Longrightarrow> store_inv s"
  by (induction rule: store_reach.induct) (auto intro: inv_intros)

lemma minus_notin_digits: "CHR ''-'' \<notin> set (py_str_nat n)"
  using py_str_nat_digits [of "CHR ''-''" n] by (auto simp: code_def)

lemma event_id_inj: "event_id b m = event_id c n \<longleftrightarrow> b = c \<and> m = n"
  using append_sep_inj [of b "CHR ''-''" "py_str_nat m" c "py_str_nat n"]
  by (auto simp: event_id_def minus_notin_digits dest: py_str_nat_inj)

lemma boot_token_inj:
  "CHR ''-'' \<notin> set u \<Longrightarrow> CHR ''-'' \<notin> set v \<Longrightarrow>
   boot_token e u = boot_token f v \<Longrightarrow> e = f \<and> take 8 u = take 8 v"
  using append_sep_inj [of "py_str_nat e" "CHR ''-''" "take 8 u" "py_str_nat f" "take 8 v"]
  by (auto simp: boot_token_def dest: py_str_nat_inj in_set_takeD)

lemma store_inv_ids_distinct: "store_inv s \<Longrightarrow> distinct (map ev_id (es_events s))"
  by (simp add: store_inv_def distinct_map inj_on_def event_id_inj)

lemma store_inv_id_boot:
  "store_inv s \<Longrightarrow> x \<in> set (map ev_id (es_events s)) \<Longrightarrow> \<exists>n. x = event_id (es_boot s) n"
  unfolding store_inv_def by (metis ex_map_conv)

text \<open>
  C32: event ids are unique, also across restarts.  In every store that a process reaches, the ring
  holds at most \<open>maxlen\<close> events, oldest first, with the consecutive ids that end just below the
  counter, so no two carry the same id.  An id of one process is never the id of another one that
  was started in a different second, or that drew another first eight characters of its random
  token (a hexadecimal string, so it has no dash).
\<close>

theorem event_ids_unique:
  assumes "process_reach epoch uuid_hex s" and "process_reach epoch' uuid_hex' s'"
    and "CHR ''-'' \<notin> set uuid_hex" and "CHR ''-'' \<notin> set uuid_hex'"
    and "epoch \<noteq> epoch' \<or> take 8 uuid_hex \<noteq> take 8 uuid_hex'"
  shows "length (es_events s) \<le> es_maxlen s \<and> distinct (map ev_id (es_events s)) \<and>
    map ev_id (es_events s) =
      map (event_id (es_boot s)) [es_counter s - length (es_events s)..<es_counter s] \<and>
    set (map ev_id (es_events s)) \<inter> set (map ev_id (es_events s')) = {}"
proof -
  from assms(1,2) have inv: "store_inv s" "store_inv s'" by (simp_all add: store_reach_inv process_store_reach)
  have boots: "es_boot s \<noteq> es_boot s'"
    using boot_token_inj [OF assms(3,4)] assms(5) process_boot [OF assms(1)] process_boot [OF assms(2)] by metis
  have "set (map ev_id (es_events s)) \<inter> set (map ev_id (es_events s')) = {}"
  proof (rule equals0I)
    fix x assume "x \<in> set (map ev_id (es_events s)) \<inter> set (map ev_id (es_events s'))"
    then have "x \<in> set (map ev_id (es_events s))" and "x \<in> set (map ev_id (es_events s'))"
      by blast+
    with inv boots show False
      using store_inv_id_boot event_id_inj by metis
  qed
  with inv store_inv_ids_distinct [OF inv(1)] show ?thesis
    by (auto simp: store_inv_def)
qed

text \<open>
  What \<open>recent\<close> returns after a run of emits is the newest \<open>limit\<close> of the events the
  ring kept, oldest first, and these are exactly the last ones emitted.
\<close>

theorem recent_after_emits:
  assumes "store_reach s" and "0 < limit"
  shows "map (\<lambda>e. (ev_type e, ev_data e)) (recent limit (emits evs s)) =
    last_n (min (nat limit) (es_maxlen s)) (recorded s @ evs)"
proof -
  have fits: "length (recorded s) \<le> es_maxlen s"
    using store_reach_inv [OF assms(1)] by (simp add: recorded_def store_inv_def)
  have "recent limit t = last_n (nat limit) (es_events t)" for t :: "'a event_store"
    using assms(2) by (auto simp: recent_def last_n_def Let_def)
  then have "map (\<lambda>e. (ev_type e, ev_data e)) (recent limit (emits evs s)) =
      last_n (nat limit) (recorded (emits evs s))"
    by (simp add: map_last_n recorded_def)
  then show ?thesis by (simp add: recorded_emits [OF fits] last_n_last_n)
qed

lemma store_reach_emits: "store_reach s \<Longrightarrow> store_reach (emits evs s)"
  by (induction evs rule: rev_induct) (auto simp: emits_append intro: store_reach.emit)

lemma last_notin_take: "distinct xs \<Longrightarrow> k < length xs \<Longrightarrow> last xs \<notin> set (take k xs)"
  by (metis append_take_drop_id drop_eq_Nil distinct_append disjoint_iff last_appendR last_in_set
      not_le)

text \<open>
  C33: a new subscriber finds the ring's events in its queue, oldest first, up to the queue's
  capacity of 500; a ring with more events is replayed without its newest ones, and further emits
  are lost to that subscriber until it has taken events out.
\<close>

theorem subscribe_replay:
  assumes reach: "store_reach s" and sub: "subscribe k s = (sub, s1)"
  shows "es_queues s1 (sub_q sub) = take QUEUE_MAXSIZE (es_events s) \<and>
    es_events s1 = es_events s \<and> sub_q sub \<in> set (es_subscribers s1) \<and>
    (QUEUE_MAXSIZE < length (es_events s) \<longrightarrow>
       last (es_events s) \<notin> set (es_queues s1 (sub_q sub)) \<and>
       es_queues (emit t d s1) (sub_q sub) = es_queues s1 (sub_q sub))"
proof -
  have "store_reach s1" using store_reach.subscribe [OF reach, of k] sub by simp
  then have "distinct (es_subscribers s1)" by (auto dest!: store_reach_inv simp: store_inv_def)
  moreover have "distinct (es_events s)"
    using store_inv_ids_distinct [OF store_reach_inv [OF reach]] distinct_map by blast
  ultimately show ?thesis
    using sub by (auto simp: subscribe_def Let_def replay_eq es_queues_emit put_nowait_def
        dest: last_notin_take [of "es_events s"])
qed

theorem subscribe_replay_witness:
  "\<exists>s :: unit event_store. \<exists>sub s1. subscribe 15 s = (sub, s1) \<and> length (es_events s) = 501 \<and>
     last (es_events s) \<notin> set (es_queues s1 (sub_q sub)) \<and>
     es_queues (emit ''webhook_received'' [] s1) (sub_q sub) = es_queues s1 (sub_q sub)"
proof -
  define s :: "unit event_store" where
    "s = emits (replicate 501 (''agent_message_chunk'', [])) (EventStore 1000 None 7 ''0a1b2c3d'' (\<lambda>_. 0) ())"
  obtain sub s1 where sub: "subscribe 15 s = (sub, s1)" by (cases "subscribe 15 s")
  have reach: "store_reach s" unfolding s_def by (intro store_reach_emits store_reach.init)
  have "length (recorded s) = 501"
    unfolding s_def by (subst recorded_emits) (simp_all add: recorded_def EventStore_def)
  then have len: "length (es_events s) = 501" by (simp add: recorded_def)
  from subscribe_replay [OF reach sub, of "''webhook_received''" "[]"] sub len show ?thesis
    by (auto simp: QUEUE_MAXSIZE_def)
qed

theorem event_ids_unique_witness:
  "\<exists>(s :: unit event_store) (s' :: unit event_store). process_reach 7 ''0a1b2c3d'' s \<and>
     process_reach 7 ''ffffffff'' s' \<and> es_events s \<noteq> [] \<and> es_events s' \<noteq> [] \<and>
     set (map ev_id (es_events s)) \<inter> set (map ev_id (es_events s')) = {}"
proof -
  define st :: "string \<Rightarrow> unit event_store" where
    "st u = emit ''x'' [] (EventStore 2 None 7 u (\<lambda>_. 0) ())" for u
  have reach: "process_reach 7 u (st u)" for u
    unfolding st_def by (intro process_reach.emit process_reach.start)
  have events: "es_events (st u) \<noteq> []" for u
    by (simp add: st_def es_events_emit EventStore_def)
  have "CHR ''-'' \<notin> set ''0a1b2c3d''" "CHR ''-'' \<notin> set ''ffffffff''"
    "7 \<noteq> (7::nat) \<or> take 8 ''0a1b2c3d'' \<noteq> take 8 ''ffffffff''" by simp_all
  from event_ids_unique [OF reach reach this]
  have "set (map ev_id (es_events (st ''0a1b2c3d''))) \<inter> set (map ev_id (es_events (st ''ffffffff''))) = {}"
    by (elim conjE)
  with reach events show ?thesis by blast
qed

theorem recent_after_emits_witness:
  "map (\<lambda>e. (ev_type e, ev_data e))
     (recent 2 (emits [(''a'', []), (''b'', []), (''c'', [])] (EventStore 5 None 7 ''0a1b2c3d'' (\<lambda>_. 0) ())))
   = [(''b'', []), (''c'', [])]"
proof -
  have "store_reach (EventStore 5 None 7 ''0a1b2c3d'' (\<lambda>_. 0) ())" and "(0::int) < 2"
    by (rule store_reach.init) simp
  from recent_after_emits [OF this, of "[(''a'', []), (''b'', []), (''c'', [])]"]
  show ?thesis by (simp add: EventStore_def recorded_def last_n_def)
qed

end
