(* ===== verification/Prompt_Queue.thy ===== *)
theory Prompt_Queue
  imports Event_Store
begin

text \<open>
  \<open>prompt_queue.py\<close>: the \<open>PromptInfo\<close> envelope, the deduplicating FIFO \<open>PromptQueue\<close>
  and its consumer.  \<open>enqueue\<close> is the method as written, with the bounded \<open>deque\<close> of
  recent delivery ids and the set kept beside it; \<open>consume_step\<close> is one round of the consumer's
  loop, with the ACP host as a parameter (a function that may raise and that acts on the event
  store).  The dedup contract is the locale \<open>dedup_window\<close>, interpreted on \<open>enqueue\<close>.
\<close>

section \<open>The envelope\<close>

datatype prompt_status = queued | consumed

record prompt_info =
  pi_id :: string
  pi_source :: string
  pi_delivery_id :: string
  pi_repo :: string
  pi_event :: string
  pi_action :: string
  pi_label :: string
  pi_payload :: pyval
  pi_prompt :: "string option"
  pi_priority :: int
  pi_status :: prompt_status
  pi_enqueued_at :: rat
  pi_consumed_at :: "rat option"

text \<open>
  A new envelope with the defaults of the class; \<open>uuid4().hex\<close> and \<open>time.monotonic()\<close>
  are the arguments \<open>uid\<close> and \<open>now\<close>.
\<close>

definition PromptInfo ::
  "string \<Rightarrow> rat \<Rightarrow> string \<Rightarrow> string \<Rightarrow> string \<Rightarrow> string \<Rightarrow> string \<Rightarrow> pyval \<Rightarrow> prompt_info" where
  "PromptInfo uid now delivery_id repo event action label payload =
     \<lparr>pi_id = uid, pi_source = ''github_webhook'', pi_delivery_id = delivery_id, pi_repo = repo,
      pi_event = event, pi_action = action, pi_label = label, pi_payload = payload,
      pi_prompt = None, pi_priority = 0, pi_status = queued, pi_enqueued_at = now,
      pi_consumed_at = None\<rparr>"

definition mark_consumed :: "rat \<Rightarrow> prompt_info \<Rightarrow> prompt_info" where
  "mark_consumed now info = info\<lparr>pi_status := consumed, pi_consumed_at := Some now\<rparr>"

section \<open>The queue\<close>

definition DEDUP_CAPACITY :: nat where
  "DEDUP_CAPACITY = 1024"

record prompt_queue =
  pq_queue :: "prompt_info list"
  pq_unfinished :: nat            \<comment> \<open>the task counter of \<open>asyncio.Queue\<close>\<close>
  pq_maxlen :: nat
  pq_seen_order :: "string list"
  pq_seen :: "string set"

definition PromptQueue :: "nat \<Rightarrow> prompt_queue" where
  "PromptQueue dedup_capacity =
     \<lparr>pq_queue = [], pq_unfinished = 0, pq_maxlen = dedup_capacity, pq_seen_order = [], pq_seen = {}\<rparr>"

definition enqueue :: "prompt_info \<Rightarrow> prompt_queue \<Rightarrow> bool \<times> prompt_queue" where
  "enqueue info q =
     (let delivery_id = pi_delivery_id info in
      if delivery_id \<in> pq_seen q then (False, q)
      else
        (let seen1 = (if pq_maxlen q \<noteq> 0 \<and> length (pq_seen_order q) = pq_maxlen q
                      then pq_seen q - {hd (pq_seen_order q)} else pq_seen q)
         in (True, q\<lparr>pq_seen_order := deque_append (pq_maxlen q) (pq_seen_order q) delivery_id,
                     pq_seen := insert delivery_id seen1,
                     pq_queue := pq_queue q @ [info],
                     pq_unfinished := Suc (pq_unfinished q)\<rparr>)))"

section \<open>The dedup window\<close>

text \<open>
  What at-least-once delivery needs of a queue: an operation that admits an item unless its key
  is among the last \<open>size\<close> admitted keys, and that appends what it admits.
\<close>

locale dedup_window =
  fixes admit :: "'a \<Rightarrow> 's \<Rightarrow> bool \<times> 's"
    and key :: "'a \<Rightarrow> 'k"
    and window :: "'s \<Rightarrow> 'k list"
    and contents :: "'s \<Rightarrow> 'a list"
    and size :: nat
    and inv :: "'s \<Rightarrow> bool"
  assumes size_pos: "0 < size"
    and admit_inv: "inv s \<Longrightarrow> inv (snd (admit x s))"
    and admit_result: "inv s \<Longrightarrow> fst (admit x s) \<longleftrightarrow> key x \<notin> set (window s)"
    and admit_window: "inv s \<Longrightarrow> window (snd (admit x s)) =
        (if fst (admit x s) then last_n size (window s @ [key x]) else window s)"
    and admit_contents: "inv s \<Longrightarrow> contents (snd (admit x s)) =
        (if fst (admit x s) then contents s @ [x] else contents s)"
begin

definition admit_all :: "'a list \<Rightarrow> 's \<Rightarrow> 's" where
  "admit_all xs s = fold (\<lambda>x t. snd (admit x t)) xs s"

text \<open>The specification over the unbounded list of everything admitted so far.\<close>

fun admitted :: "'a list \<Rightarrow> 'a list \<Rightarrow> 'a list" where
  "admitted acc [] = acc"
| "admitted acc (x # xs) =
     (if key x \<in> set (last_n size (map key acc)) then admitted acc xs
      else admitted (acc @ [x]) xs)"

lemma admit_all_inv: "inv s \<Longrightarrow> inv (admit_all xs s)"
  by (induction xs arbitrary: s) (auto simp: admit_all_def intro: admit_inv)

lemma admit_all_contents:
  assumes "inv s" and "window s = last_n size (map key acc)" and "contents s = acc"
  shows "contents (admit_all xs s) = admitted acc xs \<and>
         window (admit_all xs s) = last_n size (map key (admitted acc xs))"
  using assms
proof (induction xs arbitrary: s acc)
  case Nil
  then show ?case by (simp add: admit_all_def)
next
  case (Cons x xs)
  let ?t = "snd (admit x s)"
  let ?acc = "if key x \<in> set (window s) then acc else acc @ [x]"
  have "contents (admit_all xs ?t) = admitted ?acc xs \<and>
        window (admit_all xs ?t) = last_n size (map key (admitted ?acc xs))"
    using Cons.prems
    by (intro Cons.IH)
       (auto simp: admit_inv admit_window admit_contents admit_result last_n_last_n_append)
  with Cons.prems show ?case by (simp add: admit_all_def)
qed

lemma redelivery_dropped:
  assumes "inv s"
  shows "fst (admit y (snd (admit x s))) \<longleftrightarrow>
      key y \<noteq> key x \<and> key y \<notin> set (window (snd (admit x s)))"
proof -
  have "key x \<in> set (window (snd (admit x s)))"
    using assms size_pos by (auto simp: admit_window admit_result last_n_append_le)
  then show ?thesis using assms by (auto simp: admit_result admit_inv)
qed

text \<open>Any \<open>size\<close> consecutive admitted items have different keys.\<close>

lemma admitted_spaced:
  assumes "\<forall>ys z zs. acc = ys @ z # zs \<longrightarrow> key z \<notin> set (last_n size (map key ys))"
  shows "\<forall>ys z zs. admitted acc xs = ys @ z # zs \<longrightarrow> key z \<notin> set (last_n size (map key ys))"
  using assms
proof (induction xs arbitrary: acc)
  case Nil
  then show ?case by simp
next
  case (Cons x xs)
  show ?case
  proof (cases "key x \<in> set (last_n size (map key acc))")
    case True
    with Cons show ?thesis by simp
  next
    case False
    have "\<forall>ys z zs. acc @ [x] = ys @ z # zs \<longrightarrow> key z \<notin> set (last_n size (map key ys))"
    proof (intro allI impI)
      fix ys z zs assume eq: "acc @ [x] = ys @ z # zs"
      show "key z \<notin> set (last_n size (map key ys))"
      proof (cases zs rule: rev_cases)
        case Nil
        with eq False show ?thesis by simp
      next
        case (snoc us u)
        with eq have "acc = ys @ z # us" by simp
        with Cons.prems show ?thesis by blast
      qed
    qed
    from Cons.IH [OF this] False show ?thesis by simp
  qed
qed

end

definition queue_inv :: "nat \<Rightarrow> prompt_queue \<Rightarrow> bool" where
  "queue_inv n q \<longleftrightarrow>
     pq_maxlen q = n \<and> pq_seen q = set (pq_seen_order q) \<and> distinct (pq_seen_order q) \<and>
     length (pq_seen_order q) \<le> n"

lemma queue_inv_init [inv_intros]: "queue_inv n (PromptQueue n)"
  by (simp add: queue_inv_def PromptQueue_def)

lemma enqueue_seen:
  assumes "0 < n" and inv: "queue_inv n q" and new: "d \<notin> pq_seen q"
  shows "insert d (if length (pq_seen_order q) = n then pq_seen q - {hd (pq_seen_order q)} else pq_seen q)
         = set (deque_append n (pq_seen_order q) d)"
proof (cases "length (pq_seen_order q) = n")
  case True
  with assms obtain x xs where xs: "pq_seen_order q = x # xs"
    by (cases "pq_seen_order q") auto
  with inv have "x \<notin> set xs" by (simp add: queue_inv_def)
  moreover have "deque_append n (pq_seen_order q) d = xs @ [d]"
    using True xs by (simp add: deque_append_def)
  ultimately show ?thesis using True xs inv by (auto simp: queue_inv_def)
next
  case False
  with inv have "deque_append n (pq_seen_order q) d = pq_seen_order q @ [d]"
    by (simp add: queue_inv_def deque_append_def)
  with False inv show ?thesis by (simp add: queue_inv_def)
qed

lemma queue_inv_enqueue [inv_intros]:
  assumes "0 < n" and inv: "queue_inv n q"
  shows "queue_inv n (snd (enqueue info q))"
proof (cases "pi_delivery_id info \<in> pq_seen q")
  case True
  with inv show ?thesis by (simp add: enqueue_def Let_def)
next
  case False
  have "distinct (deque_append n (pq_seen_order q) (pi_delivery_id info))"
    using inv False by (auto simp: deque_append_last_n queue_inv_def intro!: distinct_last_n)
  with inv False enqueue_seen [OF assms False] assms(1) show ?thesis
    by (auto simp: enqueue_def Let_def queue_inv_def deque_append_last_n)
qed

lemma fst_enqueue: "fst (enqueue info q) \<longleftrightarrow> pi_delivery_id info \<notin> pq_seen q"
  by (simp add: enqueue_def Let_def)

lemma pq_queue_enqueue:
  "pq_queue (snd (enqueue info q)) =
     (if fst (enqueue info q) then pq_queue q @ [info] else pq_queue q)"
  by (simp add: enqueue_def Let_def)

lemma pq_seen_order_enqueue:
  "pq_seen_order (snd (enqueue info q)) =
     (if fst (enqueue info q) then last_n (pq_maxlen q) (pq_seen_order q @ [pi_delivery_id info])
      else pq_seen_order q)"
  by (simp add: enqueue_def Let_def deque_append_last_n)

text \<open>The queue is a dedup window for every positive capacity.\<close>

lemma enqueue_dedup_window:
  assumes "0 < n"
  shows "dedup_window enqueue pi_delivery_id pq_seen_order pq_queue n (queue_inv n)"
proof (unfold_locales, goal_cases)
  case 1 show ?case by (rule assms)
next
  case (2 q info) then show ?case by (rule queue_inv_enqueue [OF assms])
next
  case (3 q info) then show ?case by (simp add: fst_enqueue queue_inv_def)
next
  case (4 q info) then show ?case by (simp add: pq_seen_order_enqueue queue_inv_def)
next
  case (5 q info) show ?case by (rule pq_queue_enqueue)
qed

interpretation deliveries:
  dedup_window enqueue pi_delivery_id pq_seen_order pq_queue DEDUP_CAPACITY "queue_inv DEDUP_CAPACITY"
  by (rule enqueue_dedup_window) (simp add: DEDUP_CAPACITY_def)

section \<open>The consumer\<close>

record acp_run_result =
  rr_session_id :: string
  rr_stop_reason :: string
  rr_workspace :: string

definition consumed_data :: "prompt_info \<Rightarrow> acp_run_result option \<Rightarrow> data" where
  "consumed_data info result =
     [(''id'', PStr (pi_id info)), (''delivery_id'', PStr (pi_delivery_id info)),
      (''repo'', PStr (pi_repo info)), (''event'', PStr (pi_event info)),
      (''action'', PStr (pi_action info)), (''label'', PStr (pi_label info)),
      (''ok'', PBool True)]
     @ (case result of None \<Rightarrow> []
        | Some r \<Rightarrow> [(''session_id'', PStr (rr_session_id r)),
                    (''stop_reason'', PStr (rr_stop_reason r))])"

definition failed_data :: "prompt_info \<Rightarrow> pyexc \<Rightarrow> data" where
  "failed_data info exc =
     [(''id'', PStr (pi_id info)), (''delivery_id'', PStr (pi_delivery_id info)),
      (''ok'', PBool False),
      (''error'', PStr (if exc_str exc = '''' then exc_name (exc_of exc) else exc_str exc))]"

text \<open>
  What the consumer records when the host has returned or raised: nothing for a cancellation,
  which the \<open>except Exception\<close> clause lets through.
\<close>

definition outcome_events :: "rat \<Rightarrow> prompt_info \<Rightarrow> acp_run_result option pyres \<Rightarrow> (string \<times> data) list" where
  "outcome_events now info r =
     (case r of
        Inr result \<Rightarrow> [(''prompt_consumed'', consumed_data (mark_consumed now info) result)]
      | Inl e \<Rightarrow> if is_exception e then [(''prompt_consumed'', failed_data info e)] else [])"

definition queue_get :: "prompt_queue \<Rightarrow> (prompt_info \<times> prompt_queue) option" where
  "queue_get q =
     (case pq_queue q of [] \<Rightarrow> None | info # rest \<Rightarrow> Some (info, q\<lparr>pq_queue := rest\<rparr>))"

definition task_done :: "prompt_queue \<Rightarrow> prompt_queue" where
  "task_done q = q\<lparr>pq_unfinished := pq_unfinished q - 1\<rparr>"

text \<open>
  One round of \<open>consume\<close> with an optional host.  \<open>None\<close>: the queue is empty and the
  consumer waits.  Otherwise whether the loop goes on (it ends when the exception was not an
  \<open>Exception\<close>), the queue and the store.
\<close>

type_synonym 'w host = "prompt_info \<Rightarrow> 'w event_store \<Rightarrow> acp_run_result pyres \<times> 'w event_store"

definition call_host :: "'w host option \<Rightarrow> prompt_info \<Rightarrow> 'w event_store \<Rightarrow>
    acp_run_result option pyres \<times> 'w event_store" where
  "call_host host info s =
     (case host of
        None \<Rightarrow> (Inr None, s)
      | Some run \<Rightarrow> (case run info s of (r, s1) \<Rightarrow> (rmap Some r, s1)))"

definition goes_on :: "'a pyres \<Rightarrow> bool" where
  "goes_on r = (case r of Inl e \<Rightarrow> is_exception e | Inr _ \<Rightarrow> True)"

definition consume_step :: "'w host option \<Rightarrow> rat \<Rightarrow> prompt_queue \<Rightarrow> 'w event_store \<Rightarrow>
    (bool \<times> prompt_queue \<times> 'w event_store) option" where
  "consume_step host now q s =
     (case queue_get q of
        None \<Rightarrow> None
      | Some (info, q1) \<Rightarrow>
          (case call_host host info s of
             (r, s1) \<Rightarrow> Some (goes_on r, task_done q1, emits (outcome_events now info r) s1)))"

text \<open>The consumer's task, for at most \<open>n\<close> envelopes: it waits on an empty queue.\<close>

fun consume :: "nat \<Rightarrow> 'w host option \<Rightarrow> (nat \<Rightarrow> rat) \<Rightarrow> prompt_queue \<Rightarrow> 'w event_store \<Rightarrow>
    bool \<times> prompt_queue \<times> 'w event_store" where
  "consume 0 host clk q s = (True, q, s)"
| "consume (Suc n) host clk q s =
     (case consume_step host (clk n) q s of
        None \<Rightarrow> (True, q, s)
      | Some (cont, q1, s1) \<Rightarrow>
          if cont then consume n host clk q1 s1 else (False, q1, s1))"

text \<open>The specification: envelopes handled one after the other, in order.\<close>

definition handle :: "'w host option \<Rightarrow> rat \<Rightarrow> prompt_info \<Rightarrow> 'w event_store \<Rightarrow> 'w event_store" where
  "handle host now info s =
     (case call_host host info s of (r, s1) \<Rightarrow> emits (outcome_events now info r) s1)"

fun handle_all :: "'w host option \<Rightarrow> (nat \<Rightarrow> rat) \<Rightarrow> prompt_info list \<Rightarrow> 'w event_store \<Rightarrow> 'w event_store" where
  "handle_all host clk [] s = s"
| "handle_all host clk (info # infos) s =
     handle_all host clk infos (handle host (clk (length infos)) info s)"

lemma consume_step_Cons:
  "pq_queue q = info # infos \<Longrightarrow>
   consume_step host now q s =
     Some (goes_on (fst (call_host host info s)), task_done (q\<lparr>pq_queue := infos\<rparr>),
           handle host now info s)"
  by (simp add: consume_step_def queue_get_def handle_def split: prod.split)

text \<open>
  A consumer whose host is never cancelled handles as many envelopes as the queue holds in
  the order they were queued, each once, and then waits: whatever the host returns or raises, the
  queue ends empty and its count of unfinished tasks falls by the number of envelopes.
\<close>

theorem consume_drains_fifo:
  assumes "\<And>info s. info \<in> set (pq_queue q) \<Longrightarrow> goes_on (fst (call_host host info s))"
  shows "consume (length (pq_queue q)) host clk q s =
    (True, q\<lparr>pq_queue := [], pq_unfinished := pq_unfinished q - length (pq_queue q)\<rparr>,
     handle_all host clk (pq_queue q) s)"
  using assms
proof (induction "pq_queue q" arbitrary: q s)
  case Nil
  then show ?case by (cases q) simp
next
  case (Cons info infos)
  from Cons.hyps(2) have q: "pq_queue q = info # infos" by simp
  let ?q1 = "task_done (q\<lparr>pq_queue := infos\<rparr>)"
  let ?s1 = "handle host (clk (length infos)) info s"
  have cont: "goes_on (fst (call_host host info s))" using Cons.prems q by simp
  have "consume (length (pq_queue ?q1)) host clk ?q1 ?s1 =
      (True, ?q1\<lparr>pq_queue := [], pq_unfinished := pq_unfinished ?q1 - length (pq_queue ?q1)\<rparr>,
       handle_all host clk (pq_queue ?q1) ?s1)"
    using Cons.prems q by (intro Cons.hyps(1)) (simp_all add: task_done_def)
  then show ?case
    using q cont by (simp add: consume_step_Cons task_done_def)
qed

text \<open>
  Handling one envelope ends in exactly one \<open>prompt_consumed\<close> event carrying the
  envelope's id and delivery id, after everything the host did to the store; its \<open>ok\<close> is true
  exactly when the host returned, a failure carries an error text, and a cancelled host
  leaves no event.
\<close>

theorem handle_records_outcome:
  "case call_host host info s of (r, s1) \<Rightarrow>
     if goes_on r then
       (\<exists>d. handle host now info s = emit ''prompt_consumed'' d s1 \<and>
            map_of d ''id'' = Some (PStr (pi_id info)) \<and>
            map_of d ''delivery_id'' = Some (PStr (pi_delivery_id info)) \<and>
            map_of d ''ok'' = Some (PBool (is_ok r)) \<and>
            (is_ok r \<or> (\<exists>m. map_of d ''error'' = Some (PStr m))))
     else handle host now info s = s1"
  by (cases "call_host host info s"; cases "fst (call_host host info s)")
     (auto simp: handle_def outcome_events_def goes_on_def consumed_data_def failed_data_def
       mark_consumed_def split: option.splits)

theorem consume_drains_fifo_witness:
  "pq_queue (fst (snd (consume 2 None (\<lambda>_. 5)
      (snd (enqueue (PromptInfo ''b'' 2 ''d2'' '''' '''' '''' '''' PNone)
        (snd (enqueue (PromptInfo ''a'' 1 ''d1'' '''' '''' '''' '''' PNone) (PromptQueue 3)))))
      (EventStore 9 None 7 ''0a1b2c3d'' (\<lambda>_. 0) ())))) = []"
proof -
  let ?q = "snd (enqueue (PromptInfo ''b'' 2 ''d2'' '''' '''' '''' '''' PNone)
        (snd (enqueue (PromptInfo ''a'' 1 ''d1'' '''' '''' '''' '''' PNone) (PromptQueue 3))))"
  have "length (pq_queue ?q) = 2"
    by (simp add: enqueue_def PromptQueue_def PromptInfo_def Let_def deque_append_def)
  with consume_drains_fifo [of ?q None "\<lambda>_. 5" "EventStore 9 None 7 ''0a1b2c3d'' (\<lambda>_. 0) ()"]
  show ?thesis by (simp add: goes_on_def call_host_def)
qed

end
