(* ===== verification/Prompt_Builder.thy ===== *)
theory Prompt_Builder
  imports Filters Prompt_Queue
begin

text \<open>
  \<open>prompt_builder.py\<close>: the prompt sent to the agent for one envelope.  The prose of the module
  is kept word for word; \<open>str.format\<close> is modelled for the replacement fields the templates
  use (a bare name in braces).  The lemmas show where each part of the envelope ends up in
  the prompt, when the issue body is the prompt, and how this side and the dispatch gate of
  \<open>filters.py\<close> agree on direct-body dispatch.
\<close>

definition em_dash :: string where
  "em_dash = map char_of [226 :: nat, 128, 148]"

definition newline :: string where
  "newline = [char_of (10 :: nat)]"

section \<open>Labels and directions\<close>

definition IMPLEMENTATION_LABELS :: "string list" where
  "IMPLEMENTATION_LABELS = [''implementation:ready'', ''implementation:complete'']"

definition issue_of :: "prompt_info \<Rightarrow> (string \<times> pyval) list pyres" where
  "issue_of info =
     rmap (\<lambda>issue. case dict_items issue of Some kvs \<Rightarrow> kvs | None \<Rightarrow> [])
       (py_get (pi_payload info) ''issue'' PNone)"

definition issue_labels :: "prompt_info \<Rightarrow> string list pyres" where
  "issue_labels info =
     rbind (issue_of info) (\<lambda>issue.
     rmap (\<lambda>lbls. sort (remdups (filter (\<lambda>n. n \<noteq> '''') (label_names lbls))))
       (py_iter (py_or (dict_get issue ''labels'' PNone) (PList []))))"

definition is_direct_body :: "prompt_info \<Rightarrow> bool pyres" where
  "is_direct_body info =
     (if py_lower (py_strip (pi_label info)) = DIRECT_BODY_LABEL then Inr True
      else rmap (\<lambda>ls. DIRECT_BODY_LABEL \<in> set ls) (issue_labels info))"

definition UNMATCHED_DIRECTION :: string where
  "UNMATCHED_DIRECTION =
     ''No workflow is named by the triggering label. Post a status comment on the issue'' @
     '' stating that no matching workflow was found, include the webhook event details '' @
     ''for the run log, and end your turn without taking further action.''"

definition unmatched_direction :: "string \<Rightarrow> string" where
  "unmatched_direction label =
     UNMATCHED_DIRECTION @
     (if label \<noteq> '''' then '' (triggering label: '' @ label @ '')'' else '''')"

definition ORCHESTRATION_DIRECTION :: string where
  "ORCHESTRATION_DIRECTION =
     ''This is an orchestration lifecycle workflow: the triggering label names the '' @
     ''workflow step to run from the agent-instructions repo within the tracked plan's '' @
     ''lifecycle '' @ em_dash @ '' epic creation for the next unimplemented plan item, epic '' @
     ''implementation, pull-request review and merge, progress report and debrief, or '' @
     ''completion of the current stage. When the issue body names a workflow to '' @
     ''dispatch, run that named workflow with the arguments given in the body. Direct '' @
     ''the named workflow, and let the tracking state you observe decide the concrete '' @
     ''next action.''"

definition HIERARCHY_DIRECTION :: string where
  "HIERARCHY_DIRECTION =
     ''This is a gh-issue-tracking hierarchy workflow: the triggering label names a '' @
     ''step in building or consuming the repository's issue-tracking hierarchy (a plan '' @
     ''issue with epic/story/task sub-issues). Direct the corresponding named workflow '' @
     ''from the agent-instructions repo: when the hierarchy was just initialized or '' @
     ''extended, enumerate its tracked issues and continue with the implementation path'' @
     '' for the next unimplemented item '' @ em_dash @ '' after confirming from live tracking state '' @
     ''what actually exists and what is already done.''"

definition IMPLEMENTATION_DIRECTION :: string where
  "IMPLEMENTATION_DIRECTION =
     ''This is the implementation path for a tracked work item: the triggering label '' @
     ''marks the issue ready for implementation, or records its implementation '' @
     ''complete. Direct the implementation workflow from the agent-instructions repo '' @
     ''for this issue: implement the item (branch, code, tests, pull request) when it '' @
     ''is ready, or verify its completion from live state (merged pull request, green '' @
     ''checks) and record that outcome on the issue.''"

definition direction_for :: "string \<Rightarrow> string" where
  "direction_for label0 =
     (let label = py_lower (py_strip label0) in
      if py_startswith label ''gh-issue-tracking:'' then HIERARCHY_DIRECTION
      else if py_startswith label ''orchestration:'' then ORCHESTRATION_DIRECTION
      else if label \<in> set IMPLEMENTATION_LABELS then IMPLEMENTATION_DIRECTION
      else unmatched_direction label)"

section \<open>Templates\<close>

text \<open>
  \<open>template.format(...)\<close>: a field name in braces is replaced by its value, which is not looked
  at again.
\<close>

function py_format :: "(string \<Rightarrow> string) \<Rightarrow> string \<Rightarrow> string" where
  "py_format val [] = []"
| "py_format val (c # cs) =
     (if c = CHR ''{''
      then val (takeWhile (\<lambda>x. x \<noteq> CHR ''}'') cs) @
           py_format val (drop 1 (dropWhile (\<lambda>x. x \<noteq> CHR ''}'') cs))
      else c # py_format val cs)"
  by pat_completeness auto
termination
  by (relation "measure (length \<circ> snd)")
     (auto simp: less_Suc_eq_le intro: le_trans [OF diff_le_self length_dropWhile_le])

definition WORKFLOW_LINES :: "string list" where
  "WORKFLOW_LINES = [
     ''You are the orchestration agent for the GitHub repository {repo}.'',
     [],
     ''An accepted GitHub webhook delivery triggered this run:'',
     ''- issue: #{number} {title}'',
     ''- triggering label: {label}'',
     ''- labels currently on the issue: {issue_labels}'',
     ''- delivery id: {delivery_id}'',
     [],
     ''Full webhook payload (EVENT_DATA, JSON):'',
     [],
     ''```json'',
     ''{event_data}'',
     ''```'',
     [],
     ''## Workflow'',
     [],
     ''{direction}'',
     [],
     ''Workflow definitions live in the external agent-instructions repo '' @ em_dash @ '' fetch'',
     ''their current content at runtime rather than assuming; the label marks the'',
     ''entry point, not a fixed sequence.'',
     [],
     ''## Deciding progression '' @ em_dash @ '' from live tracking state'',
     [],
     ''Decide what to do next from the repository's live tracking state, never'',
     ''from a hardcoded label sequence: before acting, use the `gh` CLI to inspect'',
     ''the state that matters (the issue's current labels, its sub-issues, sibling'',
     ''issues and their labels, open pull requests), choose the next action from'',
     ''what you actually find, and re-check after each action. Labels on issues'',
     ''are state to read, not a script to replay: record outcomes by publishing'',
     ''state (comments, labels, pull requests), and let later runs '' @ em_dash @ '' deciding'',
     ''again from tracking state '' @ em_dash @ '' carry the workflow forward.'',
     [],
     ''## Choosing the path '' @ em_dash @ '' new app vs existing feature'',
     [],
     ''Discover from the tracking state which situation applies before planning'',
     ''work; do not assume it from this prompt:'',
     [],
     ''- New application (no application plan or tracking hierarchy exists yet):'',
     ''  plan the app (the swarm-plan wizard '' @ em_dash @ '' autonomous variant for unattended'',
     ''  runs), initialize its issue-tracking hierarchy (gh-issue-tracking-init),'',
     ''  then run the swarm to implement it.'',
     ''- New feature in an existing application (a tracking hierarchy already'',
     ''  exists): plan against the existing tracking and file the work as new'',
     ''  Epic/Story/Task issues under the existing board and label taxonomy, then'',
     ''  run the swarm.'',
     [],
     ''## Publish & verify'',
     [],
     ''Publish results the way the in-repo workflows already specify: work on a'',
     ''non-default branch, open or update a pull request, and post the outcome to'',
     ''the issue (a status comment, plus any labels your workflow conventions use'',
     ''to record state). Never push to the default branch. Before declaring the'',
     ''work finished, verify it is reachable on the remote (branch pushed, pull'',
     ''request open). If the work fails or cannot be published, leave the issue'',
     ''open and post a comment describing the failure and the next step.'',
     [],
     ''Finish your turn with a short summary of what you found, decided, did, and'',
     ''published.'']"

definition WORKFLOW_TEMPLATE :: string where
  "WORKFLOW_TEMPLATE = py_join newline WORKFLOW_LINES"

definition EMPTY_BODY_SENTINEL :: string where
  "EMPTY_BODY_SENTINEL =
     ''Direct-body dispatch accepted for {repo}: the labeled issue #{number} carries an'' @
     '' empty body, so there is no prompt content to run. Post a status comment on the '' @
     ''issue explaining that the direct-body dispatch was empty, then end your turn.''"

definition workflow_fields ::
  "prompt_info \<Rightarrow> (string \<times> pyval) list \<Rightarrow> string list \<Rightarrow> string \<Rightarrow> (string \<times> string) list" where
  "workflow_fields info issue labels event_data =
     [(''repo'', pi_repo info),
      (''number'', py_str (dict_get issue ''number'' (PStr ''(unknown)''))),
      (''title'', py_str (py_or (dict_get issue ''title'' PNone) (PStr ''(unknown)''))),
      (''label'', pi_label info),
      (''issue_labels'', (if labels = [] then ''(none)'' else py_join '', '' labels)),
      (''delivery_id'', pi_delivery_id info),
      (''event_data'', event_data),
      (''direction'', direction_for (pi_label info))]"

definition field_of :: "(string \<times> string) list \<Rightarrow> string \<Rightarrow> string" where
  "field_of kvs name = (case map_of kvs name of Some v \<Rightarrow> v | None \<Rightarrow> '''')"

definition workflow_prompt :: "prompt_info \<Rightarrow> string pyres" where
  "workflow_prompt info =
     rbind (issue_of info) (\<lambda>issue.
     rbind (issue_labels info) (\<lambda>labels.
     rbind (json_dumps (json_indented True) 0 (pi_payload info)) (\<lambda>event_data.
     Inr (py_format (field_of (workflow_fields info issue labels event_data)) WORKFLOW_TEMPLATE))))"

definition empty_body_prompt :: "prompt_info \<Rightarrow> (string \<times> pyval) list \<Rightarrow> string" where
  "empty_body_prompt info issue =
     py_format (field_of
         [(''repo'', pi_repo info),
          (''number'', py_str (dict_get issue ''number'' (PStr ''(unknown)'')))])
       EMPTY_BODY_SENTINEL"

definition build_orchestration_prompt :: "prompt_info \<Rightarrow> string pyres" where
  "build_orchestration_prompt info =
     rbind (is_direct_body info) (\<lambda>direct.
     if direct then
       rmap (\<lambda>issue.
           case dict_get issue ''body'' PNone of
             PStr body \<Rightarrow> if py_strip body \<noteq> '''' then body else empty_body_prompt info issue
           | _ \<Rightarrow> empty_body_prompt info issue)
         (issue_of info)
     else workflow_prompt info)"

section \<open>Where the fields go\<close>

text \<open>
  The replacement fields of a template, each with the literal text before it, and the text after
  the last.
\<close>

lemma dropWhile_Cons_shorter: "dropWhile P t = c # cs \<Longrightarrow> length (drop 1 (dropWhile Q cs)) < length t"
proof -
  assume "dropWhile P t = c # cs"
  then have "Suc (length cs) \<le> length t" by (metis length_Cons length_dropWhile_le)
  moreover have "length (drop 1 (dropWhile Q cs)) \<le> length cs"
    by (simp add: le_trans [OF diff_le_self length_dropWhile_le])
  ultimately show ?thesis by simp
qed

function template_parts :: "string \<Rightarrow> (string \<times> string) list \<times> string" where
  "template_parts t =
     (case dropWhile (\<lambda>x. x \<noteq> CHR ''{'') t of
        [] \<Rightarrow> ([], t)
      | c # cs \<Rightarrow>
          (case template_parts (drop 1 (dropWhile (\<lambda>x. x \<noteq> CHR ''}'') cs)) of
             (ps, rest) \<Rightarrow>
               ((takeWhile (\<lambda>x. x \<noteq> CHR ''{'') t, takeWhile (\<lambda>x. x \<noteq> CHR ''}'') cs) # ps, rest)))"
  by pat_completeness auto

termination
  by (relation "measure length") (auto dest: dropWhile_Cons_shorter [where Q = "\<lambda>x. x \<noteq> CHR ''}''"])

declare template_parts.simps [simp del]

lemma py_format_lit:
  "py_format val t =
     takeWhile (\<lambda>x. x \<noteq> CHR ''{'') t @ py_format val (dropWhile (\<lambda>x. x \<noteq> CHR ''{'') t)"
  by (induction t) auto

lemma py_format_parts:
  "py_format val t =
     (case template_parts t of (ps, rest) \<Rightarrow> concat (map (\<lambda>(lit, f). lit @ val f) ps) @ rest)"
proof (induction t rule: template_parts.induct)
  case (1 t)
  show ?case
  proof (cases "dropWhile (\<lambda>x. x \<noteq> CHR ''{'') t")
    case Nil
    then have "takeWhile (\<lambda>x. x \<noteq> CHR ''{'') t = t"
      by (metis append_Nil2 takeWhile_dropWhile_id)
    with Nil have "py_format val t = t" by (subst py_format_lit) (simp del: dropWhile_eq_Nil_conv)
    with Nil show ?thesis by (subst template_parts.simps) (simp del: dropWhile_eq_Nil_conv)
  next
    case (Cons c cs)
    then have "c = CHR ''{''" using hd_dropWhile [of "\<lambda>x. x \<noteq> CHR ''{''" t] by simp
    with Cons 1 [OF Cons] show ?thesis
      by (simp add: template_parts.simps [of t] py_format_lit [of val t] split: prod.splits)
  qed
qed

text \<open>The names alone, line by line.\<close>

function field_names :: "string \<Rightarrow> string list" where
  "field_names [] = []"
| "field_names (c # cs) =
     (if c = CHR ''{''
      then takeWhile (\<lambda>x. x \<noteq> CHR ''}'') cs # field_names (drop 1 (dropWhile (\<lambda>x. x \<noteq> CHR ''}'') cs))
      else field_names cs)"
  by pat_completeness auto
termination
  by (relation "measure length")
     (auto simp: less_Suc_eq_le intro: le_trans [OF diff_le_self length_dropWhile_le])

function fields_closed :: "string \<Rightarrow> bool" where
  "fields_closed [] = True"
| "fields_closed (c # cs) =
     (if c = CHR ''{''
      then CHR ''}'' \<in> set cs \<and> fields_closed (drop 1 (dropWhile (\<lambda>x. x \<noteq> CHR ''}'') cs))
      else fields_closed cs)"
  by pat_completeness auto
termination
  by (relation "measure length")
     (auto simp: less_Suc_eq_le intro: le_trans [OF diff_le_self length_dropWhile_le])

lemma field_names_lit: "field_names t = field_names (dropWhile (\<lambda>x. x \<noteq> CHR ''{'') t)"
  by (induction t) auto

lemma template_parts_names: "map snd (fst (template_parts t)) = field_names t"
proof (induction t rule: template_parts.induct)
  case (1 t)
  show ?case
  proof (cases "dropWhile (\<lambda>x. x \<noteq> CHR ''{'') t")
    case Nil
    then show ?thesis
      by (subst template_parts.simps, subst field_names_lit) (simp del: dropWhile_eq_Nil_conv)
  next
    case (Cons c cs)
    then have "c = CHR ''{''" using hd_dropWhile [of "\<lambda>x. x \<noteq> CHR ''{''" t] by simp
    with Cons 1 [OF Cons] show ?thesis
      by (simp add: template_parts.simps [of t] field_names_lit [of t] case_prod_beta)
  qed
qed

lemma dropWhile_append_mem:
  "c \<in> set xs \<Longrightarrow> takeWhile (\<lambda>x. x \<noteq> c) (xs @ ys) = takeWhile (\<lambda>x. x \<noteq> c) xs \<and>
     drop (Suc 0) (dropWhile (\<lambda>x. x \<noteq> c) (xs @ ys)) =
       drop (Suc 0) (dropWhile (\<lambda>x. x \<noteq> c) xs) @ ys"
  by (induction xs) auto

lemma field_names_append: "fields_closed l \<Longrightarrow> field_names (l @ r) = field_names l @ field_names r"
  by (induction l rule: fields_closed.induct) (auto simp: dropWhile_append_mem split: if_splits)

lemma newline_fields: "fields_closed newline" "field_names newline = []"
  by code_simp+

lemma field_names_join:
  "list_all fields_closed ls \<Longrightarrow> field_names (py_join newline ls) = concat (map field_names ls)"
proof (induction newline ls rule: py_join.induct)
  case (3 x y zs)
  then show ?case by (simp add: field_names_append newline_fields)
qed simp_all

lemma workflow_lines:
  "list_all fields_closed WORKFLOW_LINES"
  "concat (map field_names WORKFLOW_LINES) =
     [''repo'', ''number'', ''title'', ''label'', ''issue_labels'', ''delivery_id'', ''event_data'',
      ''direction'']"
  by code_simp+

lemma workflow_template_fields:
  "map snd (fst (template_parts WORKFLOW_TEMPLATE)) =
     [''repo'', ''number'', ''title'', ''label'', ''issue_labels'', ''delivery_id'', ''event_data'',
      ''direction'']"
  by (simp add: template_parts_names WORKFLOW_TEMPLATE_def field_names_join workflow_lines)

lemma workflow_prompt_Inr:
  "workflow_prompt info = Inr p \<longleftrightarrow>
     (\<exists>issue labels event_data.
        issue_of info = Inr issue \<and> issue_labels info = Inr labels \<and>
        json_dumps (json_indented True) 0 (pi_payload info) = Inr event_data \<and>
        p = py_format (field_of (workflow_fields info issue labels event_data)) WORKFLOW_TEMPLATE)"
  by (auto simp: workflow_prompt_def rbind_eq_Inr)

lemma workflow_field_values:
  "map (field_of (workflow_fields info issue labels event_data))
     (map snd (fst (template_parts WORKFLOW_TEMPLATE))) =
   map snd (workflow_fields info issue labels event_data)"
  unfolding workflow_template_fields by (simp add: field_of_def workflow_fields_def)

text \<open>
  A workflow prompt is the fixed prose with the eight values of the envelope in it, each
  exactly once, complete and in the order repository, issue number, title, triggering label,
  current labels, delivery id, payload JSON, direction: the prose does not depend on the
  envelope and no text of a payload (braces included) is expanded again.
\<close>

theorem workflow_prompt_layout:
  "\<exists>lits rest. length lits = 8 \<and> (\<forall>info p. workflow_prompt info = Inr p \<longrightarrow>
     (\<exists>issue labels event_data.
        issue_of info = Inr issue \<and> issue_labels info = Inr labels \<and>
        json_dumps (json_indented True) 0 (pi_payload info) = Inr event_data \<and>
        p = concat (map2 (@) lits (map snd (workflow_fields info issue labels event_data))) @ rest))"
proof -
  obtain ps rest where parts: "template_parts WORKFLOW_TEMPLATE = (ps, rest)"
    by (cases "template_parts WORKFLOW_TEMPLATE")
  have "length (map snd ps) = 8" using arg_cong [OF workflow_template_fields, of length] parts by simp
  moreover have "py_format (field_of (workflow_fields info issue labels event_data)) WORKFLOW_TEMPLATE =
      concat (map2 (@) (map fst ps) (map snd (workflow_fields info issue labels event_data))) @ rest"
    for info issue labels event_data
  proof -
    let ?val = "field_of (workflow_fields info issue labels event_data)"
    have "map (\<lambda>(lit, f). lit @ ?val f) ps = map2 (@) (map fst ps) (map ?val (map snd ps))"
      by (induction ps) auto
    then show ?thesis
      using workflow_field_values [of info issue labels event_data] parts
      by (simp add: py_format_parts)
  qed
  ultimately show ?thesis
    by (intro exI [of _ "map fst ps"] exI [of _ rest]) (auto simp: workflow_prompt_Inr)
qed

section \<open>Agreement with the dispatch gate\<close>

text \<open>
  C36: the gate and the builder agree on the label classes: exactly the labels the gate calls
  workflow labels are given one of the three workflow directions, and only a label that the gate
  would have refused gets the fallback.
\<close>

theorem direction_matches_gate:
  "direction_for label \<in>
     (if is_workflow_label label
      then {HIERARCHY_DIRECTION, ORCHESTRATION_DIRECTION, IMPLEMENTATION_DIRECTION}
      else {unmatched_direction (py_lower (py_strip label))})"
  by (auto simp: direction_for_def is_workflow_label_def LABEL_PREFIXES_def LABEL_EXACT_def
      IMPLEMENTATION_LABELS_def Let_def)

lemma is_dict_iff: "is_dict v \<longleftrightarrow> (\<exists>kvs. v = PDict kvs)"
  by (cases v) (auto simp: dict_items_def)

lemma issue_of_gate:
  assumes "nested_get (pi_payload info) ''issue'' ''labels'' = Inr ls"
  shows "\<exists>issue. issue_of info = Inr issue \<and> dict_get issue ''labels'' PNone = ls"
proof -
  from assms obtain v where v: "py_get (pi_payload info) ''issue'' PNone = Inr v"
      and g: "py_get (py_or v (PDict [])) ''labels'' PNone = Inr ls"
    by (auto simp: nested_get_def rbind_eq_Inr)
  from g show ?thesis
    using v by (cases v) (auto simp: issue_of_def dict_items_def py_or_def py_get_def split: if_splits)
qed

lemma issue_labels_gate:
  assumes "issue_label_names (pi_payload info) = Inr names"
  shows "\<exists>labels. issue_labels info = Inr labels \<and> set labels = set names - {''''}"
proof -
  from assms obtain ls lbls where ls: "nested_get (pi_payload info) ''issue'' ''labels'' = Inr ls"
      and it: "py_iter (py_or ls (PList [])) = Inr lbls" and names: "names = label_names lbls"
    by (auto simp: issue_label_names_def rbind_eq_Inr)
  from issue_of_gate [OF ls] it names show ?thesis
    by (auto simp: issue_labels_def)
qed

lemma is_direct_body_gate:
  assumes "issue_label_names (pi_payload info) = Inr names" and "py_strip (pi_label info) = pi_label info"
  shows "is_direct_body info = Inr (carries_direct_body (pi_label info) names)"
proof -
  obtain labels where l: "issue_labels info = Inr labels" "set labels = set names - {''''}"
    using issue_labels_gate [OF assms(1)] by blast
  have "DIRECT_BODY_LABEL \<noteq> ''''" by (simp add: DIRECT_BODY_LABEL_def)
  then have "DIRECT_BODY_LABEL \<in> set labels \<longleftrightarrow> DIRECT_BODY_LABEL \<in> set names"
    by (simp add: l(2))
  then show ?thesis
    by (simp add: is_direct_body_def carries_direct_body_def assms(2) l(1))
qed

text \<open>
  An issue body becomes the agent's prompt only for an allowlisted sender.  For an envelope
  built from a delivery that passed the gate, with the triggering label as the payload has it and
  free of surrounding whitespace, the builder treats it as direct-body only if the sender's login
  is on \<open>DIRECT_BODY_ALLOWED_SENDERS\<close>; every other prompt is the workflow template.
\<close>

theorem direct_body_needs_allowlist:
  assumes "should_dispatch env event (pi_payload info) = Inr (True, reason)"
    and "label_of (pi_payload info) = Inr (pi_label info)"
    and "py_strip (pi_label info) = pi_label info"
  shows "\<exists>direct. is_direct_body info = Inr direct \<and>
    (if direct
     then \<exists>sender. sender_of (pi_payload info) = Inr sender \<and>
            py_lower sender \<in> direct_body_allowed_senders env
     else build_orchestration_prompt info = workflow_prompt info)"
proof -
  from assms(1,2) obtain sender names where
      s: "sender_of (pi_payload info) = Inr sender" and n: "issue_label_names (pi_payload info) = Inr names"
      and allow: "carries_direct_body (pi_label info) names \<longrightarrow>
        py_lower sender \<in> direct_body_allowed_senders env"
    unfolding should_dispatch_allowed_iff by auto
  show ?thesis
    using is_direct_body_gate [OF n assms(3)] s allow
    by (cases "carries_direct_body (pi_label info) names") (auto simp: build_orchestration_prompt_def)
qed

text \<open>
  C30: without that restriction on whitespace the two modules disagree.  The gate compares the
  lowered triggering label, the builder the stripped and lowered one.  For a delivery by a login
  that is not on the allowlist, whose triggering label is the direct-body label up to surrounding
  whitespace and case, on an issue that does not list that label and with everything else the gate
  asks for: the gate refuses it exactly when there is no surrounding whitespace, while the builder
  always treats it as direct-body, and a non-blank issue body is the prompt.
\<close>

theorem padded_label_bypasses_allowlist:
  assumes "py_lower event = ''issues''" and "action_of (pi_payload info) = Inr ''labeled''"
    and "sender_of (pi_payload info) = Inr sender" and "\<not> is_bot_actor sender"
    and "label_of (pi_payload info) = Inr (pi_label info)"
    and "issue_label_names (pi_payload info) = Inr names" and "DIRECT_BODY_LABEL \<notin> set names"
    and "py_lower (py_strip (pi_label info)) = DIRECT_BODY_LABEL"
    and "py_lower sender \<notin> direct_body_allowed_senders env"
  shows "(should_dispatch env event (pi_payload info) = Inr (True, ''allowed'') \<longleftrightarrow>
      py_lower (pi_label info) \<noteq> DIRECT_BODY_LABEL) \<and>
    is_direct_body info = Inr True \<and>
    (\<forall>issue body. issue_of info = Inr issue \<and> dict_get issue ''body'' PNone = PStr body \<and> py_strip body \<noteq> '''' \<longrightarrow>
       build_orchestration_prompt info = Inr body)"
proof -
  have "py_startswith DIRECT_BODY_LABEL ''gh-issue-tracking:''" by code_simp
  then have "is_workflow_label (pi_label info)"
    using assms(8) by (simp add: is_workflow_label_def LABEL_PREFIXES_def)
  then have gate: "should_dispatch env event (pi_payload info) = Inr (True, ''allowed'') \<longleftrightarrow>
      py_lower (pi_label info) \<noteq> DIRECT_BODY_LABEL"
    unfolding should_dispatch_allowed_iff using assms by (auto simp: carries_direct_body_def)
  have direct: "is_direct_body info = Inr True" using assms(8) by (simp add: is_direct_body_def)
  with gate show ?thesis by (auto simp: build_orchestration_prompt_def)
qed

text \<open>A delivery that gets through, and the same without the blank.\<close>

definition labelled_delivery :: "string \<Rightarrow> pyval" where
  "labelled_delivery label = PDict
     [(''action'', PStr ''labeled''), (''label'', PDict [(''name'', PStr label)]),
      (''issue'', PDict [(''labels'', PList []), (''body'', PStr ''any text'')]),
      (''sender'', PDict [(''login'', PStr ''mallory'')])]"

definition labelled_info :: "string \<Rightarrow> prompt_info" where
  "labelled_info label = PromptInfo ''u'' 0 ''d'' ''o/r'' ''issues'' ''labeled'' label (labelled_delivery label)"

theorem padded_label_bypasses_allowlist_witness:
  "should_dispatch (\<lambda>_. None) ''issues'' (labelled_delivery ''gh-issue-tracking:direct-body '') = Inr (True, ''allowed'') \<and>
   should_dispatch (\<lambda>_. None) ''issues'' (labelled_delivery ''gh-issue-tracking:direct-body'') \<noteq> Inr (True, ''allowed'') \<and>
   build_orchestration_prompt (labelled_info ''gh-issue-tracking:direct-body '') = Inr ''any text''"
proof -
  have fields: "pi_payload (labelled_info l) = labelled_delivery l" "pi_label (labelled_info l) = l" for l
    by (simp_all add: labelled_info_def PromptInfo_def)
  have parts: "py_lower ''issues'' = ''issues''" "\<not> is_bot_actor ''mallory''"
    "py_lower ''mallory'' \<notin> direct_body_allowed_senders (\<lambda>_. None)"
    "py_lower (py_strip ''gh-issue-tracking:direct-body '') = DIRECT_BODY_LABEL"
    "py_lower (py_strip ''gh-issue-tracking:direct-body'') = DIRECT_BODY_LABEL"
    "py_lower ''gh-issue-tracking:direct-body'' = DIRECT_BODY_LABEL"
    "py_lower ''gh-issue-tracking:direct-body '' \<noteq> DIRECT_BODY_LABEL" "py_strip ''any text'' \<noteq> ''''"
    "py_lower ''labeled'' = ''labeled''"
    by code_simp+
  have read: "action_of (labelled_delivery l) = Inr ''labeled''" "sender_of (labelled_delivery l) = Inr ''mallory''"
    "issue_label_names (labelled_delivery l) = Inr []" for l
    by (simp_all add: labelled_delivery_def action_of_def sender_of_def issue_label_names_def nested_get_def
        label_names_def py_or_def dict_get_def str_or_empty_def parts)
  have label: "label_of (labelled_delivery l) = Inr l" if "l \<noteq> ''''" for l
    using that by (simp add: labelled_delivery_def label_of_def nested_get_def py_or_def dict_get_def str_or_empty_def)
  have issue: "issue_of (labelled_info l) = Inr [(''labels'', PList []), (''body'', PStr ''any text'')]" for l
    by (simp add: issue_of_def fields labelled_delivery_def dict_items_def dict_get_def)
  note both = padded_label_bypasses_allowlist [of "''issues''" "labelled_info l" "''mallory''" "[]" "\<lambda>_. None" for l,
      unfolded fields, OF parts(1) read(1) read(2) parts(2) label read(3)]
  show ?thesis
    using both [of "''gh-issue-tracking:direct-body ''"] both [of "''gh-issue-tracking:direct-body''"] parts issue
    by (auto simp: dict_get_def)
qed

section \<open>Instances\<close>

definition plain_delivery :: pyval where
  "plain_delivery = PDict
     [(''action'', PStr ''labeled''),
      (''label'', PDict [(''name'', PStr ''gh-issue-tracking:direct-body'')]),
      (''issue'', PDict [(''number'', PInt 7), (''labels'', PList []), (''body'', PStr ''any text'')]),
      (''sender'', PDict [(''login'', PStr ''Octocat'')])]"

definition plain_info :: prompt_info where
  "plain_info = PromptInfo ''u'' 0 ''d'' ''o/r'' ''issues'' ''labeled''
     ''gh-issue-tracking:direct-body'' plain_delivery"

theorem direct_body_needs_allowlist_witness:
  "\<exists>direct. is_direct_body plain_info = Inr direct \<and> direct \<and>
     (\<exists>sender. sender_of plain_delivery = Inr sender \<and>
        py_lower sender \<in> direct_body_allowed_senders (\<lambda>_. Some ''octocat,hubot''))"
proof -
  let ?env = "\<lambda>_ :: string. Some ''octocat,hubot''"
  have direct: "is_direct_body plain_info = Inr True" by code_simp
  have lab: "label_of plain_delivery = Inr ''gh-issue-tracking:direct-body''"
    and snd: "sender_of plain_delivery = Inr ''Octocat''" by code_simp+
  have "action_of plain_delivery = Inr ''labeled''" "issue_label_names plain_delivery = Inr []"
    "\<not> is_bot_actor ''Octocat''" "is_workflow_label ''gh-issue-tracking:direct-body''"
    "py_lower ''issues'' = ''issues''"
    "py_lower ''Octocat'' \<in> direct_body_allowed_senders (\<lambda>_. Some ''octocat,hubot'')"
    by code_simp+
  with lab snd have gate: "should_dispatch ?env ''issues'' plain_delivery = Inr (True, ''allowed'')"
    unfolding should_dispatch_allowed_iff by simp
  have strip: "py_strip ''gh-issue-tracking:direct-body'' = ''gh-issue-tracking:direct-body''" by code_simp
  have pi: "pi_payload plain_info = plain_delivery" "pi_label plain_info = ''gh-issue-tracking:direct-body''"
    by (simp_all add: plain_info_def PromptInfo_def)
  from direct_body_needs_allowlist [of ?env "''issues''" plain_info "''allowed''"] gate lab strip pi direct
  show ?thesis by auto
qed

theorem workflow_prompt_layout_witness:
  "\<exists>lits rest p. length lits = 8 \<and> workflow_prompt plain_info = Inr p \<and>
     (\<exists>labels event_data. p = concat (map2 (@) lits
        [''o/r'', ''7'', ''(unknown)'', ''gh-issue-tracking:direct-body'', labels, ''d'', event_data,
         direction_for ''gh-issue-tracking:direct-body'']) @ rest)"
proof -
  have issue: "issue_of plain_info =
      Inr [(''number'', PInt 7), (''labels'', PList []), (''body'', PStr ''any text'')]"
    and labels: "issue_labels plain_info = Inr []" and num: "py_str (PInt 7) = ''7''"
    by code_simp+
  have "is_ok (json_dumps (json_indented True) 0 (pi_payload plain_info))"
    by (subst json_dumps_ok_iff) (simp add: plain_info_def PromptInfo_def plain_delivery_def)
  then obtain p where p: "workflow_prompt plain_info = Inr p"
    using issue labels by (auto simp: workflow_prompt_Inr is_ok_iff)
  obtain lits rest where lits: "length lits = 8" and
      all: "\<forall>info p. workflow_prompt info = Inr p \<longrightarrow>
        (\<exists>issue labels event_data. issue_of info = Inr issue \<and> issue_labels info = Inr labels \<and>
           json_dumps (json_indented True) 0 (pi_payload info) = Inr event_data \<and>
           p = concat (map2 (@) lits (map snd (workflow_fields info issue labels event_data))) @ rest)"
    using workflow_prompt_layout by blast
  have fields: "pi_repo plain_info = ''o/r''" "pi_label plain_info = ''gh-issue-tracking:direct-body''"
    "pi_delivery_id plain_info = ''d''" by (simp_all add: plain_info_def PromptInfo_def)
  from all [rule_format, OF p] issue labels num
  have "\<exists>labels event_data. p = concat (map2 (@) lits
        [''o/r'', ''7'', ''(unknown)'', ''gh-issue-tracking:direct-body'', labels, ''d'', event_data,
         direction_for ''gh-issue-tracking:direct-body'']) @ rest"
    unfolding workflow_fields_def fields by (auto simp: dict_get_def py_or_def)
  with lits p show ?thesis by blast
qed

end
