(* ===== verification/Config.thy ===== *)
theory Config
  imports Filters
begin

text \<open>
  \<open>config.py\<close>: the settings of the service and how they are read from the environment.
  The theory has the parts of Python's \<open>int()\<close> and \<open>float()\<close> that a setting goes through,
  with the floating-point values that matter to the code (a finite number, the infinities and the
  NaN), the record of settings, and \<open>from_env\<close> with its checks in the order of the source.
  Numerals are modelled on ASCII text.  Regular expressions supplied by the operator are
  compiled by an engine that is a parameter: it gives the text of \<open>re.error\<close> or a matcher.
\<close>

section \<open>Numbers\<close>

datatype pyfloat = FFin rat | FInf bool | FNan

text \<open>
  \<open><\<close> and \<open><=\<close> as Python compares floats: every comparison with the NaN is false.
\<close>

instantiation pyfloat :: ord
begin

fun less_eq_pyfloat :: "pyfloat \<Rightarrow> pyfloat \<Rightarrow> bool" where
  "less_eq_pyfloat FNan y = False"
| "less_eq_pyfloat x FNan = False"
| "less_eq_pyfloat (FFin a) (FFin b) = (a \<le> b)"
| "less_eq_pyfloat (FFin a) (FInf pos) = pos"
| "less_eq_pyfloat (FInf pos) (FFin b) = (\<not> pos)"
| "less_eq_pyfloat (FInf p) (FInf q) = (\<not> p \<or> q)"

fun less_pyfloat :: "pyfloat \<Rightarrow> pyfloat \<Rightarrow> bool" where
  "less_pyfloat FNan y = False"
| "less_pyfloat x FNan = False"
| "less_pyfloat (FFin a) (FFin b) = (a < b)"
| "less_pyfloat (FFin a) (FInf pos) = pos"
| "less_pyfloat (FInf pos) (FFin b) = (\<not> pos)"
| "less_pyfloat (FInf p) (FInf q) = (\<not> p \<and> q)"

instance ..

end

text \<open>\<open>min\<close> and \<open>max\<close> of two floats, where the first argument wins unless the other is beyond it.\<close>

definition py_max :: "pyfloat \<Rightarrow> pyfloat \<Rightarrow> pyfloat" where
  "py_max a b = (if a < b then b else a)"

definition py_min :: "pyfloat \<Rightarrow> pyfloat \<Rightarrow> pyfloat" where
  "py_min a b = (if b < a then b else a)"

definition is_digit :: "char \<Rightarrow> bool" where
  "is_digit c \<longleftrightarrow> 48 \<le> code c \<and> code c \<le> 57"

definition digit_val :: "char \<Rightarrow> nat" where
  "digit_val c = code c - 48"

definition decimal :: "string \<Rightarrow> nat" where
  "decimal s = digits_val (map digit_val s)"

text \<open>An underscore is allowed between two digits.\<close>

fun drop_underscores :: "bool \<Rightarrow> string \<Rightarrow> string option" where
  "drop_underscores after_digit [] = Some []"
| "drop_underscores after_digit (c # cs) =
     (if c = CHR ''_''
      then (case cs of
              [] \<Rightarrow> None
            | d # _ \<Rightarrow> if after_digit \<and> is_digit d then drop_underscores False cs else None)
      else map_option ((#) c) (drop_underscores (is_digit c) cs))"

text \<open>The sign and the rest of a numeral.\<close>

definition split_sign :: "string \<Rightarrow> bool \<times> string" where
  "split_sign s =
     (case s of
        c # cs \<Rightarrow> if c = CHR ''-'' then (True, cs) else if c = CHR ''+'' then (False, cs) else (False, s)
      | [] \<Rightarrow> (False, s))"

text \<open>\<open>int(s)\<close>; more than 4300 digits are refused.\<close>

definition py_int :: "string \<Rightarrow> int option" where
  "py_int s =
     (case split_sign (py_strip s) of
        (neg, t) \<Rightarrow>
          (case drop_underscores False t of
             None \<Rightarrow> None
           | Some ds \<Rightarrow>
               if ds = [] \<or> \<not> list_all is_digit ds \<or> 4300 < length ds then None
               else Some (if neg then - int (decimal ds) else int (decimal ds))))"

text \<open>
  \<open>float(s)\<close>.  The value is kept exactly, but for the two ends of the range of a double: a
  value that rounds beyond it is infinite, one that rounds below it is zero.
\<close>

definition to_double :: "rat \<Rightarrow> pyfloat" where
  "to_double x =
     (if 2 ^ 1024 - 2 ^ 970 \<le> x then FInf True
      else if x \<le> - (2 ^ 1024 - 2 ^ 970) then FInf False
      else if \<bar>x\<bar> \<le> 1 / 2 ^ 1075 then FFin 0
      else FFin x)"

definition split_exponent :: "string \<Rightarrow> (string \<times> int) option" where
  "split_exponent s =
     (let m = takeWhile (\<lambda>c. c \<notin> {CHR ''e'', CHR ''E''}) s;
          r = drop (length m) s
      in case r of
           [] \<Rightarrow> Some (m, 0)
         | _ # e \<Rightarrow>
             (case split_sign e of
                (neg, ds) \<Rightarrow>
                  if ds = [] \<or> \<not> list_all is_digit ds then None
                  else Some (m, if neg then - int (decimal ds) else int (decimal ds))))"

definition pow10 :: "int \<Rightarrow> rat" where
  "pow10 k = (if 0 \<le> k then 10 ^ nat k else 1 / 10 ^ nat (- k))"

definition parse_mantissa :: "string \<Rightarrow> (nat \<times> nat) option" where
  "parse_mantissa m =
     (let i = takeWhile is_digit m;
          r = drop (length i) m
      in case r of
           [] \<Rightarrow> if i = [] then None else Some (decimal i, 0)
         | d # f \<Rightarrow>
             if d \<noteq> CHR ''.'' \<or> \<not> list_all is_digit f \<or> (i = [] \<and> f = []) then None
             else Some (decimal (i @ f), length f))"

definition py_float :: "string \<Rightarrow> pyfloat option" where
  "py_float s =
     (case drop_underscores False (py_strip s) of
        None \<Rightarrow> None
      | Some t \<Rightarrow>
          (case split_sign t of
             (neg, u) \<Rightarrow>
               if py_lower u \<in> {''inf'', ''infinity''} then Some (FInf (\<not> neg))
               else if py_lower u = ''nan'' then Some FNan
               else (case split_exponent u of
                       None \<Rightarrow> None
                     | Some (m, e) \<Rightarrow>
                         map_option (\<lambda>(n, frac).
                             to_double ((if neg then -1 else 1) * of_nat n * pow10 (e - int frac)))
                           (parse_mantissa m))))"

definition env_int :: "environ \<Rightarrow> string \<Rightarrow> string \<Rightarrow> int pyres" where
  "env_int env k d =
     (case py_int (environ_get env k d) of
        Some i \<Rightarrow> Inr i
      | None \<Rightarrow> Inl (PyExc ValueError ''invalid literal for int() with base 10''))"

definition env_float :: "environ \<Rightarrow> string \<Rightarrow> string \<Rightarrow> pyfloat pyres" where
  "env_float env k d =
     (case py_float (environ_get env k d) of
        Some x \<Rightarrow> Inr x
      | None \<Rightarrow> Inl (PyExc ValueError ''could not convert string to float''))"

section \<open>Settings\<close>

definition ACP_DEFAULT_PERMISSIONS :: "string list" where
  "ACP_DEFAULT_PERMISSIONS = [''reject'', ''allow_once'']"

definition HARNESS_LOG_LEVELS :: "string list" where
  "HARNESS_LOG_LEVELS = [''all'', ''trace'', ''debug'', ''info'', ''warn'', ''warning'', ''error'',
     ''fatal'', ''none'']"

definition DEFAULT_MAX_BODY_BYTES :: int where
  "DEFAULT_MAX_BODY_BYTES = 25 * 1024 * 1024"

definition env_bool :: "environ \<Rightarrow> string \<Rightarrow> bool \<Rightarrow> bool" where
  "env_bool env name dflt =
     (case env name of
        None \<Rightarrow> dflt
      | Some raw \<Rightarrow>
          if py_strip raw = '''' then dflt
          else py_lower (py_strip raw) \<in> {''1'', ''true'', ''yes'', ''on''})"

definition env_list :: "environ \<Rightarrow> string \<Rightarrow> string list" where
  "env_list env name =
     map py_strip (filter (\<lambda>item. py_strip item \<noteq> '''')
       (py_split CHR '','' (environ_get env name '''')))"

record settings =
  st_host :: string
  st_port :: int
  st_github_webhook_secret :: string
  st_max_body_bytes :: int
  st_log_level :: string
  st_events_keepalive :: pyfloat
  st_events_maxlen :: int
  st_events_log_enabled :: bool
  st_acp_enabled :: bool
  st_acp_opencode_bin :: string
  st_acp_workspace_root :: string
  st_acp_clone_root :: string
  st_acp_step_timeout :: pyfloat
  st_acp_prompt_timeout :: pyfloat
  st_acp_idle_timeout :: pyfloat
  st_acp_default_permission :: string
  st_acp_deny_patterns :: "string list"
  st_acp_denied_tools :: "string list"
  st_acp_trace_enabled :: bool
  st_acp_harness_log_level :: string
  st_acp_trace_root :: string
  st_acp_trace_keep_runs :: int
  st_sandbox_enabled :: bool
  st_sandbox_api_url :: string
  st_sandbox_branch :: string
  st_sandbox_ready_timeout :: pyfloat
  st_sandbox_docker_bin :: string

text \<open>The class's own defaults, for the fields that have one.\<close>

definition Settings :: "string \<Rightarrow> int \<Rightarrow> string \<Rightarrow> int \<Rightarrow> string \<Rightarrow> settings" where
  "Settings host port secret max_body log_level =
     \<lparr>st_host = host, st_port = port, st_github_webhook_secret = secret,
      st_max_body_bytes = max_body, st_log_level = log_level,
      st_events_keepalive = FFin 15, st_events_maxlen = 1000, st_events_log_enabled = True,
      st_acp_enabled = True, st_acp_opencode_bin = '''', st_acp_workspace_root = '''',
      st_acp_clone_root = '''', st_acp_step_timeout = FFin 30, st_acp_prompt_timeout = FFin 0,
      st_acp_idle_timeout = FFin 300, st_acp_default_permission = ''reject'',
      st_acp_deny_patterns = [], st_acp_denied_tools = [], st_acp_trace_enabled = True,
      st_acp_harness_log_level = ''info'', st_acp_trace_root = '''', st_acp_trace_keep_runs = 50,
      st_sandbox_enabled = False, st_sandbox_api_url = '''', st_sandbox_branch = ''development'',
      st_sandbox_ready_timeout = FFin 300, st_sandbox_docker_bin = ''docker''\<rparr>"

text \<open>A regular-expression engine: the error text of \<open>re.error\<close>, or whether the pattern matches.\<close>

type_synonym regex_engine = "string \<Rightarrow> string + (string \<Rightarrow> bool)"

definition value_error :: "string \<Rightarrow> 'a pyres" where
  "value_error msg = Inl (PyExc ValueError msg)"

fun check_patterns :: "regex_engine \<Rightarrow> string list \<Rightarrow> unit pyres" where
  "check_patterns re [] = Inr ()"
| "check_patterns re (p # ps) =
     (case re p of
        Inl exc \<Rightarrow> value_error (''ACP_DENY_PATTERNS entry '' @ py_repr_str p @
            '' is not a valid regex: '' @ exc)
      | Inr _ \<Rightarrow> check_patterns re ps)"

definition guard :: "bool \<Rightarrow> string \<Rightarrow> unit pyres" where
  "guard bad msg = (if bad then value_error msg else Inr ())"

definition or_default :: "string \<Rightarrow> string \<Rightarrow> string" where
  "or_default s d = (if s = '''' then d else s)"

definition from_env :: "regex_engine \<Rightarrow> environ \<Rightarrow> settings pyres" where
  "from_env re env =
     (let secret = py_strip (environ_get env ''OS_WEBHOOK_SECRET'' '''') in
      rbind (guard (secret = '''') ''OS_WEBHOOK_SECRET is required (GitHub App webhook secret).'') (\<lambda>_.
      let default_permission =
            py_lower (py_strip (environ_get env ''ACP_DEFAULT_PERMISSION'' ''reject'')) in
      rbind (guard (default_permission \<notin> set ACP_DEFAULT_PERMISSIONS)
          (''ACP_DEFAULT_PERMISSION must be one of: '' @ py_join '', '' ACP_DEFAULT_PERMISSIONS)) (\<lambda>_.
      let deny_patterns = env_list env ''ACP_DENY_PATTERNS'' in
      rbind (check_patterns re deny_patterns) (\<lambda>_.
      let sandbox_enabled = env_bool env ''SANDBOX_ENABLED'' False;
          sandbox_api_url = py_strip (environ_get env ''SANDBOX_API_URL'' '''') in
      rbind (guard (sandbox_enabled \<and> sandbox_api_url = '''')
          ''SANDBOX_API_URL is required when SANDBOX_ENABLED is true.'') (\<lambda>_.
      let acp_clone_root = py_strip (environ_get env ''ACP_CLONE_ROOT'' '''') in
      rbind (guard (sandbox_enabled \<and> acp_clone_root \<noteq> '''')
          ''SANDBOX_ENABLED and ACP_CLONE_ROOT are mutually exclusive (dual agent environments never mix).'') (\<lambda>_.
      rbind (env_float env ''WEBHOOK_EVENTS_KEEPALIVE'' ''15'') (\<lambda>events_keepalive.
      rbind (guard (events_keepalive \<le> FFin 0) ''WEBHOOK_EVENTS_KEEPALIVE must be a positive number.'') (\<lambda>_.
      rbind (env_int env ''WEBHOOK_EVENTS_MAXLEN'' ''1000'') (\<lambda>events_maxlen.
      rbind (guard (events_maxlen < 1) ''WEBHOOK_EVENTS_MAXLEN must be at least 1.'') (\<lambda>_.
      let harness_log_level =
            or_default (py_lower (py_strip (environ_get env ''ACP_HARNESS_LOG_LEVEL'' ''info''))) ''info'' in
      rbind (guard (harness_log_level \<notin> set HARNESS_LOG_LEVELS)
          (''ACP_HARNESS_LOG_LEVEL must be one of: '' @ py_join '', '' HARNESS_LOG_LEVELS)) (\<lambda>_.
      rbind (env_int env ''ACP_TRACE_KEEP_RUNS'' ''50'') (\<lambda>trace_keep_runs.
      rbind (guard (trace_keep_runs < 1) ''ACP_TRACE_KEEP_RUNS must be at least 1.'') (\<lambda>_.
      rbind (env_float env ''ACP_IDLE_TIMEOUT'' ''300'') (\<lambda>idle_timeout.
      rbind (guard (idle_timeout \<le> FFin 0) ''ACP_IDLE_TIMEOUT must be a positive number.'') (\<lambda>_.
      rbind (env_int env ''WEBHOOK_PORT'' ''8080'') (\<lambda>port.
      rbind (env_int env ''WEBHOOK_MAX_BODY_BYTES'' (py_str_int DEFAULT_MAX_BODY_BYTES)) (\<lambda>max_body.
      rbind (env_float env ''ACP_STEP_TIMEOUT'' ''30'') (\<lambda>step_timeout.
      rbind (env_float env ''ACP_PROMPT_TIMEOUT'' ''0'') (\<lambda>prompt_timeout.
      rbind (env_float env ''SANDBOX_READY_TIMEOUT'' ''300'') (\<lambda>ready_timeout.
      Inr
       \<lparr>st_host = environ_get env ''WEBHOOK_HOST'' ''0.0.0.0'', st_port = port,
        st_github_webhook_secret = secret, st_max_body_bytes = max_body,
        st_log_level = py_lower (environ_get env ''WEBHOOK_LOG_LEVEL'' ''info''),
        st_events_keepalive = events_keepalive, st_events_maxlen = events_maxlen,
        st_events_log_enabled = env_bool env ''WEBHOOK_EVENTS_LOG_ENABLED'' True,
        st_acp_enabled = env_bool env ''ACP_ENABLED'' True,
        st_acp_opencode_bin = py_strip (environ_get env ''ACP_OPENCODE_BIN'' ''''),
        st_acp_workspace_root = py_strip (environ_get env ''ACP_WORKSPACE_ROOT'' ''''),
        st_acp_clone_root = acp_clone_root, st_acp_step_timeout = step_timeout,
        st_acp_prompt_timeout = prompt_timeout, st_acp_idle_timeout = idle_timeout,
        st_acp_default_permission = default_permission, st_acp_deny_patterns = deny_patterns,
        st_acp_denied_tools = env_list env ''ACP_DENIED_TOOLS'',
        st_acp_trace_enabled = env_bool env ''ACP_TRACE_ENABLED'' True,
        st_acp_harness_log_level = harness_log_level,
        st_acp_trace_root = py_strip (environ_get env ''ACP_TRACE_ROOT'' ''''),
        st_acp_trace_keep_runs = trace_keep_runs, st_sandbox_enabled = sandbox_enabled,
        st_sandbox_api_url = sandbox_api_url,
        st_sandbox_branch = or_default (py_strip (environ_get env ''SANDBOX_BRANCH'' ''development'')) ''development'',
        st_sandbox_ready_timeout = ready_timeout,
        st_sandbox_docker_bin = or_default (py_strip (environ_get env ''SANDBOX_DOCKER_BIN'' ''docker'')) ''docker''\<rparr>))))))))))))))))))))"

section \<open>What a read configuration guarantees\<close>

lemma guard_Inr: "guard bad msg = Inr u \<longleftrightarrow> \<not> bad"
  by (simp add: guard_def value_error_def)

lemma check_patterns_Inr: "check_patterns re ps = Inr u \<longleftrightarrow> (\<forall>p \<in> set ps. \<exists>m. re p = Inr m)"
  by (induction ps) (auto simp: value_error_def split: sum.splits)

definition valid_settings :: "regex_engine \<Rightarrow> settings \<Rightarrow> bool" where
  "valid_settings re st \<longleftrightarrow>
     st_github_webhook_secret st \<noteq> '''' \<and>
     st_acp_default_permission st \<in> set ACP_DEFAULT_PERMISSIONS \<and>
     list_all (\<lambda>p. case re p of Inl _ \<Rightarrow> False | Inr _ \<Rightarrow> True) (st_acp_deny_patterns st) \<and>
     (st_sandbox_enabled st \<longrightarrow> st_sandbox_api_url st \<noteq> '''' \<and> st_acp_clone_root st = '''') \<and>
     \<not> st_events_keepalive st \<le> FFin 0 \<and> \<not> st_acp_idle_timeout st \<le> FFin 0 \<and>
     1 \<le> st_events_maxlen st \<and> 1 \<le> st_acp_trace_keep_runs st \<and>
     st_acp_harness_log_level st \<in> set HARNESS_LOG_LEVELS \<and>
     st_sandbox_branch st \<noteq> '''' \<and> st_sandbox_docker_bin st \<noteq> ''''"

lemma or_default_nonempty: "d \<noteq> '''' \<Longrightarrow> or_default s d \<noteq> ''''"
  by (simp add: or_default_def)

lemma from_env_valid: "from_env re env = Inr st \<Longrightarrow> valid_settings re st"
  unfolding from_env_def Let_def rbind_eq_Inr guard_Inr
  by (elim exE conjE, simp only: sum.inject, hypsubst)
     (fastforce simp: valid_settings_def check_patterns_Inr list_all_iff or_default_nonempty)

text \<open>Every refusal is a \<open>ValueError\<close>.\<close>

lemma raises_guard: "raises is_value_error (guard bad msg)"
  by (simp add: guard_def value_error_def is_value_error_def)

lemma raises_check_patterns: "raises is_value_error (check_patterns re ps)"
  by (induction ps) (auto simp: value_error_def is_value_error_def split: sum.splits)

lemma raises_env_number:
  "raises is_value_error (env_int env k d)" "raises is_value_error (env_float env k d)"
  by (auto simp: env_int_def env_float_def is_value_error_def split: option.splits)

lemmas raises_steps =
  raises_rbind [OF raises_guard] raises_rbind [OF raises_check_patterns]
  raises_rbind [OF raises_env_number(1)] raises_rbind [OF raises_env_number(2)]

lemma raises_from_env: "raises is_value_error (from_env re env)"
  unfolding from_env_def Let_def
  by (rule raises_steps)+ (rule raises_simps)

text \<open>
  C37: reading the environment either gives settings that satisfy every check of the module, or
  raises a \<open>ValueError\<close>: a started service has a secret, permission and log level from their
  lists, deny patterns that compile, positive ring and retention sizes, and never both agent
  environments.
\<close>

theorem from_env_validates:
  "case from_env re env of
     Inr st \<Rightarrow> valid_settings re st
   | Inl e \<Rightarrow> is_value_error e"
  using from_env_valid [of re env] raises_from_env [of re env]
  by (cases "from_env re env") auto

section \<open>Defaults\<close>

definition idle_env :: "string \<Rightarrow> string option \<Rightarrow> environ" where
  "idle_env s t =
     (\<lambda>k. if k = ''OS_WEBHOOK_SECRET'' then Some s else if k = ''ACP_IDLE_TIMEOUT'' then t else None)"

lemma numeral_texts:
  "py_strip ''15'' = ''15''" "py_strip ''300'' = ''300''" "py_strip ''30'' = ''30''" "py_strip ''0'' = ''0''"
  "py_strip ''1000'' = ''1000''" "py_strip ''50'' = ''50''" "py_strip ''8080'' = ''8080''"
  "py_lower ''15'' = ''15''" "py_lower ''300'' = ''300''" "py_lower ''30'' = ''30''" "py_lower ''0'' = ''0''"
  by code_simp+

lemmas numeral_defs = drop_underscores.simps split_sign_def is_digit_def decimal_def digits_val_def
  digit_val_def code_def split_exponent_def parse_mantissa_def pow10_def to_double_def

lemma default_numerals:
  "py_float ''15'' = Some (FFin 15)" "py_float ''300'' = Some (FFin 300)" "py_float ''30'' = Some (FFin 30)"
  "py_float ''0'' = Some (FFin 0)" "py_int ''1000'' = Some 1000" "py_int ''50'' = Some 50"
  "py_int ''8080'' = Some 8080"
  by (simp_all add: py_float_def py_int_def numeral_texts numeral_defs)

lemma default_texts:
  "py_lower (py_strip ''reject'') = ''reject''" "py_lower (py_strip ''info'') = ''info''"
  "py_strip ''development'' = ''development''" "py_strip ''docker'' = ''docker''"
  "py_lower ''info'' = ''info''" "py_split CHR '','' '''' = ['''']"
  by code_simp+

lemma default_max_body: "py_int (py_str_int DEFAULT_MAX_BODY_BYTES) = Some DEFAULT_MAX_BODY_BYTES"
proof -
  have str: "py_str_int DEFAULT_MAX_BODY_BYTES = ''26214400''"
    by (simp add: py_str_int_def py_str_nat_def nat_digits.simps DEFAULT_MAX_BODY_BYTES_def digit_char_def)
       code_simp
  have parts: "split_sign (py_strip ''26214400'') = (False, ''26214400'')"
      "drop_underscores False ''26214400'' = Some ''26214400''" "list_all is_digit ''26214400''"
    by code_simp+
  have "decimal ''26214400'' = 26214400" by (simp add: decimal_def digits_val_def digit_val_def code_def)
  then show ?thesis unfolding py_int_def str parts by (simp add: parts(1,2) parts(3) [simplified] DEFAULT_MAX_BODY_BYTES_def)
qed

lemma from_env_idle:
  assumes s: "py_strip s \<noteq> ''''"
    and x: "py_float (case t of None \<Rightarrow> ''300'' | Some v \<Rightarrow> v) = Some x" "\<not> x \<le> FFin 0"
  shows "from_env re (idle_env s t) =
    Inr ((Settings ''0.0.0.0'' 8080 (py_strip s) DEFAULT_MAX_BODY_BYTES ''info'')
      \<lparr>st_acp_idle_timeout := x\<rparr>)"
proof -
  let ?env = "idle_env s t"
  have get: "environ_get ?env k d = (if k = ''OS_WEBHOOK_SECRET'' then s
      else if k = ''ACP_IDLE_TIMEOUT'' then (case t of None \<Rightarrow> d | Some v \<Rightarrow> v) else d)" for k d
    by (simp add: idle_env_def environ_get_def)
  have bools: "env_bool ?env k d = d" if "k \<noteq> ''OS_WEBHOOK_SECRET''" "k \<noteq> ''ACP_IDLE_TIMEOUT''" for k d
    using that by (simp add: idle_env_def env_bool_def)
  have lists: "env_list ?env k = []" if "k \<noteq> ''OS_WEBHOOK_SECRET''" "k \<noteq> ''ACP_IDLE_TIMEOUT''" for k
    using that by (simp add: env_list_def get default_texts)
  have nums: "env_int ?env k d = (case py_int d of Some i \<Rightarrow> Inr i
        | None \<Rightarrow> Inl (PyExc ValueError ''invalid literal for int() with base 10''))"
      "env_float ?env k d = (case py_float d of Some i \<Rightarrow> Inr i
        | None \<Rightarrow> Inl (PyExc ValueError ''could not convert string to float''))"
    if "k \<noteq> ''OS_WEBHOOK_SECRET''" "k \<noteq> ''ACP_IDLE_TIMEOUT''" for k d
    using that by (simp_all add: env_int_def env_float_def get)
  have idle: "env_float ?env ''ACP_IDLE_TIMEOUT'' ''300'' = Inr x"
    using x by (simp add: env_float_def get)
  note max = default_max_body
  show ?thesis
    using s x(2)
    by (simp add: from_env_def Let_def get bools lists nums idle default_numerals default_texts max guard_def
        ACP_DEFAULT_PERMISSIONS_def HARNESS_LOG_LEVELS_def Settings_def or_default_def)
qed

text \<open>
  With only the secret in the environment, the settings are the defaults of the class: the
  defaults written in \<open>from_env\<close> and those of the fields agree.
\<close>

theorem from_env_defaults:
  assumes "py_strip s \<noteq> ''''"
  shows "from_env re (idle_env s None) =
    Inr (Settings ''0.0.0.0'' 8080 (py_strip s) DEFAULT_MAX_BODY_BYTES ''info'')"
  using from_env_idle [OF assms, of None "FFin 300" re]
  by (simp add: default_numerals) (simp add: Settings_def)

theorem from_env_defaults_witness:
  "from_env (\<lambda>_. Inl ''unused'') (idle_env '' hunter2 '' None) =
     Inr (Settings ''0.0.0.0'' 8080 ''hunter2'' DEFAULT_MAX_BODY_BYTES ''info'')"
proof -
  have s: "py_strip '' hunter2 '' = ''hunter2''" by code_simp
  show ?thesis using from_env_defaults [of "'' hunter2 ''"] unfolding s by simp
qed

text \<open>
  The two checks for a positive number let the NaN through, because every comparison with it
  is false: \<open>ACP_IDLE_TIMEOUT=nan\<close> starts the service with an idle timeout that no elapsed
  time reaches.
\<close>

theorem nan_passes_positivity_checks:
  "\<exists>st. from_env re (idle_env ''s'' (Some ''nan'')) = Inr st \<and>
     st_acp_idle_timeout st = FNan \<and> (\<forall>elapsed. \<not> st_acp_idle_timeout st \<le> elapsed)"
proof -
  have "py_strip ''s'' = ''s''" "py_strip ''nan'' = ''nan''" "py_lower ''nan'' = ''nan''"
    by code_simp+
  moreover from this have "py_float ''nan'' = Some FNan"
    by (simp add: py_float_def numeral_defs)
  ultimately show ?thesis using from_env_idle [of "''s''" "Some ''nan''" FNan re] by simp
qed

end
