(* ===== verification/Acp_Policy.thy ===== *)
theory Acp_Policy
  imports Config
begin

text \<open>
  \<open>acp_policy.py\<close>: the automatic answer to a permission request of the agent.  \<open>decide\<close>
  classifies a tool call under the settings, \<open>respond\<close> maps the decision to one of the options
  the agent offered.  A tool call is the protocol's \<open>ToolCallUpdate\<close>, all of whose fields are
  optional; the regular-expression engine is the parameter of theory \<open>Config\<close>.
\<close>

record tool_call =
  tc_kind :: "string option"
  tc_title :: "string option"
  tc_raw_input :: pyval

record permission_option =
  po_kind :: string
  po_option_id :: string

datatype permission_outcome = Selected (selected_id: string) | Dismissed

record permission_decision =
  pd_action :: string
  pd_reason :: string

definition READ_TOOL_KINDS :: "string set" where
  "READ_TOOL_KINDS = {''read'', ''search'', ''think'', ''fetch''}"

definition REJECT_KINDS :: "string list" where
  "REJECT_KINDS = [''reject_once'', ''reject_always'']"

definition PermissionDecision :: "string \<Rightarrow> string \<Rightarrow> permission_decision" where
  "PermissionDecision action reason = \<lparr>pd_action = action, pd_reason = reason\<rparr>"

text \<open>\<open>getattr(x, f, None) or d\<close> for a text field.\<close>

definition text_or :: "string option \<Rightarrow> string \<Rightarrow> string" where
  "text_or x d = (case x of None \<Rightarrow> d | Some s \<Rightarrow> if s = '''' then d else s)"

definition haystack :: "tool_call \<Rightarrow> string" where
  "haystack tc = text_or (tc_title tc) '''' @ [char_of (10::nat)] @ str_or_empty (tc_raw_input tc)"

text \<open>\<open>re.search(pattern, haystack, re.IGNORECASE)\<close>; an invalid pattern does not match.\<close>

definition pattern_matches :: "regex_engine \<Rightarrow> string \<Rightarrow> string \<Rightarrow> bool" where
  "pattern_matches re hay pattern = (case re pattern of Inl _ \<Rightarrow> False | Inr search \<Rightarrow> search hay)"

definition decide :: "regex_engine \<Rightarrow> tool_call \<Rightarrow> settings \<Rightarrow> permission_decision" where
  "decide re tc st =
     (let kind = text_or (tc_kind tc) ''other'' in
      case List.find (pattern_matches re (haystack tc)) (st_acp_deny_patterns st) of
        Some pattern \<Rightarrow>
          PermissionDecision ''reject'' (''deny pattern '' @ py_repr_str pattern @ '' matched'')
      | None \<Rightarrow>
          if kind \<in> READ_TOOL_KINDS
          then PermissionDecision ''allow_always'' (''read-only tool kind '' @ py_repr_str kind)
          else if st_acp_default_permission st = ''allow_once''
          then PermissionDecision ''allow_once'' ''unclassified tool; configured default allow_once''
          else PermissionDecision ''reject''
                 (''unclassified tool kind '' @ py_repr_str kind @ ''; headless default is reject''))"

definition wanted_kinds :: "string \<Rightarrow> string list" where
  "wanted_kinds action =
     (if action = ''reject'' then REJECT_KINDS
      else if action = ''allow_always'' then [''allow_always'', ''allow_once'']
      else [''allow_once'', ''allow_always''])"

fun respond_loop :: "permission_option list \<Rightarrow> string list \<Rightarrow> permission_outcome" where
  "respond_loop opts [] = Dismissed"
| "respond_loop opts (kind # kinds) =
     (case List.find (\<lambda>opt. po_kind opt = kind) opts of
        Some opt \<Rightarrow> Selected (po_option_id opt)
      | None \<Rightarrow> respond_loop opts kinds)"

definition respond :: "permission_option list \<Rightarrow> permission_decision \<Rightarrow> permission_outcome" where
  "respond opts decision = respond_loop opts (wanted_kinds (pd_action decision))"

section \<open>Properties\<close>

definition denied :: "regex_engine \<Rightarrow> tool_call \<Rightarrow> settings \<Rightarrow> bool" where
  "denied re tc st \<longleftrightarrow> list_ex (pattern_matches re (haystack tc)) (st_acp_deny_patterns st)"

definition read_only :: "tool_call \<Rightarrow> bool" where
  "read_only tc \<longleftrightarrow> text_or (tc_kind tc) ''other'' \<in> READ_TOOL_KINDS"

lemma find_None_denied:
  "List.find (pattern_matches re (haystack tc)) (st_acp_deny_patterns st) = None \<longleftrightarrow> \<not> denied re tc st"
  by (auto simp: denied_def find_None_iff list_ex_iff)

lemma decide_action:
  "pd_action (decide re tc st) =
     (if denied re tc st then ''reject''
      else if read_only tc then ''allow_always''
      else if st_acp_default_permission st = ''allow_once'' then ''allow_once'' else ''reject'')"
  using find_None_denied [of re tc st]
  by (auto simp: decide_def Let_def read_only_def PermissionDecision_def split: option.splits)

lemma respond_loop_Selected:
  "respond_loop opts kinds = Selected oid \<Longrightarrow>
     \<exists>opt \<in> set opts. po_option_id opt = oid \<and> po_kind opt \<in> set kinds"
  by (induction kinds) (auto simp: find_Some_iff split: option.splits)

lemma respond_loop_Dismissed:
  "respond_loop opts kinds = Dismissed \<longleftrightarrow> (\<forall>opt \<in> set opts. po_kind opt \<notin> set kinds)"
  by (induction kinds) (auto simp: find_None_iff find_Some_iff split: option.splits)

text \<open>
  A deny pattern that matches title or input rejects whatever the kind of the tool; otherwise
  the read-only kinds are allowed and everything else gets the configured default, where any
  setting but \<open>allow_once\<close> means reject.
\<close>

theorem decide_deny_first:
  "pd_action (decide re tc st) =
     (if list_ex (\<lambda>p. \<exists>search. re p = Inr search \<and> search (haystack tc)) (st_acp_deny_patterns st)
      then ''reject''
      else if text_or (tc_kind tc) ''other'' \<in> {''read'', ''search'', ''think'', ''fetch''} then ''allow_always''
      else if st_acp_default_permission st = ''allow_once'' then ''allow_once'' else ''reject'')"
proof -
  have "pattern_matches re hay = (\<lambda>p. \<exists>search. re p = Inr search \<and> search hay)" for hay
    by (auto simp: pattern_matches_def fun_eq_iff split: sum.splits)
  then show ?thesis by (simp add: decide_action denied_def read_only_def READ_TOOL_KINDS_def)
qed

text \<open>
  C31: the answer fails closed.  A request is answered with an allowing option only if no deny
  pattern matched and the tool is read-only or the operator opted in; a rejected one is answered
  with a rejecting option if one is offered, and dismissed otherwise.
\<close>

theorem answer_fails_closed:
  "case respond opts (decide re tc st) of
     Selected oid \<Rightarrow> \<exists>opt. opt \<in> set opts \<and> po_option_id opt = oid \<and>
       (if po_kind opt \<in> {''allow_once'', ''allow_always''}
        then \<not> denied re tc st \<and> (read_only tc \<or> st_acp_default_permission st = ''allow_once'')
        else po_kind opt \<in> set REJECT_KINDS)
   | Dismissed \<Rightarrow> map po_kind opts = filter (\<lambda>k. k \<notin> set (wanted_kinds (pd_action (decide re tc st)))) (map po_kind opts)"
proof (cases "respond opts (decide re tc st)")
  case (Selected oid)
  then obtain opt where "opt \<in> set opts" "po_option_id opt = oid"
      "po_kind opt \<in> set (wanted_kinds (pd_action (decide re tc st)))"
    using respond_loop_Selected unfolding respond_def by blast
  moreover from this(3)
  have "if po_kind opt \<in> {''allow_once'', ''allow_always''}
        then \<not> denied re tc st \<and> (read_only tc \<or> st_acp_default_permission st = ''allow_once'')
        else po_kind opt \<in> set REJECT_KINDS"
    by (auto simp: decide_action wanted_kinds_def REJECT_KINDS_def split: if_splits)
  ultimately show ?thesis using Selected by auto
next
  case Dismissed
  then have "\<forall>k \<in> set (map po_kind opts). k \<notin> set (wanted_kinds (pd_action (decide re tc st)))"
    by (simp add: respond_def respond_loop_Dismissed)
  then have "filter (\<lambda>k. k \<notin> set (wanted_kinds (pd_action (decide re tc st)))) (map po_kind opts)
      = map po_kind opts"
    by (intro filter_True)
  with Dismissed show ?thesis by simp
qed

text \<open>A request that offers both families is never dismissed.\<close>

lemma respond_not_dismissed:
  assumes "{''allow_once'', ''reject_once''} \<subseteq> po_kind ` set opts"
  shows "respond opts d \<noteq> Dismissed"
  using assms by (auto simp: respond_def respond_loop_Dismissed wanted_kinds_def REJECT_KINDS_def)

end
