(* ===== verification/Webhook_App.thy ===== *)
theory Webhook_App
  imports Signature Json_Text Prompt_Builder Acp_Policy
begin

text \<open>
  \<open>app.py\<close>: the webhook route and the frames of the event stream.  \<open>github_webhook\<close> is
  the whole handler: size and signature checks, the ping, decoding, the dispatch gate, the
  envelope with its prompt, the queue and the events recorded on the way.  Its state is the
  queue and the store; an exception the handler lets through leaves the effects made before
  it, and the server answers 500.  Parameters stand for what the handler calls outside the
  repository: \<open>json.loads\<close> on a body, the validation of a text field by the envelope's model
  class, the random id and the clock.
\<close>

section \<open>Event-stream frames\<close>

definition LF :: string where
  "LF = [char_of (10::nat)]"

definition sse_frame :: "event option \<Rightarrow> string pyres" where
  "sse_frame item =
     (case item of
        None \<Rightarrow> Inr ('': keepalive'' @ LF @ LF)
      | Some e \<Rightarrow>
          rmap (\<lambda>data. ''id: '' @ ev_id e @ LF @ ''event: '' @ ev_type e @ LF @ ''data: '' @ data @ LF @ LF)
            (json_dumps json_compact 0 (PDict (ev_data e))))"

section \<open>The webhook route\<close>

record request =
  rq_body :: "byte list"
  rq_delivery :: "string option"
  rq_event :: "string option"
  rq_signature :: "string option"

record 'w service =
  sv_queue :: prompt_queue
  sv_store :: "'w event_store"

record externals =
  ex_loads :: "byte list \<Rightarrow> pyval pyres"
  ex_str_field :: "pyval \<Rightarrow> string pyres"

datatype http_result = Reply (status_code: nat) (reply_body: pyval) | Raised pyexc

abbreviation header :: "string option \<Rightarrow> string" where
  "header h \<equiv> (case h of None \<Rightarrow> '''' | Some v \<Rightarrow> v)"

definition http_exception :: "nat \<Rightarrow> string \<Rightarrow> http_result" where
  "http_exception sc detail = Reply sc (PDict [(''detail'', PStr detail)])"

text \<open>\<open>payload.get(k1, {}).get(k2, "?")\<close>\<close>

definition part_of :: "pyval \<Rightarrow> string \<Rightarrow> string \<Rightarrow> pyval pyres" where
  "part_of payload k1 k2 = rbind (py_get payload k1 (PDict [])) (\<lambda>v. py_get v k2 (PStr ''?''))"

text \<open>\<open>(payload.get("label") or {}).get("name", "")\<close>\<close>

definition trigger_label :: "pyval \<Rightarrow> pyval pyres" where
  "trigger_label payload =
     rbind (py_get payload ''label'' PNone) (\<lambda>v. py_get (py_or v (PDict [])) ''name'' (PStr ''''))"

definition received_data :: "string \<Rightarrow> string \<Rightarrow> pyval \<Rightarrow> pyval \<Rightarrow> data" where
  "received_data delivery_id event action repo =
     [(''delivery_id'', PStr delivery_id), (''event'', PStr event), (''action'', action), (''repo'', repo)]"

definition filtered_data :: "string \<Rightarrow> string \<Rightarrow> pyval \<Rightarrow> string \<Rightarrow> data" where
  "filtered_data delivery_id event action reason =
     [(''delivery_id'', PStr delivery_id), (''event'', PStr event), (''action'', action),
      (''reason'', PStr reason)]"

definition accepted_data :: "string \<Rightarrow> string \<Rightarrow> pyval \<Rightarrow> pyval \<Rightarrow> pyval \<Rightarrow> pyval \<Rightarrow> data" where
  "accepted_data delivery_id event action repo sender label =
     [(''delivery_id'', PStr delivery_id), (''event'', PStr event), (''action'', action), (''repo'', repo),
      (''sender'', sender), (''label'', label)]"

definition queued_data :: "prompt_info \<Rightarrow> data" where
  "queued_data info =
     [(''id'', PStr (pi_id info)), (''delivery_id'', PStr (pi_delivery_id info)),
      (''repo'', PStr (pi_repo info)), (''event'', PStr (pi_event info)),
      (''action'', PStr (pi_action info)), (''label'', PStr (pi_label info))]"

definition duplicate_data :: "prompt_info \<Rightarrow> data" where
  "duplicate_data info =
     [(''delivery_id'', PStr (pi_delivery_id info)), (''event'', PStr (pi_event info)),
      (''action'', PStr (pi_action info))]"

definition sv_emit :: "string \<Rightarrow> data \<Rightarrow> 'w service \<Rightarrow> 'w service" where
  "sv_emit t d sv = sv\<lparr>sv_store := emit t d (sv_store sv)\<rparr>"

text \<open>
  The envelope: the fields as validated, then the prompt.  Reading the repository and the label
  once more, as the handler does, gives the values read for the event.
\<close>

definition make_envelope ::
  "externals \<Rightarrow> string \<Rightarrow> rat \<Rightarrow> string \<Rightarrow> string \<Rightarrow> pyval \<Rightarrow> prompt_info pyres" where
  "make_envelope ex uid now delivery_id event payload =
     rbind (part_of payload ''repository'' ''full_name'') (\<lambda>repo_full.
     rbind (py_get payload ''action'' (PStr '''')) (\<lambda>action.
     rbind (trigger_label payload) (\<lambda>label_name.
     rbind (ex_str_field ex repo_full) (\<lambda>repo.
     rbind (ex_str_field ex action) (\<lambda>act.
     rbind (ex_str_field ex label_name) (\<lambda>label.
     let info = PromptInfo uid now delivery_id repo event act label payload in
     rmap (\<lambda>p. info\<lparr>pi_prompt := Some p\<rparr>) (build_orchestration_prompt info)))))))"

text \<open>The end of the handler: enqueue, record, answer.\<close>

definition submit :: "string \<Rightarrow> string \<Rightarrow> prompt_info \<Rightarrow> 'w service \<Rightarrow> http_result \<times> 'w service" where
  "submit delivery_id event info sv =
     (case enqueue info (sv_queue sv) of
        (fresh, q) \<Rightarrow>
          (Reply 202 (PDict [(''status'', PStr ''accepted''), (''delivery_id'', PStr delivery_id),
                             (''event'', PStr event)]),
           if fresh then sv_emit ''prompt_queued'' (queued_data info) (sv\<lparr>sv_queue := q\<rparr>)
           else sv_emit ''webhook_duplicate'' (duplicate_data info) (sv\<lparr>sv_queue := q\<rparr>)))"

text \<open>The handler from the decoded payload on.\<close>

definition handle_payload ::
  "externals \<Rightarrow> environ \<Rightarrow> string \<Rightarrow> rat \<Rightarrow> string \<Rightarrow> string \<Rightarrow> pyval \<Rightarrow> 'w service \<Rightarrow>
     http_result \<times> 'w service" where
  "handle_payload ex env uid now delivery_id event payload sv =
     (case rbind (py_get payload ''action'' (PStr '''')) (\<lambda>action.
           rbind (part_of payload ''repository'' ''full_name'') (\<lambda>repo.
           rmap (\<lambda>sender. (action, repo, sender)) (part_of payload ''sender'' ''login''))) of
        Inl e \<Rightarrow> (Raised e, sv)
      | Inr (action, repo, sender) \<Rightarrow>
          (let sv1 = sv_emit ''webhook_received'' (received_data delivery_id event action repo) sv in
           case should_dispatch env event payload of
             Inl e \<Rightarrow> (Raised e, sv1)
           | Inr (allow, reason) \<Rightarrow>
               if \<not> allow
               then (Reply 202 (PDict [(''status'', PStr ''ignored''), (''delivery_id'', PStr delivery_id),
                                       (''event'', PStr event), (''reason'', PStr reason)]),
                     sv_emit ''webhook_filtered'' (filtered_data delivery_id event action reason) sv1)
               else
                 (case trigger_label payload of
                    Inl e \<Rightarrow> (Raised e, sv1)
                  | Inr label \<Rightarrow>
                      (let sv2 = sv_emit ''webhook_accepted''
                             (accepted_data delivery_id event action repo sender label) sv1 in
                       case make_envelope ex uid now delivery_id event payload of
                         Inl e \<Rightarrow> (Raised e, sv2)
                       | Inr info \<Rightarrow> submit delivery_id event info sv2))))"

definition github_webhook ::
  "externals \<Rightarrow> settings \<Rightarrow> environ \<Rightarrow> string \<Rightarrow> rat \<Rightarrow> request \<Rightarrow> 'w service \<Rightarrow>
     http_result \<times> 'w service" where
  "github_webhook ex cfg env uid now rq sv =
     (let body = rq_body rq;
          delivery_id = header (rq_delivery rq);
          event = py_lower (header (rq_event rq)) in
      if int (length body) > st_max_body_bytes cfg
      then (http_exception 413 ''Request body too large'', sv)
      else if \<not> verify_signature body (rq_signature rq) (st_github_webhook_secret cfg)
      then (http_exception 401 ''Invalid signature'', sv)
      else if event = ''ping''
      then (Reply 200 (PDict [(''status'', PStr ''pong''), (''delivery_id'', PStr delivery_id)]), sv)
      else
        (case ex_loads ex body of
           Inl e \<Rightarrow>
             (if exc_of e = JSONDecodeError then http_exception 400 ''Invalid JSON body'' else Raised e, sv)
         | Inr payload \<Rightarrow> handle_payload ex env uid now delivery_id event payload sv))"

section \<open>Effects on the queue and the store\<close>

lemma sv_emit_frame [simp, emit_simps]:
  "sv_queue (sv_emit t d sv) = sv_queue sv"
  "sv_store (sv_emit t d sv) = emit t d (sv_store sv)"
  by (simp_all add: sv_emit_def)

text \<open>An accepted delivery: signed, of admissible size, through the gate, with its envelope.\<close>

definition accepted_as ::
  "externals \<Rightarrow> settings \<Rightarrow> environ \<Rightarrow> request \<Rightarrow> prompt_info \<Rightarrow> bool" where
  "accepted_as ex cfg env rq info \<longleftrightarrow>
     int (length (rq_body rq)) \<le> st_max_body_bytes cfg \<and>
     verify_signature (rq_body rq) (rq_signature rq) (st_github_webhook_secret cfg) \<and>
     ex_loads ex (rq_body rq) = Inr (pi_payload info) \<and>
     should_dispatch env (py_lower (header (rq_event rq))) (pi_payload info) = Inr (True, ''allowed'') \<and>
     pi_delivery_id info = header (rq_delivery rq) \<and>
     (\<exists>p. pi_prompt info = Some p \<and>
        build_orchestration_prompt (info\<lparr>pi_prompt := None\<rparr>) = Inr p) \<and>
     (\<exists>label. trigger_label (pi_payload info) = Inr label \<and> ex_str_field ex label = Inr (pi_label info))"

lemma make_envelope_fields:
  assumes "make_envelope ex uid now delivery_id event payload = Inr info"
  shows "pi_payload info = payload \<and> pi_delivery_id info = delivery_id \<and> pi_id info = uid \<and>
     pi_event info = event \<and> pi_status info = queued \<and>
     (\<exists>p. pi_prompt info = Some p \<and> build_orchestration_prompt (info\<lparr>pi_prompt := None\<rparr>) = Inr p) \<and>
     (\<exists>label. trigger_label payload = Inr label \<and> ex_str_field ex label = Inr (pi_label info))"
  using assms by (auto simp: make_envelope_def rbind_eq_Inr rmap_eq_Inr Let_def PromptInfo_def)

text \<open>
  The specification: a delivery is decided without looking at the service's state (the reply, the
  events recorded, the envelope to submit), and the decision is then applied.  Only the
  dedup of the queue depends on what came before.
\<close>

type_synonym decision = "http_result \<times> (string \<times> data) list \<times> prompt_info option"

definition accepted_reply :: "string \<Rightarrow> string \<Rightarrow> http_result" where
  "accepted_reply delivery_id event =
     Reply 202 (PDict [(''status'', PStr ''accepted''), (''delivery_id'', PStr delivery_id),
                       (''event'', PStr event)])"

definition decide_payload ::
  "externals \<Rightarrow> environ \<Rightarrow> string \<Rightarrow> rat \<Rightarrow> string \<Rightarrow> string \<Rightarrow> pyval \<Rightarrow> decision" where
  "decide_payload ex env uid now d ev payload =
     (case rbind (py_get payload ''action'' (PStr '''')) (\<lambda>action.
           rbind (part_of payload ''repository'' ''full_name'') (\<lambda>repo.
           rmap (\<lambda>sender. (action, repo, sender)) (part_of payload ''sender'' ''login''))) of
        Inl e \<Rightarrow> (Raised e, [], None)
      | Inr (action, repo, sender) \<Rightarrow>
          (let recd = (''webhook_received'', received_data d ev action repo) in
           case should_dispatch env ev payload of
             Inl e \<Rightarrow> (Raised e, [recd], None)
           | Inr (False, reason) \<Rightarrow>
               (Reply 202 (PDict [(''status'', PStr ''ignored''), (''delivery_id'', PStr d),
                                  (''event'', PStr ev), (''reason'', PStr reason)]),
                [recd, (''webhook_filtered'', filtered_data d ev action reason)], None)
           | Inr (True, _) \<Rightarrow>
               (case trigger_label payload of
                  Inl e \<Rightarrow> (Raised e, [recd], None)
                | Inr label \<Rightarrow>
                    (let evs = [recd, (''webhook_accepted'', accepted_data d ev action repo sender label)] in
                     case make_envelope ex uid now d ev payload of
                       Inl e \<Rightarrow> (Raised e, evs, None)
                     | Inr info \<Rightarrow> (accepted_reply d ev, evs, Some info)))))"

definition decide_delivery ::
  "externals \<Rightarrow> settings \<Rightarrow> environ \<Rightarrow> string \<Rightarrow> rat \<Rightarrow> request \<Rightarrow> decision" where
  "decide_delivery ex cfg env uid now rq =
     (if int (length (rq_body rq)) > st_max_body_bytes cfg
      then (http_exception 413 ''Request body too large'', [], None)
      else if \<not> verify_signature (rq_body rq) (rq_signature rq) (st_github_webhook_secret cfg)
      then (http_exception 401 ''Invalid signature'', [], None)
      else if py_lower (header (rq_event rq)) = ''ping''
      then (Reply 200 (PDict [(''status'', PStr ''pong''), (''delivery_id'', PStr (header (rq_delivery rq)))]),
            [], None)
      else (case ex_loads ex (rq_body rq) of
              Inl e \<Rightarrow> (if exc_of e = JSONDecodeError then http_exception 400 ''Invalid JSON body''
                        else Raised e, [], None)
            | Inr payload \<Rightarrow> decide_payload ex env uid now (header (rq_delivery rq))
                (py_lower (header (rq_event rq))) payload))"

definition submission_events :: "prompt_info option \<Rightarrow> prompt_queue \<Rightarrow> (string \<times> data) list" where
  "submission_events x q =
     (case x of None \<Rightarrow> []
      | Some info \<Rightarrow> [if fst (enqueue info q) then (''prompt_queued'', queued_data info)
                      else (''webhook_duplicate'', duplicate_data info)])"

definition submission_queue :: "prompt_info option \<Rightarrow> prompt_queue \<Rightarrow> prompt_queue" where
  "submission_queue x q = (case x of None \<Rightarrow> q | Some info \<Rightarrow> snd (enqueue info q))"

definition apply_decision :: "decision \<Rightarrow> 'w service \<Rightarrow> http_result \<times> 'w service" where
  "apply_decision dec sv =
     (case dec of (res, evs, x) \<Rightarrow>
        (res, sv\<lparr>sv_queue := submission_queue x (sv_queue sv),
                 sv_store := emits (evs @ submission_events x (sv_queue sv)) (sv_store sv)\<rparr>))"

lemma submit_apply:
  "submit d ev info sv = apply_decision (accepted_reply d ev, [], Some info) sv"
  by (cases "enqueue info (sv_queue sv)")
     (simp add: submit_def apply_decision_def submission_queue_def submission_events_def
       accepted_reply_def sv_emit_def)

lemma apply_after_emit:
  "apply_decision (res, evs, x) (sv_emit t d sv) = apply_decision (res, (t, d) # evs, x) sv"
  by (simp add: apply_decision_def sv_emit_def)

lemma apply_nothing: "apply_decision (res, [], None) sv = (res, sv)"
  by (simp add: apply_decision_def submission_queue_def submission_events_def)

lemma handle_payload_decided:
  "handle_payload ex env uid now d ev payload sv =
     apply_decision (decide_payload ex env uid now d ev payload) sv"
  by (cases sv)
     (auto simp: handle_payload_def decide_payload_def Let_def submit_apply apply_decision_def
       sv_emit_def submission_queue_def submission_events_def
       split: sum.splits prod.splits bool.splits)

lemma webhook_refines_spec:
  "github_webhook ex cfg env uid now rq sv = apply_decision (decide_delivery ex cfg env uid now rq) sv"
  by (auto simp: github_webhook_def decide_delivery_def Let_def handle_payload_decided apply_nothing
      split: sum.splits)

lemma decide_payload_submits:
  assumes "decide_payload ex env uid now d ev payload = (res, evs, Some info)"
  shows "res = accepted_reply d ev \<and> make_envelope ex uid now d ev payload = Inr info \<and>
     should_dispatch env ev payload = Inr (True, ''allowed'') \<and>
     map fst evs = [''webhook_received'', ''webhook_accepted'']"
  using assms
  by (auto simp: decide_payload_def Let_def split: sum.splits prod.splits bool.splits
      dest: should_dispatch_reason)

lemma decide_delivery_submits:
  assumes "decide_delivery ex cfg env uid now rq = (res, evs, Some info)"
  shows "accepted_as ex cfg env rq info \<and> status_code res = 202 \<and>
     map fst evs = [''webhook_received'', ''webhook_accepted'']"
proof -
  let ?d = "header (rq_delivery rq)" and ?ev = "py_lower (header (rq_event rq))"
  from assms obtain payload where
      ok: "int (length (rq_body rq)) \<le> st_max_body_bytes cfg"
        "verify_signature (rq_body rq) (rq_signature rq) (st_github_webhook_secret cfg)"
        "ex_loads ex (rq_body rq) = Inr payload"
      and dec: "decide_payload ex env uid now ?d ?ev payload = (res, evs, Some info)"
    by (auto simp: decide_delivery_def split: if_splits sum.splits)
  note sub = decide_payload_submits [OF dec]
  from sub have env: "make_envelope ex uid now ?d ?ev payload = Inr info" by simp
  from make_envelope_fields [OF env] sub ok show ?thesis
    by (auto simp: accepted_as_def accepted_reply_def)
qed

lemma decide_delivery_unsigned:
  assumes "\<not> (int (length (rq_body rq)) \<le> st_max_body_bytes cfg \<and>
     verify_signature (rq_body rq) (rq_signature rq) (st_github_webhook_secret cfg))"
  shows "\<exists>res. decide_delivery ex cfg env uid now rq = (res, [], None) \<and> status_code res \<in> {401, 413}"
  using assms by (auto simp: decide_delivery_def http_exception_def)

text \<open>
  C24: a body over the size limit or without a valid signature is answered 413 or 401 and leaves
  no trace: no event, no envelope, and its text is never decoded.
\<close>

theorem unsigned_delivery_has_no_effect:
  assumes "int (length (rq_body rq)) > st_max_body_bytes cfg
    \<or> \<not> verify_signature (rq_body rq) (rq_signature rq) (st_github_webhook_secret cfg)"
  shows "\<exists>res. status_code res \<in> {401, 413} \<and>
    (\<forall>loads. github_webhook (ex\<lparr>ex_loads := loads\<rparr>) cfg env uid now rq sv = (res, sv))"
  using assms unfolding webhook_refines_spec
  by (cases "int (length (rq_body rq)) > st_max_body_bytes cfg")
     (auto simp: decide_delivery_def http_exception_def apply_nothing)

text \<open>
  The queue grows only by an authorised delivery.  One request leaves the queued envelopes as
  they were or adds one at the end, and then the body was within the limit, signed with the
  secret, decoded to the envelope's payload and passed the dispatch gate, the prompt is the one
  the builder makes for it, and the answer is 202.
\<close>

theorem queue_grows_by_authorised_delivery:
  "case github_webhook ex cfg env uid now rq sv of (res, sv') \<Rightarrow>
     pq_queue (sv_queue sv') = pq_queue (sv_queue sv) \<or>
     (\<exists>info. pq_queue (sv_queue sv') = pq_queue (sv_queue sv) @ [info] \<and>
        accepted_as ex cfg env rq info \<and> status_code res = 202)"
proof -
  obtain res evs x where dec: "decide_delivery ex cfg env uid now rq = (res, evs, x)"
    by (cases "decide_delivery ex cfg env uid now rq")
  show ?thesis
  proof (cases x)
    case None
    with dec show ?thesis
      by (simp add: webhook_refines_spec apply_decision_def submission_queue_def)
  next
    case (Some info)
    with dec have "accepted_as ex cfg env rq info \<and> status_code res = 202"
      using decide_delivery_submits by blast
    with Some dec show ?thesis
      by (simp add: webhook_refines_spec apply_decision_def submission_queue_def pq_queue_enqueue)
  qed
qed

section \<open>Sequences of requests\<close>

text \<open>A run of the handler over requests, with the ids and times drawn for each.\<close>

fun serve :: "externals \<Rightarrow> settings \<Rightarrow> environ \<Rightarrow> (string \<times> rat \<times> request) list \<Rightarrow> 'w service \<Rightarrow> 'w service" where
  "serve ex cfg env [] sv = sv"
| "serve ex cfg env ((uid, now, rq) # rqs) sv =
     serve ex cfg env rqs (snd (github_webhook ex cfg env uid now rq sv))"

lemma handler_queue:
  "pq_queue (sv_queue (snd (github_webhook ex cfg env uid now rq sv))) = pq_queue (sv_queue sv) \<or>
   (\<exists>info. pq_queue (sv_queue (snd (github_webhook ex cfg env uid now rq sv))) = pq_queue (sv_queue sv) @ [info] \<and>
      accepted_as ex cfg env rq info)"
  unfolding webhook_refines_spec
  by (cases "decide_delivery ex cfg env uid now rq")
     (auto simp: apply_decision_def submission_queue_def pq_queue_enqueue
       dest: decide_delivery_submits split: option.splits)

lemma serve_authorised:
  "info \<in> set (pq_queue (sv_queue (serve ex cfg env rqs sv))) \<Longrightarrow>
     info \<in> set (pq_queue (sv_queue sv)) \<or> (\<exists>(uid, now, rq) \<in> set rqs. accepted_as ex cfg env rq info)"
proof (induction rqs arbitrary: sv)
  case (Cons r rqs)
  obtain uid now rq where r: "r = (uid, now, rq)" by (cases r)
  from Cons.IH [of "snd (github_webhook ex cfg env uid now rq sv)"] Cons.prems r
    handler_queue [of ex cfg env uid now rq sv]
  show ?case by auto
qed simp

text \<open>
  C1: whatever is sent to a fresh service, every envelope in its queue stems from a request of
  the run that was signed with the secret and passed the gate.
\<close>

theorem queued_envelopes_are_authorised:
  assumes "pq_queue (sv_queue sv) = []" and "info \<in> set (pq_queue (sv_queue (serve ex cfg env rqs sv)))"
  shows "\<exists>uid now rq. (uid, now, rq) \<in> set rqs \<and> accepted_as ex cfg env rq info"
  using serve_authorised [OF assms(2)] assms(1) by auto

lemma build_prompt_cong:
  assumes "pi_payload a = pi_payload b" "pi_label a = pi_label b" "pi_repo a = pi_repo b"
    "pi_delivery_id a = pi_delivery_id b"
  shows "build_orchestration_prompt a = build_orchestration_prompt b"
proof -
  have issue: "issue_of a = issue_of b" by (simp add: issue_of_def assms)
  then have labels: "issue_labels a = issue_labels b" by (simp add: issue_labels_def)
  then have direct: "is_direct_body a = is_direct_body b" by (simp add: is_direct_body_def assms)
  have empty: "empty_body_prompt a = empty_body_prompt b"
    by (simp add: fun_eq_iff empty_body_prompt_def assms)
  have fields: "workflow_fields a = workflow_fields b"
    by (simp add: fun_eq_iff workflow_fields_def assms)
  have workflow: "workflow_prompt a = workflow_prompt b"
    by (simp add: workflow_prompt_def issue labels fields assms(1))
  show ?thesis
    unfolding build_orchestration_prompt_def issue direct empty workflow ..
qed

section \<open>Direct-body dispatch, end to end\<close>

text \<open>
  What the handler relies on of the envelope's model class: a text field accepts a decoded JSON
  value exactly when it is a string, unchanged.
\<close>

definition text_fields_strict :: "externals \<Rightarrow> bool" where
  "text_fields_strict ex \<longleftrightarrow> (\<forall>v s. ex_str_field ex v = Inr s \<longleftrightarrow> v = PStr s)"

lemma trigger_label_of:
  assumes "trigger_label payload = Inr (PStr s)" and "label_of payload = Inr l"
  shows "l = s"
proof -
  from assms(1) obtain v where v: "py_get payload ''label'' PNone = Inr v"
      "py_get (py_or v (PDict [])) ''name'' (PStr '''') = Inr (PStr s)"
    by (auto simp: trigger_label_def rbind_eq_Inr)
  then obtain kvs where kvs: "py_or v (PDict []) = PDict kvs" by (auto simp: py_get_Inr)
  with v assms(2) show ?thesis
    by (auto simp: label_of_def nested_get_def dict_get_def split: option.splits)
qed

lemma accepted_direct_body:
  assumes strict: "text_fields_strict ex" and acc: "accepted_as ex cfg env rq info"
    and strip: "py_strip (pi_label info) = pi_label info"
  shows "\<exists>direct. is_direct_body info = Inr direct \<and>
    (if direct
     then \<exists>sender. sender_of (pi_payload info) = Inr sender \<and>
            py_lower sender \<in> direct_body_allowed_senders env
     else \<exists>p. pi_prompt info = Some p \<and> workflow_prompt info = Inr p)"
proof -
  from acc have gate: "should_dispatch env (py_lower (header (rq_event rq))) (pi_payload info) = Inr (True, ''allowed'')"
    and lab: "trigger_label (pi_payload info) = Inr (PStr (pi_label info))"
    using strict by (auto simp: accepted_as_def text_fields_strict_def)
  from gate obtain sender label names where
      s: "sender_of (pi_payload info) = Inr sender" and l: "label_of (pi_payload info) = Inr label"
      and n: "issue_label_names (pi_payload info) = Inr names"
      and allow: "carries_direct_body label names \<longrightarrow> py_lower sender \<in> direct_body_allowed_senders env"
    unfolding should_dispatch_allowed_iff by auto
  have label: "label = pi_label info" by (rule trigger_label_of [OF lab l])
  note direct = is_direct_body_gate [OF n strip]
  from acc obtain p where p: "pi_prompt info = Some p"
      "build_orchestration_prompt (info\<lparr>pi_prompt := None\<rparr>) = Inr p"
    by (auto simp: accepted_as_def)
  have "build_orchestration_prompt info = Inr p"
    using p(2) build_prompt_cong [of "info\<lparr>pi_prompt := None\<rparr>" info] by simp
  with direct s allow label p(1) show ?thesis
    by (cases "carries_direct_body (pi_label info) names") (auto simp: build_orchestration_prompt_def)
qed

text \<open>
  C2: for labels without surrounding whitespace, an issue body reaches the agent only from an
  allowlisted login, through handler, gate, builder and queue.  For every queued envelope of a run
  whose triggering label is unpadded, either the envelope is a direct-body one and its sender's
  login is on the allowlist, or its prompt is the workflow template.  (A padded label does not keep
  to this: see \<open>padded_label_bypasses_allowlist\<close> in \<open>Prompt_Builder\<close>.)
\<close>

theorem direct_body_end_to_end:
  assumes "text_fields_strict ex" and "pq_queue (sv_queue sv) = []"
    and "info \<in> set (pq_queue (sv_queue (serve ex cfg env rqs sv)))"
    and "py_strip (pi_label info) = pi_label info"
  shows "\<exists>direct. is_direct_body info = Inr direct \<and>
    (if direct
     then \<exists>sender. sender_of (pi_payload info) = Inr sender \<and>
            py_lower sender \<in> direct_body_allowed_senders env
     else \<exists>p. pi_prompt info = Some p \<and> workflow_prompt info = Inr p)"
proof -
  obtain rq where "accepted_as ex cfg env rq info"
    using serve_authorised [OF assms(3)] assms(2) by auto
  from accepted_direct_body [OF assms(1) this assms(4)] show ?thesis .
qed


section \<open>Integrity of the event stream\<close>

lemma sse_keywords:
  "char_of (10::nat) \<notin> set ''id: ''" "char_of (10::nat) \<notin> set ''event: ''"
  "char_of (10::nat) \<notin> set ''data: ''"
  by code_simp+

text \<open>
  C35: an event becomes exactly one frame of the stream.  Its data serialises when it holds no
  opaque object, and then the frame is the three lines \<open>id\<close>, \<open>event\<close> and \<open>data\<close> and the
  blank line that ends it: text in the payload cannot end a line or forge another frame.
\<close>

theorem sse_frame_is_one_frame:
  assumes "char_of (10::nat) \<notin> set (ev_id e)" and "char_of (10::nat) \<notin> set (ev_type e)"
    and "printable_floats (PDict (ev_data e))"
  shows "case sse_frame (Some e) of
      Inr frame \<Rightarrow> plain (PDict (ev_data e)) \<and>
        (\<exists>json. json_dumps json_compact 0 (PDict (ev_data e)) = Inr json \<and>
           py_split (char_of (10::nat)) frame =
             [''id: '' @ ev_id e, ''event: '' @ ev_type e, ''data: '' @ json, '''', ''''])
    | Inl err \<Rightarrow> \<not> plain (PDict (ev_data e))"
proof (cases "json_dumps json_compact 0 (PDict (ev_data e))")
  case (Inl err)
  then have "\<not> plain (PDict (ev_data e))"
    using json_dumps_ok_iff [of json_compact 0 "PDict (ev_data e)"] by (auto simp: is_ok_def)
  with Inl show ?thesis by (simp add: sse_frame_def del: json_dumps.simps plain.simps)
next
  case (Inr json)
  let ?nl = "char_of (10::nat)"
  have plain: "plain (PDict (ev_data e))"
    using Inr json_dumps_ok_iff [of json_compact 0 "PDict (ev_data e)"]
    by (simp add: is_ok_def json_compact_def del: plain.simps json_dumps.simps)
  have "printable json"
    by (rule printable_json_dumps [OF Inr]) (use assms(3) in \<open>auto simp: json_compact_def code_def\<close>)
  then have "?nl \<notin> set json" by (rule printable_no_newline)
  then have lines: "?nl \<notin> set (''id: '' @ ev_id e)" "?nl \<notin> set (''event: '' @ ev_type e)"
      "?nl \<notin> set (''data: '' @ json)"
    using assms(1,2) sse_keywords by simp_all
  have "py_split ?nl ((''id: '' @ ev_id e) @ ?nl # (''event: '' @ ev_type e) @ ?nl # (''data: '' @ json) @ ?nl # [?nl]) =
      [''id: '' @ ev_id e, ''event: '' @ ev_type e, ''data: '' @ json, '''', '''']"
    by (simp only: py_split_sep [OF lines(1)] py_split_sep [OF lines(2)] py_split_sep [OF lines(3)]) simp
  with Inr plain show ?thesis
    by (simp add: sse_frame_def LF_def del: json_dumps.simps plain.simps)
qed

lemma plain_part_of: "part_of payload a b = Inr w \<Longrightarrow> plain payload \<Longrightarrow> plain w"
  by (auto simp: part_of_def rbind_eq_Inr dest!: plain_py_get)

lemma plain_trigger_label: "trigger_label payload = Inr w \<Longrightarrow> plain payload \<Longrightarrow> plain w"
  by (auto simp: trigger_label_def rbind_eq_Inr py_or_def dict_get_def dest!: plain_py_get split: if_splits)

lemma decide_payload_plain:
  assumes "decide_payload ex env uid now d ev payload = (res, evs, x)" and "plain payload"
    and "(t, dat) \<in> set evs"
  shows "plain (PDict dat)"
  using assms
  by (auto simp: decide_payload_def Let_def received_data_def filtered_data_def accepted_data_def
      rbind_eq_Inr rmap_eq_Inr
      dest!: plain_py_get plain_part_of plain_trigger_label
      split: sum.splits prod.splits bool.splits)

text \<open>
  Every event the webhook handler records can be streamed.  When the decoded body is a plain
  JSON value, the handler's effect on the store is a sequence of emits whose data all serialise.
\<close>

theorem webhook_events_streamable:
  assumes "\<And>payload. ex_loads ex (rq_body rq) = Inr payload \<Longrightarrow> plain payload"
    and "github_webhook ex cfg env uid now rq sv = (res, sv')"
  shows "\<exists>evs. sv_store sv' = emits evs (sv_store sv) \<and>
    list_all (\<lambda>(t, dat). is_ok (json_dumps json_compact 0 (PDict dat))) evs"
proof -
  obtain res0 evs x where dec: "decide_delivery ex cfg env uid now rq = (res0, evs, x)"
    by (cases "decide_delivery ex cfg env uid now rq")
  have "plain (PDict dat)" if "(t, dat) \<in> set evs" for t dat
    using dec that assms(1)
    by (auto simp: decide_delivery_def simp del: plain.simps dest: decide_payload_plain
        split: if_splits sum.splits)
  moreover have "plain (PDict dat)" if "(t, dat) \<in> set (submission_events x (sv_queue sv))" for t dat
    using that
    by (auto simp: submission_events_def queued_data_def duplicate_data_def split: option.splits if_splits)
  ultimately have "list_all (\<lambda>(t, dat). is_ok (json_dumps json_compact 0 (PDict dat)))
      (evs @ submission_events x (sv_queue sv))"
    by (auto simp: list_all_iff json_dumps_ok_iff simp del: plain.simps json_dumps.simps)
  moreover have "sv_store sv' = emits (evs @ submission_events x (sv_queue sv)) (sv_store sv)"
    using assms(2) dec by (auto simp: webhook_refines_spec apply_decision_def)
  ultimately show ?thesis by blast
qed

section \<open>A delivery\<close>

definition demo_payload :: pyval where
  "demo_payload = PDict
     [(''action'', PStr ''labeled''), (''label'', PDict [(''name'', PStr ''orchestration:plan'')]),
      (''issue'', PDict [(''labels'', PList [])]),
      (''repository'', PDict [(''full_name'', PStr ''o/r'')]),
      (''sender'', PDict [(''login'', PStr ''octocat'')])]"

definition demo_ex :: externals where
  "demo_ex = \<lparr>ex_loads = (\<lambda>_. Inr demo_payload),
     ex_str_field = (\<lambda>v. case v of PStr s \<Rightarrow> Inr s | _ \<Rightarrow> Inl (PyExc ValidationError ''str''))\<rparr>"

definition demo_cfg :: settings where
  "demo_cfg = Settings ''0.0.0.0'' 8080 ''k'' 1000 ''info''"

definition demo_rq :: request where
  "demo_rq = \<lparr>rq_body = [], rq_delivery = Some ''d1'', rq_event = Some ''issues'',
     rq_signature = Some (compute_signature [] ''k'')\<rparr>"

definition demo_service :: "unit service" where
  "demo_service = \<lparr>sv_queue = PromptQueue 4, sv_store = EventStore 9 None 7 ''0a1b2c3d'' (\<lambda>_. 0) ()\<rparr>"

lemma demo_gate: "should_dispatch (\<lambda>_. None) ''issues'' demo_payload = Inr (True, ''allowed'')"
proof -
  have "action_of demo_payload = Inr ''labeled''" "sender_of demo_payload = Inr ''octocat''"
    "label_of demo_payload = Inr ''orchestration:plan''" "issue_label_names demo_payload = Inr []"
    "\<not> is_bot_actor ''octocat''" "is_workflow_label ''orchestration:plan''"
    "py_lower ''issues'' = ''issues''" "\<not> carries_direct_body ''orchestration:plan'' []"
    by code_simp+
  then show ?thesis unfolding should_dispatch_allowed_iff by simp
qed

definition demo_envelope :: "string \<Rightarrow> rat \<Rightarrow> prompt_info" where
  "demo_envelope uid now = PromptInfo uid now ''d1'' ''o/r'' ''issues'' ''labeled'' ''orchestration:plan'' demo_payload"

lemma demo_prompt: "\<exists>p. build_orchestration_prompt (demo_envelope uid now) = Inr p"
proof -
  let ?i = "demo_envelope ''u'' 0"
  have "is_direct_body ?i = Inr False" and labels: "issue_labels ?i = Inr []"
    and issue: "issue_of ?i = Inr [(''labels'', PList [])]"
    by code_simp+
  moreover have "is_ok (json_dumps (json_indented True) 0 (pi_payload ?i))"
    by (subst json_dumps_ok_iff) (simp add: demo_envelope_def PromptInfo_def demo_payload_def)
  ultimately have "\<exists>p. build_orchestration_prompt ?i = Inr p"
    by (auto simp: build_orchestration_prompt_def workflow_prompt_Inr is_ok_iff)
  moreover have "build_orchestration_prompt (demo_envelope uid now) = build_orchestration_prompt ?i"
    by (rule build_prompt_cong) (simp_all add: demo_envelope_def PromptInfo_def)
  ultimately show ?thesis by simp
qed

lemma demo_decision:
  "\<exists>res evs p. decide_delivery demo_ex demo_cfg (\<lambda>_. None) uid now demo_rq =
     (res, evs, Some ((demo_envelope uid now)\<lparr>pi_prompt := Some p\<rparr>))"
proof -
  obtain p where p: "build_orchestration_prompt (demo_envelope uid now) = Inr p"
    using demo_prompt by blast
  have parts: "part_of demo_payload ''repository'' ''full_name'' = Inr (PStr ''o/r'')"
    "part_of demo_payload ''sender'' ''login'' = Inr (PStr ''octocat'')"
    "py_get demo_payload ''action'' (PStr '''') = Inr (PStr ''labeled'')"
    "trigger_label demo_payload = Inr (PStr ''orchestration:plan'')" "py_lower ''issues'' = ''issues''"
    by code_simp+
  have env: "make_envelope demo_ex uid now ''d1'' ''issues'' demo_payload =
      Inr ((demo_envelope uid now)\<lparr>pi_prompt := Some p\<rparr>)"
    using p by (simp add: make_envelope_def parts demo_ex_def Let_def demo_envelope_def)
  have "verify_signature [] (Some (compute_signature [] ''k'')) ''k''" by (rule verify_computed)
  then show ?thesis
    by (simp add: decide_delivery_def demo_rq_def demo_cfg_def Settings_def parts demo_ex_def [THEN arg_cong, of ex_loads]
        decide_payload_def demo_gate env Let_def) blast
qed

lemma demo_accepted:
  "\<exists>info. accepted_as demo_ex demo_cfg (\<lambda>_. None) demo_rq info \<and> pi_label info = ''orchestration:plan'' \<and>
     pq_queue (sv_queue (serve demo_ex demo_cfg (\<lambda>_. None) [(''u'', 1, demo_rq)] demo_service)) = [info]"
proof -
  obtain res evs p where dec: "decide_delivery demo_ex demo_cfg (\<lambda>_. None) ''u'' 1 demo_rq =
      (res, evs, Some ((demo_envelope ''u'' 1)\<lparr>pi_prompt := Some p\<rparr>))"
    using demo_decision by blast
  from decide_delivery_submits [OF dec] show ?thesis
    by (intro exI [of _ "(demo_envelope ''u'' 1)\<lparr>pi_prompt := Some p\<rparr>"])
       (simp add: webhook_refines_spec dec apply_decision_def submission_queue_def demo_service_def
         enqueue_def PromptQueue_def demo_envelope_def PromptInfo_def Let_def)
qed

theorem unsigned_delivery_has_no_effect_witness:
  "\<exists>res. status_code res \<in> {401, 413} \<and>
    (\<forall>loads. github_webhook (demo_ex\<lparr>ex_loads := loads\<rparr>) demo_cfg (\<lambda>_. None) ''u'' 1
       (demo_rq\<lparr>rq_signature := Some ''sha256=00''\<rparr>) demo_service = (res, demo_service))"
proof -
  have "bytes_fromhex (drop (length sig_prefix) ''sha256=00'') = Some [0]" by code_simp
  moreover have "hmac_sha256 k b \<noteq> [0]" for k b
    using length_hmac_sha256 [of k b] by auto
  ultimately have "\<not> verify_signature [] (Some ''sha256=00'') ''k''"
    by (simp add: verify_signature_def)
  then show ?thesis
    by (intro unsigned_delivery_has_no_effect) (simp add: demo_rq_def demo_cfg_def Settings_def)
qed

theorem queued_envelopes_are_authorised_witness:
  "\<exists>info uid now rq. pi_label info = ''orchestration:plan'' \<and> (uid, now, rq) \<in> set [(''u'', 1, demo_rq)] \<and>
     accepted_as demo_ex demo_cfg (\<lambda>_. None) rq info"
proof -
  obtain info where i: "pi_label info = ''orchestration:plan''"
      "pq_queue (sv_queue (serve demo_ex demo_cfg (\<lambda>_. None) [(''u'', 1, demo_rq)] demo_service)) = [info]"
    using demo_accepted by blast
  have "pq_queue (sv_queue demo_service) = []" by (simp add: demo_service_def PromptQueue_def)
  from queued_envelopes_are_authorised [OF this, of info demo_ex demo_cfg "\<lambda>_. None" "[(''u'', 1, demo_rq)]"] i
  show ?thesis by auto
qed

text \<open>A direct-body delivery of an allowlisted sender.\<close>

definition body_payload :: pyval where
  "body_payload = PDict
     [(''action'', PStr ''labeled''),
      (''label'', PDict [(''name'', PStr ''gh-issue-tracking:direct-body'')]),
      (''issue'', PDict [(''labels'', PList []), (''body'', PStr ''any text'')]),
      (''repository'', PDict [(''full_name'', PStr ''o/r'')]),
      (''sender'', PDict [(''login'', PStr ''Octocat'')])]"

abbreviation allowlist :: environ where
  "allowlist \<equiv> \<lambda>_. Some ''octocat,hubot''"

abbreviation body_ex :: externals where
  "body_ex \<equiv> demo_ex\<lparr>ex_loads := \<lambda>_. Inr body_payload\<rparr>"

lemma body_gate: "should_dispatch allowlist ''issues'' body_payload = Inr (True, ''allowed'')"
proof -
  have "action_of body_payload = Inr ''labeled''" "sender_of body_payload = Inr ''Octocat''"
    "label_of body_payload = Inr ''gh-issue-tracking:direct-body''" "issue_label_names body_payload = Inr []"
    "\<not> is_bot_actor ''Octocat''" "is_workflow_label ''gh-issue-tracking:direct-body''"
    "py_lower ''issues'' = ''issues''" "py_lower ''Octocat'' \<in> direct_body_allowed_senders allowlist"
    by code_simp+
  then show ?thesis unfolding should_dispatch_allowed_iff by simp
qed

lemma body_decision:
  "\<exists>res evs info. decide_delivery body_ex demo_cfg allowlist uid now demo_rq = (res, evs, Some info) \<and>
     pi_label info = ''gh-issue-tracking:direct-body'' \<and> pi_payload info = body_payload"
proof -
  let ?l = "''gh-issue-tracking:direct-body''"
  let ?i = "PromptInfo uid now ''d1'' ''o/r'' ''issues'' ''labeled'' ?l body_payload"
  have parts: "part_of body_payload ''repository'' ''full_name'' = Inr (PStr ''o/r'')"
    "part_of body_payload ''sender'' ''login'' = Inr (PStr ''Octocat'')"
    "py_get body_payload ''action'' (PStr '''') = Inr (PStr ''labeled'')"
    "trigger_label body_payload = Inr (PStr ?l)" "py_lower ''issues'' = ''issues''"
    by code_simp+
  let ?j = "PromptInfo ''u'' 0 ''d1'' ''o/r'' ''issues'' ''labeled'' ?l body_payload"
  have "build_orchestration_prompt ?j = Inr ''any text''" by code_simp
  moreover have "build_orchestration_prompt ?i = build_orchestration_prompt ?j"
    by (rule build_prompt_cong) (simp_all add: PromptInfo_def)
  ultimately have env: "make_envelope body_ex uid now ''d1'' ''issues'' body_payload =
      Inr (?i\<lparr>pi_prompt := Some ''any text''\<rparr>)"
    by (simp add: make_envelope_def parts demo_ex_def Let_def)
  have "verify_signature [] (Some (compute_signature [] ''k'')) ''k''" by (rule verify_computed)
  then show ?thesis
    by (simp add: decide_delivery_def demo_rq_def demo_cfg_def Settings_def parts
        decide_payload_def body_gate env Let_def PromptInfo_def)
qed

theorem direct_body_end_to_end_witness:
  "\<exists>info sender. info \<in> set (pq_queue (sv_queue
       (serve body_ex demo_cfg allowlist [(''u'', 1, demo_rq)] demo_service))) \<and>
     is_direct_body info = Inr True \<and> sender_of (pi_payload info) = Inr sender \<and>
     py_lower sender \<in> direct_body_allowed_senders allowlist"
proof -
  obtain res evs info where dec: "decide_delivery body_ex demo_cfg allowlist ''u'' 1 demo_rq = (res, evs, Some info)"
      and i: "pi_label info = ''gh-issue-tracking:direct-body''" "pi_payload info = body_payload"
    using body_decision by blast
  have queued: "info \<in> set (pq_queue (sv_queue
      (serve body_ex demo_cfg allowlist [(''u'', 1, demo_rq)] demo_service)))"
    by (simp add: webhook_refines_spec dec apply_decision_def submission_queue_def demo_service_def
        enqueue_def PromptQueue_def Let_def)
  have strict: "text_fields_strict body_ex"
    by (auto simp: text_fields_strict_def demo_ex_def split: pyval.splits)
  have empty: "pq_queue (sv_queue demo_service) = []" by (simp add: demo_service_def PromptQueue_def)
  have "py_strip ''gh-issue-tracking:direct-body'' = ''gh-issue-tracking:direct-body''"
    "carries_direct_body ''gh-issue-tracking:direct-body'' []" "issue_label_names body_payload = Inr []"
    by code_simp+
  then have strip: "py_strip (pi_label info) = pi_label info" and direct: "is_direct_body info = Inr True"
    using is_direct_body_gate [of info "[]"] i by simp_all
  from direct_body_end_to_end [OF strict empty queued strip] direct queued show ?thesis by auto
qed

theorem sse_frame_is_one_frame_witness:
  "\<exists>frame json. sse_frame (Some \<lparr>ev_id = ''7-x-1'', ev_type = ''agent_message_chunk'', ev_ts = 0,
       ev_data = [(''text'', PStr LF)]\<rparr>) = Inr frame \<and>
     py_split (char_of (10::nat)) frame =
       [''id: 7-x-1'', ''event: agent_message_chunk'', ''data: '' @ json, '''', '''']"
proof -
  let ?e = "\<lparr>ev_id = ''7-x-1'', ev_type = ''agent_message_chunk'', ev_ts = 0, ev_data = [(''text'', PStr LF)]\<rparr>"
  have "char_of (10::nat) \<notin> set (ev_id ?e)" "char_of (10::nat) \<notin> set (ev_type ?e)"
    by (simp only: event.select_convs; code_simp)+
  from sse_frame_is_one_frame [OF this] show ?thesis
    by (auto split: sum.splits)
qed

theorem webhook_events_streamable_witness:
  "\<exists>(sv' :: unit service) evs. sv_store sv' = emits evs (sv_store demo_service) \<and> sv_queue sv' \<noteq> sv_queue demo_service \<and>
    list_all (\<lambda>(t, dat). is_ok (json_dumps json_compact 0 (PDict dat))) evs"
proof -
  obtain r1 sv1 where first: "github_webhook demo_ex demo_cfg (\<lambda>_. None) ''u'' 1 demo_rq demo_service = (r1, sv1)"
    by fastforce
  have changed: "sv_queue sv1 \<noteq> sv_queue demo_service"
    using demo_accepted first by (auto simp: demo_service_def PromptQueue_def)
  have "ex_loads demo_ex (rq_body demo_rq) = Inr payload \<Longrightarrow> plain payload" for payload
    by (auto simp: demo_ex_def demo_payload_def)
  note ok = this
  obtain evs where "sv_store sv1 = emits evs (sv_store demo_service)"
      "list_all (\<lambda>(t, dat). is_ok (json_dumps json_compact 0 (PDict dat))) evs"
    using webhook_events_streamable [OF ok first] by blast
  then show ?thesis using changed by (intro exI [of _ sv1] exI [of _ evs] conjI)
qed

end
