(* ===== verification/Event_Bus.thy ===== *)
theory Event_Bus
  imports Event_Store "HOL-Library.Multiset"
begin

text \<open>
  The event store under threads.  \<open>emit\<close> is not atomic: the id is drawn from the counter
  before the lock is taken, the append and the copy of the subscriber list are one critical
  section, and the puts into the copied queues come after it, each on its own.  Subscribers take
  events, register and leave at any point in between.  A step of \<open>bus_step\<close> is one such atomic
  action of some thread; any number of emits may be under way.  The ghost fields record what
  was appended, what each queue was ever given, and the state at its registration.
\<close>

record 'w bus =
  store :: "'w event_store"
  drafts :: "event multiset"                   \<comment> \<open>events made, not yet appended\<close>
  pending :: "(event \<times> nat list) multiset"    \<comment> \<open>appended, puts still to do\<close>
  hist :: "event list"                         \<comment> \<open>ghost: every event appended, in order\<close>
  got :: "nat \<Rightarrow> event list"                   \<comment> \<open>ghost: every event ever put in a queue\<close>
  seen_at :: "nat \<Rightarrow> nat"                      \<comment> \<open>ghost: length of \<open>hist\<close> at registration\<close>
  overflown :: "nat set"                       \<comment> \<open>ghost: queues that refused an event\<close>

definition bus_init :: "'w event_store \<Rightarrow> 'w bus" where
  "bus_init s =
     \<lparr>store = s, drafts = {#}, pending = {#}, hist = [], got = (\<lambda>_. []), seen_at = (\<lambda>_. 0),
      overflown = {}\<rparr>"

inductive bus_step :: "'w bus \<Rightarrow> 'w bus \<Rightarrow> bool" where
  make: "bus_step b
     (b\<lparr>store := (store b)\<lparr>es_counter := Suc (es_counter (store b))\<rparr>,
        drafts := add_mset (make_event (store b) t d) (drafts b)\<rparr>)"
| append: "e \<in># drafts b \<Longrightarrow> bus_step b
     (b\<lparr>store := (store b)\<lparr>es_events := deque_append (es_maxlen (store b)) (es_events (store b)) e\<rparr>,
        drafts := drafts b - {#e#},
        pending := add_mset (e, es_subscribers (store b)) (pending b),
        hist := hist b @ [e]\<rparr>)"
| put: "(e, q # qs) \<in># pending b \<Longrightarrow> length (es_queues (store b) q) < QUEUE_MAXSIZE \<Longrightarrow> bus_step b
     (b\<lparr>store := (store b)\<lparr>es_queues := deliver e q (es_queues (store b))\<rparr>,
        pending := add_mset (e, qs) (pending b - {#(e, q # qs)#}),
        got := (got b)(q := got b q @ [e])\<rparr>)"
| full: "(e, q # qs) \<in># pending b \<Longrightarrow> \<not> length (es_queues (store b) q) < QUEUE_MAXSIZE \<Longrightarrow> bus_step b
     (b\<lparr>pending := add_mset (e, qs) (pending b - {#(e, q # qs)#}),
        overflown := insert q (overflown b)\<rparr>)"
| finish: "(e, []) \<in># pending b \<Longrightarrow> bus_step b
     (b\<lparr>store := run_sink e (store b), pending := pending b - {#(e, [])#}\<rparr>)"
| get_next: "bus_step b (b\<lparr>store := snd (subscriber_next sub (store b))\<rparr>)"
| register: "subscribe k (store b) = (sub, s') \<Longrightarrow> bus_step b
     (b\<lparr>store := s',
        got := (got b)(sub_q sub := es_queues s' (sub_q sub)),
        seen_at := (seen_at b)(sub_q sub := length (hist b)),
        overflown := (if QUEUE_MAXSIZE < length (es_events (store b))
                      then insert (sub_q sub) (overflown b) else overflown b)\<rparr>)"
| leave: "bus_step b (b\<lparr>store := snd (subscriber_close sub (store b))\<rparr>)"

inductive_cases bus_stepE: "bus_step b c"

inductive bus_reach :: "'w bus \<Rightarrow> bool" where
  init: "bus_reach (bus_init (EventStore m sink ep u clk w))"
| step: "bus_reach b \<Longrightarrow> bus_step b c \<Longrightarrow> bus_reach c"

section \<open>What a queue is still owed\<close>

text \<open>The appended events whose put into queue \<open>q\<close> is still to come.\<close>

definition owed :: "'w bus \<Rightarrow> nat \<Rightarrow> event multiset" where
  "owed b q = image_mset fst (filter_mset (\<lambda>(e, qs). q \<in> set qs) (pending b))"

definition due :: "'w bus \<Rightarrow> nat \<Rightarrow> event list" where
  "due b q =
     last_n (es_maxlen (store b)) (take (seen_at b q) (hist b)) @ drop (seen_at b q) (hist b)"

text \<open>
  The invariant in three parts: registered and pending queues are objects made before and listed
  once; the ring is the newest part of the history; every registered queue that never overflowed
  has got, or is owed, exactly what it is due.
\<close>

definition pend_ok :: "nat \<Rightarrow> event \<times> nat list \<Rightarrow> bool" where
  "pend_ok n p \<longleftrightarrow> distinct (snd p) \<and> list_all (\<lambda>q. q < n) (snd p)"

definition bus_shape :: "'w bus \<Rightarrow> bool" where
  "bus_shape b \<longleftrightarrow>
     pend_ok (es_fresh (store b)) (undefined, es_subscribers (store b)) \<and>
     (\<forall>p \<in># pending b. pend_ok (es_fresh (store b)) p)"

definition bus_ring :: "'w bus \<Rightarrow> bool" where
  "bus_ring b \<longleftrightarrow>
     es_events (store b) = last_n (es_maxlen (store b)) (hist b) \<and>
     (\<forall>q. seen_at b q \<le> length (hist b))"

definition balanced :: "'w bus \<Rightarrow> nat \<Rightarrow> bool" where
  "balanced b q \<longleftrightarrow> mset (got b q) + owed b q = mset (due b q)"

definition bus_count :: "'w bus \<Rightarrow> bool" where
  "bus_count b \<longleftrightarrow>
     (\<forall>q \<in> set (es_subscribers (store b)). q \<notin> overflown b \<longrightarrow> balanced b q)"

definition bus_inv :: "'w bus \<Rightarrow> bool" where
  "bus_inv b \<longleftrightarrow> bus_shape b \<and> bus_ring b \<and> bus_count b"

lemma pend_ok_simps [simp]:
  "pend_ok n (e, []) = True"
  "pend_ok n (e, q # qs) \<longleftrightarrow> q \<notin> set qs \<and> q < n \<and> pend_ok n (e, qs)"
  by (auto simp: pend_ok_def)

lemma pend_ok_fst: "pend_ok n (e, qs) \<Longrightarrow> pend_ok n (e', qs)"
  by (simp add: pend_ok_def)

lemma pend_ok_Suc: "pend_ok n p \<Longrightarrow> pend_ok (Suc n) p"
  by (auto simp: pend_ok_def list_all_iff less_SucI)

lemma pend_ok_remove1: "pend_ok n (e, qs) \<Longrightarrow> pend_ok n (e, remove1 q qs)"
  using set_remove1_subset [of q qs] by (auto simp: pend_ok_def list_all_iff)

lemma pend_ok_snoc: "pend_ok n (e, qs) \<Longrightarrow> pend_ok (Suc n) (e, qs @ [n])"
  by (auto simp: pend_ok_def list_all_iff less_SucI)

lemma bus_inv_init: "bus_inv (bus_init (EventStore m sink ep u clk w))"
  by (simp add: bus_inv_def bus_shape_def bus_ring_def bus_count_def bus_init_def EventStore_def)

section \<open>Preservation\<close>

lemma bus_shape_step:
  assumes "bus_step b c" and shape: "bus_shape b"
  shows "bus_shape c"
  using assms(1)
proof cases
  case (append e)
  with shape show ?thesis by (auto simp: bus_shape_def intro: pend_ok_fst)
next
  case (put e q qs)
  with shape show ?thesis by (auto simp: bus_shape_def dest: in_diffD bspec)
next
  case (full e q qs)
  with shape show ?thesis by (auto simp: bus_shape_def dest: in_diffD bspec)
next
  case (finish e)
  with shape show ?thesis by (auto simp: bus_shape_def dest: in_diffD)
next
  case (get_next sub)
  with shape show ?thesis by (simp add: bus_shape_def subscriber_next_def split: list.splits)
next
  case (register k sub s')
  with shape show ?thesis
    by (auto simp: bus_shape_def subscribe_def Let_def intro: pend_ok_snoc)
       (blast intro: pend_ok_Suc)
next
  case (leave sub)
  with shape show ?thesis by (auto simp: bus_shape_def subscriber_close_def pend_ok_remove1)
qed (use shape in \<open>simp add: bus_shape_def\<close>)

lemma bus_ring_step:
  assumes "bus_step b c" and ring: "bus_ring b"
  shows "bus_ring c"
  using assms(1)
proof cases
  case (append e)
  with ring show ?thesis
    by (simp add: bus_ring_def deque_append_last_n last_n_last_n_append le_SucI)
next
  case (get_next sub)
  with ring show ?thesis by (simp add: bus_ring_def subscriber_next_def split: list.splits)
next
  case (register k sub s')
  with ring show ?thesis by (auto simp: bus_ring_def subscribe_def Let_def)
next
  case (leave sub)
  with ring show ?thesis by (simp add: bus_ring_def subscriber_close_def)
qed (use ring in \<open>simp_all add: bus_ring_def\<close>)

lemma balanced_frame:
  assumes "balanced b q"
    and "got c q = got b q" "owed c q = owed b q" "due c q = due b q"
  shows "balanced c q"
  using assms by (simp add: balanced_def)

lemma owed_append:
  "pending c = add_mset (e, qs) (pending b) \<Longrightarrow>
   owed c q = (if q \<in> set qs then add_mset e (owed b q) else owed b q)"
  by (simp add: owed_def)

lemma owed_done:
  assumes "(e, []) \<in># pending b" and "pending c = pending b - {#(e, [])#}"
  shows "owed c q = owed b q"
proof -
  obtain P where "pending b = add_mset (e, []) P" using assms(1) by (metis insert_DiffM)
  with assms(2) show ?thesis by (simp add: owed_def)
qed

text \<open>A put moves one event from what a queue is owed to what it got.\<close>

lemma owed_put:
  assumes "(e, q # qs) \<in># pending b" and "q \<notin> set qs"
    and "pending c = add_mset (e, qs) (pending b - {#(e, q # qs)#})"
  shows "owed b r = (if r = q then add_mset e (owed c r) else owed c r)"
proof -
  obtain P where "pending b = add_mset (e, q # qs) P"
    using assms(1) by (metis insert_DiffM)
  with assms(2,3) show ?thesis by (simp add: owed_def)
qed

lemma owed_fresh:
  assumes "bus_shape b"
  shows "owed b (es_fresh (store b)) = {#}"
proof -
  have "filter_mset (\<lambda>(e, qs). es_fresh (store b) \<in> set qs) (pending b) = {#}"
    using assms by (fastforce simp: bus_shape_def pend_ok_def list_all_iff)
  then show ?thesis by (simp add: owed_def)
qed

lemma due_append:
  "bus_ring b \<Longrightarrow> hist c = hist b @ [e] \<Longrightarrow> seen_at c = seen_at b \<Longrightarrow>
   es_maxlen (store c) = es_maxlen (store b) \<Longrightarrow> due c q = due b q @ [e]"
  by (simp add: due_def bus_ring_def)

lemma bus_count_put:
  assumes count: "bus_count b" and shape: "bus_shape b" and p: "(e, q # qs) \<in># pending b"
    and c: "pending c = add_mset (e, qs) (pending b - {#(e, q # qs)#})"
      "hist c = hist b" "seen_at c = seen_at b" "es_maxlen (store c) = es_maxlen (store b)"
      "es_subscribers (store c) = es_subscribers (store b)"
    and gives: "got c = (got b)(q := got b q @ [e]) \<and> overflown c = overflown b \<or>
      got c = got b \<and> overflown c = insert q (overflown b)"
  shows "bus_count c"
  unfolding bus_count_def
proof (intro ballI impI)
  fix r assume r: "r \<in> set (es_subscribers (store c))" "r \<notin> overflown c"
  have "pend_ok (es_fresh (store b)) (e, q # qs)"
    using shape p by (auto simp only: bus_shape_def)
  then have q: "q \<notin> set qs" by simp
  have owed: "owed b r = (if r = q then add_mset e (owed c r) else owed c r)"
    by (rule owed_put [OF p q c(1)])
  have due: "due c r = due b r" using c by (simp add: due_def)
  have "r \<notin> overflown b" using gives r(2) by auto
  then have bal: "balanced b r" using count r(1) c(5) by (simp add: bus_count_def)
  show "balanced c r"
  proof (cases "r = q")
    case True
    with gives r(2) have "got c q = got b q @ [e]" by auto
    with bal owed due True show ?thesis by (simp add: balanced_def)
  next
    case False
    with gives have "got c r = got b r" by auto
    with bal owed due False show ?thesis by (simp add: balanced_def)
  qed
qed

lemma bus_count_append:
  assumes count: "bus_count b" and ring: "bus_ring b"
    and c: "pending c = add_mset (e, es_subscribers (store b)) (pending b)"
      "hist c = hist b @ [e]" "seen_at c = seen_at b" "got c = got b" "overflown c = overflown b"
      "es_maxlen (store c) = es_maxlen (store b)"
      "es_subscribers (store c) = es_subscribers (store b)"
  shows "bus_count c"
  unfolding bus_count_def
proof (intro ballI impI)
  fix q assume q: "q \<in> set (es_subscribers (store c))" "q \<notin> overflown c"
  then have "balanced b q" using count c by (simp add: bus_count_def)
  moreover have "owed c q = add_mset e (owed b q)" using owed_append [OF c(1), of q] q(1) c(7) by simp
  moreover have "due c q = due b q @ [e]" by (rule due_append [OF ring c(2,3,6)])
  ultimately show "balanced c q" by (simp add: balanced_def c(4))
qed

lemma bus_count_register:
  assumes count: "bus_count b" and ring: "bus_ring b" and shape: "bus_shape b"
    and sub: "subscribe k (store b) = (sub, s')"
    and c: "store c = s'" "pending c = pending b" "hist c = hist b"
      "got c = (got b)(sub_q sub := es_queues s' (sub_q sub))"
      "seen_at c = (seen_at b)(sub_q sub := length (hist b))"
      "overflown c = (if QUEUE_MAXSIZE < length (es_events (store b))
                      then insert (sub_q sub) (overflown b) else overflown b)"
  shows "bus_count c"
  unfolding bus_count_def
proof (intro ballI impI)
  fix r assume r: "r \<in> set (es_subscribers (store c))" "r \<notin> overflown c"
  let ?q = "es_fresh (store b)"
  have q: "sub_q sub = ?q" and s': "es_subscribers s' = es_subscribers (store b) @ [?q]"
    "es_maxlen s' = es_maxlen (store b)"
    "es_queues s' ?q = take QUEUE_MAXSIZE (es_events (store b))"
    using sub by (auto simp: subscribe_def Let_def replay_eq)
  have owed: "owed c r = owed b r" using c(2) by (simp add: owed_def)
  show "balanced c r"
  proof (cases "r = ?q")
    case True
    with r(2) c(6) q have "\<not> QUEUE_MAXSIZE < length (es_events (store b))" by auto
    with True c q s' have "got c r = es_events (store b)" by simp
    moreover have "due c r = es_events (store b)"
      using ring True c q s' by (simp add: due_def bus_ring_def)
    ultimately show ?thesis
      using owed owed_fresh [OF shape] True by (simp add: balanced_def)
  next
    case False
    with r c s' q have "r \<in> set (es_subscribers (store b))" "r \<notin> overflown b"
      by (auto split: if_splits)
    then have "balanced b r" using count by (simp add: bus_count_def)
    then show ?thesis
      by (rule balanced_frame) (use False c q s' in \<open>simp_all add: due_def owed_def\<close>)
  qed
qed

lemma bus_count_frame:
  assumes "bus_count b"
    and c: "hist c = hist b" "seen_at c = seen_at b" "got c = got b" "overflown c = overflown b"
      "es_maxlen (store c) = es_maxlen (store b)"
      "set (es_subscribers (store c)) \<subseteq> set (es_subscribers (store b))"
    and "\<And>q. owed c q = owed b q"
  shows "bus_count c"
  unfolding bus_count_def
proof (intro ballI impI)
  fix q assume "q \<in> set (es_subscribers (store c))" "q \<notin> overflown c"
  then have "balanced b q" using assms by (auto simp: bus_count_def)
  then show "balanced c q" by (rule balanced_frame) (use assms in \<open>simp_all add: due_def\<close>)
qed

lemma bus_step_inv:
  assumes step: "bus_step b c" and inv: "bus_inv b"
  shows "bus_inv c"
proof -
  from inv have b: "bus_shape b" "bus_ring b" "bus_count b" by (simp_all add: bus_inv_def)
  from step have "bus_count c"
  proof cases
    case (make t d)
    then show ?thesis by (intro bus_count_frame [OF b(3)]) (simp_all add: owed_def)
  next
    case (append e)
    then show ?thesis by (intro bus_count_append [OF b(3,2), where e = e]) simp_all
  next
    case (put e q qs)
    then show ?thesis by (intro bus_count_put [OF b(3,1), where e = e and q = q and qs = qs]) simp_all
  next
    case (full e q qs)
    then show ?thesis by (intro bus_count_put [OF b(3,1), where e = e and q = q and qs = qs]) simp_all
  next
    case (finish e)
    then show ?thesis
      by (intro bus_count_frame [OF b(3)]) (simp_all add: owed_done [of e])
  next
    case (get_next sub)
    then show ?thesis
      by (intro bus_count_frame [OF b(3)])
         (simp_all add: owed_def subscriber_next_def split: list.splits)
  next
    case (register k sub s')
    then show ?thesis by (intro bus_count_register [OF b(3,2,1), where k = k and sub = sub and s' = s']) simp_all
  next
    case (leave sub)
    then show ?thesis
      by (intro bus_count_frame [OF b(3)])
         (simp_all add: owed_def subscriber_close_def set_remove1_subset)
  qed
  with b step show ?thesis by (simp add: bus_inv_def bus_shape_step bus_ring_step)
qed

lemma bus_reach_inv: "bus_reach b \<Longrightarrow> bus_inv b"
  by (induction rule: bus_reach.induct) (auto intro: bus_inv_init bus_step_inv)

section \<open>Exactly-once delivery\<close>

text \<open>
  Emits that do not overlap, as those of the event loop's thread, whose \<open>emit\<close> does not wait: an
  event is appended only when the puts of the one before are done.
\<close>

inductive serial_reach :: "'w bus \<Rightarrow> bool" where
  init: "serial_reach (bus_init (EventStore m sink ep u clk w))"
| step: "serial_reach b \<Longrightarrow> bus_step b c \<Longrightarrow> pending b = {#} \<or> hist c = hist b \<Longrightarrow> serial_reach c"

lemma serial_bus_reach: "serial_reach b \<Longrightarrow> bus_reach b"
  by (induction rule: serial_reach.induct) (auto intro: bus_reach.intros)

text \<open>Then at most one event is pending, and what a queue got is the beginning of what it is due.\<close>

definition in_order :: "'w bus \<Rightarrow> bool" where
  "in_order b \<longleftrightarrow>
     size (pending b) \<le> 1 \<and>
     (\<forall>q \<in> set (es_subscribers (store b)). q \<notin> overflown b \<longrightarrow> (\<exists>rest. due b q = got b q @ rest))"

lemma in_order_frame:
  assumes "in_order b" and "size (pending c) \<le> 1"
    and "set (es_subscribers (store c)) \<subseteq> set (es_subscribers (store b))" and "overflown b \<subseteq> overflown c"
    and "\<And>q. got c q = got b q" and "\<And>q. due c q = due b q"
  shows "in_order c"
  using assms unfolding in_order_def by (metis subsetD)

text \<open>The one event that is pending is the next one of every queue it is still put into.\<close>

lemma next_due:
  assumes "bus_inv b" and "in_order b" and p: "(e, q # qs) \<in># pending b"
    and "q \<in> set (es_subscribers (store b))" and "q \<notin> overflown b"
  shows "due b q = got b q @ [e]"
proof -
  obtain rest where rest: "due b q = got b q @ rest" using assms(2,4,5) by (auto simp: in_order_def)
  obtain P where P: "pending b = add_mset (e, q # qs) P" using p by (metis insert_DiffM)
  then have "P = {#}" using assms(2) by (simp add: in_order_def)
  with P have "owed b q = {#e#}" by (simp add: owed_def)
  moreover have "mset (got b q) + owed b q = mset (due b q)"
    using assms(1,4,5) by (simp add: bus_inv_def bus_count_def balanced_def)
  ultimately have "mset rest = {#e#}" using rest by simp
  then show ?thesis using rest by simp
qed

lemma only_one: "x \<in># M \<Longrightarrow> size M \<le> Suc 0 \<Longrightarrow> M - {#x#} = {#}"
  by (metis insert_DiffM size_add_mset Suc_le_mono le_zero_eq size_eq_0_iff_empty)

lemma in_order_step:
  assumes step: "bus_step b c" and inv: "bus_inv b" and ord: "in_order b"
    and serial: "pending b = {#} \<or> hist c = hist b"
  shows "in_order c"
  using step
proof cases
  case (make t d)
  with ord show ?thesis by (intro in_order_frame [OF ord]) (simp_all add: due_def in_order_def)
next
  case (append e)
  then have "pending b = {#}" using serial by auto
  moreover have "due c q = due b q @ [e]" for q
    by (rule due_append) (use inv append in \<open>simp_all add: bus_inv_def\<close>)
  ultimately show ?thesis using append ord by (fastforce simp: in_order_def)
next
  case (put e q qs)
  have size: "size (pending c) \<le> 1" using put ord only_one [OF put(2)] by (simp add: in_order_def)
  have due: "due c r = due b r" for r using put by (simp add: due_def)
  have "\<exists>rest. due c r = got c r @ rest"
    if r: "r \<in> set (es_subscribers (store b))" "r \<notin> overflown b" for r
  proof (cases "r = q")
    case True
    with next_due [OF inv ord put(2)] r put due show ?thesis by simp
  next
    case False
    with ord r put due show ?thesis by (simp add: in_order_def)
  qed
  with size put show ?thesis by (simp add: in_order_def)
next
  case (full e q qs)
  with ord only_one [OF full(2)] show ?thesis
    by (intro in_order_frame [OF ord]) (auto simp: due_def in_order_def)
next
  case (finish e)
  with ord only_one [OF finish(2)] show ?thesis
    by (intro in_order_frame [OF ord]) (auto simp: due_def in_order_def)
next
  case (get_next sub)
  with ord show ?thesis
    by (intro in_order_frame [OF ord])
      (auto simp: due_def in_order_def subscriber_next_def split: list.splits)
next
  case (register k sub s')
  let ?q = "es_fresh (store b)"
  have q: "sub_q sub = ?q" and s': "es_subscribers s' = es_subscribers (store b) @ [?q]"
    "es_maxlen s' = es_maxlen (store b)" "es_queues s' ?q = take QUEUE_MAXSIZE (es_events (store b))"
    using register by (auto simp: subscribe_def Let_def replay_eq)
  have "\<exists>rest. due c r = got c r @ rest"
    if r: "r \<in> set (es_subscribers (store c))" "r \<notin> overflown c" for r
  proof (cases "r = ?q")
    case True
    with register q s' inv show ?thesis
      by (simp add: due_def bus_inv_def bus_ring_def) (metis append_take_drop_id)
  next
    case False
    with r register q s' have "r \<in> set (es_subscribers (store b))" "r \<notin> overflown b" by (auto split: if_splits)
    with ord have "\<exists>rest. due b r = got b r @ rest" by (simp add: in_order_def)
    with False register q s' show ?thesis by (simp add: due_def)
  qed
  with register ord show ?thesis by (simp add: in_order_def)
next
  case (leave sub)
  with ord show ?thesis
    by (intro in_order_frame [OF ord])
      (auto simp: due_def in_order_def subscriber_close_def dest: subsetD [OF set_remove1_subset])
qed

lemma serial_reach_in_order: "serial_reach b \<Longrightarrow> in_order b"
proof (induction rule: serial_reach.induct)
  case init
  then show ?case by (simp add: in_order_def bus_init_def EventStore_def)
next
  case (step b c)
  from in_order_step [OF step.hyps(2) bus_reach_inv [OF serial_bus_reach [OF step.hyps(1)]] step.IH step.hyps(3)]
  show ?case .
qed

text \<open>
  C8: under any interleaving of emitting threads with subscribers that register, read and leave,
  a registered queue that never overflowed has been given, or is still owed by a put under way,
  exactly the events that were in the ring when it registered and those appended since, each as
  often as it was appended: no event is delivered twice and none is missed.  If emits do not
  overlap, it has been given them in the order they were appended.
\<close>

theorem exactly_once_delivery:
  assumes "bus_reach b" and "q \<in> set (es_subscribers (store b))" and "q \<notin> overflown b"
  shows "mset (got b q) + owed b q = mset (due b q) \<and>
    (serial_reach b \<longrightarrow> (\<exists>rest. due b q = got b q @ rest \<and> mset rest = owed b q))"
proof -
  have "mset (got b q) + owed b q = mset (due b q)"
    using bus_reach_inv [OF assms(1)] assms(2,3)
    by (simp add: bus_inv_def bus_count_def balanced_def)
  moreover have "\<exists>rest. due b q = got b q @ rest" if "serial_reach b"
    using serial_reach_in_order [OF that] assms(2,3) by (simp add: in_order_def)
  ultimately show ?thesis by (metis add_left_cancel mset_append)
qed

theorem exactly_once_delivery_witness:
  "\<exists>(b :: unit bus) e rest. 0 \<in> set (es_subscribers (store b)) \<and> hist b = [e] \<and>
     mset (got b 0) + owed b 0 = {#e#} \<and> [e] = got b 0 @ rest \<and> mset rest = owed b 0"
proof -
  let ?s0 = "EventStore 10 None 7 ''0a1b2c3d'' (\<lambda>_. 0) () :: unit event_store"
  let ?e = "make_event ?s0 ''prompt_queued'' []"
  have r0: "serial_reach (bus_init ?s0)" by (rule serial_reach.init)
  obtain sub s1 where sub: "subscribe 15 ?s0 = (sub, s1)" by (cases "subscribe 15 ?s0")
  have st: "store (bus_init ?s0) = ?s0" by (simp add: bus_init_def)
  have "subscribe 15 (store (bus_init ?s0)) = (sub, s1)" by (simp only: st sub)
  note r1 = serial_reach.step [OF r0 bus_step.register [OF this]]
  note r2 = serial_reach.step [OF r1 bus_step.make [of _ "''prompt_queued''" "[]"]]
  note r3 = serial_reach.step [OF r2 bus_step.append [of ?e]]
  from sub have s1: "sub_q sub = 0" "es_subscribers s1 = [0]" "es_events s1 = []"
      "es_queues s1 0 = []" "es_counter s1 = 1" "es_boot s1 = es_boot ?s0" "es_clock s1 = es_clock ?s0"
      "es_maxlen s1 = 10"
    by (auto simp: subscribe_def EventStore_def)
  have e: "make_event s1 ''prompt_queued'' [] = ?e"
    using s1 by (simp add: make_event_def EventStore_def)
  note b3 = r3 [unfolded st]
  have reach: "serial_reach b \<Longrightarrow> 0 \<in> set (es_subscribers (store b)) \<Longrightarrow> 0 \<notin> overflown b \<Longrightarrow>
      due b 0 = [?e] \<Longrightarrow> hist b = [?e] \<Longrightarrow> ?thesis" for b :: "unit bus"
    using exactly_once_delivery [OF serial_bus_reach, of b 0] by (metis mset_single_iff mset.simps)
  show ?thesis
    by (rule reach, rule b3)
       (simp_all add: s1 e bus_init_def due_def EventStore_def QUEUE_MAXSIZE_def)
qed

section \<open>The sequential operations are runs of the bus\<close>

lemma deliver_full: "\<not> length (m q) < QUEUE_MAXSIZE \<Longrightarrow> deliver e q m = m"
  by (simp add: deliver_def put_nowait_def fun_upd_idem)

lemma puts_run:
  "pending b = add_mset (e, qs) P \<Longrightarrow>
   \<exists>c. bus_step\<^sup>*\<^sup>* b c \<and> pending c = add_mset (e, []) P \<and> drafts c = drafts b \<and> hist c = hist b \<and>
       store c = (store b)\<lparr>es_queues := fold (deliver e) qs (es_queues (store b))\<rparr>"
proof (induction qs arbitrary: b)
  case Nil
  then show ?case by (intro exI [of _ b]) simp
next
  case (Cons q qs)
  then have mem: "(e, q # qs) \<in># pending b" by simp
  have "\<exists>c. bus_step b c \<and> pending c = add_mset (e, qs) P \<and> drafts c = drafts b \<and> hist c = hist b \<and>
       store c = (store b)\<lparr>es_queues := deliver e q (es_queues (store b))\<rparr>"
  proof (cases "length (es_queues (store b) q) < QUEUE_MAXSIZE")
    case True
    from bus_step.put [OF mem True] Cons.prems show ?thesis by fastforce
  next
    case False
    from bus_step.full [OF mem False] Cons.prems False show ?thesis
      by (fastforce simp: deliver_full)
  qed
  then obtain c where c: "bus_step b c" "pending c = add_mset (e, qs) P" "drafts c = drafts b"
      "hist c = hist b" "store c = (store b)\<lparr>es_queues := deliver e q (es_queues (store b))\<rparr>"
    by blast
  from Cons.IH [OF c(2)] c show ?case
    by (auto intro: converse_rtranclp_into_rtranclp)
qed

text \<open>
  C34: a call of \<open>emit\<close> that is not interrupted is a run of atomic steps of the bus, so every
  fact about the reachable states of the bus holds of the sequential store: the run ends in the
  store \<open>emit\<close> returns, with one event more in the history and nothing left pending.
\<close>

theorem emit_refines_bus:
  "\<exists>c. bus_step\<^sup>*\<^sup>* b c \<and> store c = emit t d (store b) \<and>
       hist c = hist b @ [make_event (store b) t d] \<and> pending c = pending b \<and> drafts c = drafts b"
proof -
  let ?e = "make_event (store b) t d"
  obtain b1 where b1: "bus_step b b1"
      "store b1 = (store b)\<lparr>es_counter := Suc (es_counter (store b))\<rparr>"
      "drafts b1 = add_mset ?e (drafts b)" "pending b1 = pending b" "hist b1 = hist b"
    using bus_step.make [of b t d] by fastforce
  have "?e \<in># drafts b1" using b1 by simp
  from bus_step.append [OF this] obtain b2 where b2: "bus_step b1 b2"
      "store b2 = (store b1)\<lparr>es_events := deque_append (es_maxlen (store b1)) (es_events (store b1)) ?e\<rparr>"
      "drafts b2 = drafts b" "pending b2 = add_mset (?e, es_subscribers (store b1)) (pending b)"
      "hist b2 = hist b @ [?e]"
    using b1 by fastforce
  obtain b3 where b3: "bus_step\<^sup>*\<^sup>* b2 b3" "pending b3 = add_mset (?e, []) (pending b)"
      "drafts b3 = drafts b2" "hist b3 = hist b2"
      "store b3 = (store b2)\<lparr>es_queues := fold (deliver ?e) (es_subscribers (store b1)) (es_queues (store b2))\<rparr>"
    using puts_run [OF b2(4)] by blast
  have "(?e, []) \<in># pending b3" using b3 by simp
  from bus_step.finish [OF this] obtain c where c: "bus_step b3 c"
      "store c = run_sink ?e (store b3)" "pending c = pending b" "drafts c = drafts b"
      "hist c = hist b @ [?e]"
    using b2 b3 by fastforce
  have "bus_step\<^sup>*\<^sup>* b c"
    using b1(1) b2(1) b3(1) c(1) by (meson converse_rtranclp_into_rtranclp rtranclp.rtrancl_into_rtrancl)
  moreover have "store c = emit t d (store b)"
    using c b3 b2 b1 by (simp add: emit_def Let_def)
  ultimately show ?thesis using c by blast
qed

end
