(* ===== verification/Queue_Lifecycle.thy ===== *)
theory Queue_Lifecycle
  imports Prompt_Queue
begin

text \<open>
  The queue in the running service: deliveries arrive while the consumer works, other parts of
  the service emit events in between, and shutdown may cancel the consumer at any point.  A state
  is the queue, the store and the envelope in the consumer's hands, with ghost fields for the
  envelopes accepted, finished and lost to the cancellation; a step is one of these actions.
\<close>

record 'w life =
  lf_queue :: prompt_queue
  lf_store :: "'w event_store"
  lf_current :: "prompt_info option"
  lf_stopped :: bool
  lf_accepted :: "prompt_info list"                     \<comment> \<open>ghost\<close>
  lf_done :: "(prompt_info \<times> bool) list"                \<comment> \<open>ghost: with the recorded \<open>ok\<close>\<close>
  lf_lost :: "prompt_info list"                         \<comment> \<open>ghost\<close>

definition life_init :: "nat \<Rightarrow> 'w event_store \<Rightarrow> 'w life" where
  "life_init n s =
     \<lparr>lf_queue = PromptQueue n, lf_store = s, lf_current = None, lf_stopped = False,
      lf_accepted = [], lf_done = [], lf_lost = []\<rparr>"

inductive life_step :: "'w life \<Rightarrow> 'w life \<Rightarrow> bool" where
  arrive: "enqueue info (lf_queue l) = (ok, q') \<Longrightarrow> life_step l
     (l\<lparr>lf_queue := q', lf_accepted := lf_accepted l @ (if ok then [info] else [])\<rparr>)"
| other_event: "t \<noteq> ''prompt_consumed'' \<Longrightarrow> life_step l (l\<lparr>lf_store := emit t d (lf_store l)\<rparr>)"
| take_next: "lf_current l = None \<Longrightarrow> \<not> lf_stopped l \<Longrightarrow> queue_get (lf_queue l) = Some (info, q') \<Longrightarrow>
     life_step l (l\<lparr>lf_queue := q', lf_current := Some info\<rparr>)"
| finish: "lf_current l = Some info \<Longrightarrow> goes_on r \<Longrightarrow> life_step l
     (l\<lparr>lf_queue := task_done (lf_queue l), lf_current := None,
        lf_store := emits (outcome_events now info r) (lf_store l),
        lf_done := lf_done l @ [(info, is_ok r)]\<rparr>)"
| cancel_busy: "lf_current l = Some info \<Longrightarrow> \<not> goes_on r \<Longrightarrow> life_step l
     (l\<lparr>lf_queue := task_done (lf_queue l), lf_current := None, lf_stopped := True,
        lf_store := emits (outcome_events now info r) (lf_store l),
        lf_lost := lf_lost l @ [info]\<rparr>)"
| cancel_idle: "lf_current l = None \<Longrightarrow> life_step l (l\<lparr>lf_stopped := True\<rparr>)"

inductive life_reach :: "nat \<Rightarrow> 'w life \<Rightarrow> bool" for n where
  init: "recorded s = [] \<Longrightarrow> life_reach n (life_init n s)"
| step: "life_reach n l \<Longrightarrow> life_step l l' \<Longrightarrow> life_reach n l'"

definition in_hand :: "'w life \<Rightarrow> prompt_info list" where
  "in_hand l = (case lf_current l of None \<Rightarrow> [] | Some info \<Rightarrow> [info])"

section \<open>Conservation of envelopes\<close>

text \<open>
  Every accepted envelope is finished, lost to the cancellation, in hand or queued, in the order
  of acceptance.
\<close>

definition life_flow :: "'w life \<Rightarrow> bool" where
  "life_flow l \<longleftrightarrow>
     lf_accepted l = map fst (lf_done l) @ lf_lost l @ in_hand l @ pq_queue (lf_queue l) \<and>
     pq_unfinished (lf_queue l) = length (in_hand l) + length (pq_queue (lf_queue l)) \<and>
     length (lf_lost l) \<le> 1 \<and> (lf_lost l \<noteq> [] \<longrightarrow> lf_stopped l \<and> lf_current l = None) \<and>
     (lf_stopped l \<longrightarrow> lf_current l = None)"

definition spaced :: "nat \<Rightarrow> prompt_info list \<Rightarrow> bool" where
  "spaced n infos \<longleftrightarrow>
     (\<forall>ys z zs. infos = ys @ z # zs \<longrightarrow>
        pi_delivery_id z \<notin> set (last_n n (map pi_delivery_id ys)))"

definition life_dedup :: "nat \<Rightarrow> 'w life \<Rightarrow> bool" where
  "life_dedup n l \<longleftrightarrow>
     queue_inv n (lf_queue l) \<and>
     pq_seen_order (lf_queue l) = last_n n (map pi_delivery_id (lf_accepted l)) \<and>
     spaced n (lf_accepted l)"

lemma spaced_Nil [simp]: "spaced n []"
  by (simp add: spaced_def)

lemma spaced_snoc:
  assumes "spaced n xs" and "pi_delivery_id x \<notin> set (last_n n (map pi_delivery_id xs))"
  shows "spaced n (xs @ [x])"
  unfolding spaced_def
proof (intro allI impI)
  fix ys z zs assume eq: "xs @ [x] = ys @ z # zs"
  show "pi_delivery_id z \<notin> set (last_n n (map pi_delivery_id ys))"
  proof (cases zs rule: rev_cases)
    case Nil
    with eq assms(2) show ?thesis by simp
  next
    case (snoc us u)
    with eq have "xs = ys @ z # us" by simp
    with assms(1) show ?thesis by (simp add: spaced_def)
  qed
qed

lemma queue_get_Some:
  "queue_get q = Some (info, q') \<longleftrightarrow> pq_queue q = info # pq_queue q' \<and> q' = q\<lparr>pq_queue := pq_queue q'\<rparr>"
  by (cases q; cases "pq_queue q") (auto simp: queue_get_def)

lemma queue_inv_frame:
  "pq_maxlen q' = pq_maxlen q \<Longrightarrow> pq_seen q' = pq_seen q \<Longrightarrow> pq_seen_order q' = pq_seen_order q \<Longrightarrow>
   queue_inv n q' = queue_inv n q"
  by (simp add: queue_inv_def)

lemma pq_unfinished_enqueue:
  "pq_unfinished (snd (enqueue info q)) =
     (if fst (enqueue info q) then Suc (pq_unfinished q) else pq_unfinished q)"
  by (simp add: enqueue_def Let_def)

lemma life_flow_step: "life_step l l' \<Longrightarrow> life_flow l \<Longrightarrow> life_flow l'"
proof (induction rule: life_step.induct)
  case (arrive info l ok q')
  then have "ok = fst (enqueue info (lf_queue l))" "q' = snd (enqueue info (lf_queue l))" by simp_all
  with arrive.prems show ?case
    by (auto simp: life_flow_def in_hand_def pq_queue_enqueue pq_unfinished_enqueue)
next
  case (take_next l info q')
  then have q: "pq_queue (lf_queue l) = info # pq_queue q'" and
      u: "pq_unfinished q' = pq_unfinished (lf_queue l)"
    by (auto simp: queue_get_def split: list.splits)
  from take_next q u show ?case by (simp add: life_flow_def in_hand_def)
qed (auto simp: life_flow_def in_hand_def task_done_def)

lemma life_dedup_step: "life_step l l' \<Longrightarrow> 0 < n \<Longrightarrow> life_dedup n l \<Longrightarrow> life_dedup n l'"
proof (induction rule: life_step.induct)
  case (arrive info l ok q')
  then have q: "ok = fst (enqueue info (lf_queue l))" "q' = snd (enqueue info (lf_queue l))" by simp_all
  from arrive.prems have inv: "queue_inv n q'" by (auto simp: life_dedup_def q queue_inv_enqueue)
  show ?case
  proof (cases ok)
    case True
    have "pi_delivery_id info \<notin> set (last_n n (map pi_delivery_id (lf_accepted l)))"
      using True arrive.prems by (simp add: q fst_enqueue life_dedup_def queue_inv_def)
    with True arrive.prems inv show ?thesis
      by (simp add: life_dedup_def q pq_seen_order_enqueue queue_inv_def spaced_snoc
          last_n_last_n_append)
  next
    case False
    with arrive.prems inv show ?thesis by (simp add: life_dedup_def q pq_seen_order_enqueue)
  qed
next
  case (take_next l info q')
  then have "queue_inv n q' = queue_inv n (lf_queue l)" "pq_seen_order q' = pq_seen_order (lf_queue l)"
    by (auto simp: queue_get_def queue_inv_def split: list.splits)
  with take_next show ?case by (simp add: life_dedup_def)
qed (auto simp: life_dedup_def task_done_def queue_inv_def)

lemma life_flow_init: "life_flow (life_init n s)"
  by (simp add: life_flow_def life_init_def in_hand_def PromptQueue_def)

lemma life_dedup_init: "life_dedup n (life_init n s)"
  using queue_inv_init [of n] by (simp add: life_dedup_def life_init_def PromptQueue_def)

lemma life_reach_flow: "life_reach n l \<Longrightarrow> life_flow l"
  by (induction rule: life_reach.induct) (auto intro: life_flow_init life_flow_step)

lemma life_reach_dedup: "life_reach n l \<Longrightarrow> 0 < n \<Longrightarrow> life_dedup n l"
  by (induction rule: life_reach.induct) (auto intro: life_dedup_init life_dedup_step)

section \<open>What the consumer records\<close>

text \<open>The envelope ids and outcomes of the \<open>prompt_consumed\<close> events, oldest first.\<close>

definition consumed_of :: "(string \<times> data) list \<Rightarrow> (pyval option \<times> pyval option) list" where
  "consumed_of evs =
     map (\<lambda>(t, d). (map_of d ''id'', map_of d ''ok'')) (filter (\<lambda>(t, d). t = ''prompt_consumed'') evs)"

definition outcome_of :: "prompt_info \<times> bool \<Rightarrow> pyval option \<times> pyval option" where
  "outcome_of p = (Some (PStr (pi_id (fst p))), Some (PBool (snd p)))"

lemma consumed_of_append: "consumed_of (xs @ ys) = consumed_of xs @ consumed_of ys"
  by (simp add: consumed_of_def)

lemma consumed_of_outcome:
  "consumed_of (outcome_events now info r) = (if goes_on r then [outcome_of (info, is_ok r)] else [])"
  by (cases r)
     (auto simp: outcome_events_def consumed_of_def goes_on_def outcome_of_def consumed_data_def
       failed_data_def mark_consumed_def split: option.splits)

text \<open>The recorded outcomes are the newest of the finished ones: no more, none twice.\<close>

definition life_log :: "'w life \<Rightarrow> bool" where
  "life_log l \<longleftrightarrow>
     length (recorded (lf_store l)) \<le> es_maxlen (lf_store l) \<and>
     (\<exists>pre. pre @ consumed_of (recorded (lf_store l)) = map outcome_of (lf_done l))"

lemma consumed_of_last_n: "\<exists>pre. pre @ consumed_of (last_n k evs) = consumed_of evs"
  by (metis consumed_of_append last_n_decomp)

lemma life_log_emits:
  assumes "life_log l" and "consumed_of evs = map outcome_of new"
  shows "life_log (l\<lparr>lf_store := emits evs (lf_store l), lf_done := lf_done l @ new\<rparr>)"
proof -
  let ?s = "lf_store l"
  have fits: "length (recorded ?s) \<le> es_maxlen ?s" using assms(1) by (simp add: life_log_def)
  obtain pre where pre: "pre @ consumed_of (recorded ?s) = map outcome_of (lf_done l)"
    using assms(1) by (auto simp: life_log_def)
  obtain pre' where "pre' @ consumed_of (last_n (es_maxlen ?s) (recorded ?s @ evs)) =
      consumed_of (recorded ?s @ evs)"
    using consumed_of_last_n by blast
  then have "(pre @ pre') @ consumed_of (recorded (emits evs ?s)) = map outcome_of (lf_done l @ new)"
    using pre assms(2) by (simp add: recorded_emits [OF fits] consumed_of_append)
  moreover have "length (recorded (emits evs ?s)) \<le> es_maxlen ?s"
    by (simp add: recorded_emits [OF fits])
  ultimately show ?thesis
    unfolding life_log_def by (intro conjI exI [of _ "pre @ pre'"]) simp_all
qed

lemma life_log_frame:
  "life_log l \<Longrightarrow> lf_store l' = lf_store l \<Longrightarrow> lf_done l' = lf_done l \<Longrightarrow> life_log l'"
  by (simp add: life_log_def)

lemma life_log_step: "life_step l l' \<Longrightarrow> life_log l \<Longrightarrow> life_log l'"
proof (induction rule: life_step.induct)
  case (other_event t l d)
  have "consumed_of [(t, d)] = map outcome_of []" using other_event.hyps by (simp add: consumed_of_def)
  from life_log_emits [OF other_event.prems this] show ?case by (simp add: life_log_def)
next
  case (finish l info r now)
  have "consumed_of (outcome_events now info r) = map outcome_of [(info, is_ok r)]"
    using finish.hyps by (simp add: consumed_of_outcome)
  from life_log_emits [OF finish.prems this] show ?case by (simp add: life_log_def)
next
  case (cancel_busy l info r now)
  have "consumed_of (outcome_events now info r) = map outcome_of []"
    using cancel_busy.hyps by (simp add: consumed_of_outcome)
  from life_log_emits [OF cancel_busy.prems this] show ?case by (simp add: life_log_def)
qed (auto intro: life_log_frame)

lemma life_reach_log: "life_reach n l \<Longrightarrow> life_log l"
proof (induction rule: life_reach.induct)
  case (init s)
  then show ?case by (simp add: life_log_def life_init_def consumed_of_def)
next
  case (step l l')
  then show ?case by (blast intro: life_log_step)
qed

section \<open>Properties\<close>

text \<open>
  C7: under every interleaving of deliveries, consumer steps, other events and a shutdown, the
  envelopes accepted by \<open>enqueue\<close> are, in order, the ones the consumer finished, the one a
  cancellation lost (at most one), the one it holds and the ones queued; no envelope is dropped,
  duplicated or reordered, and the count of unfinished tasks that \<open>Queue.join\<close> waits on is
  the number held or queued.
\<close>

theorem queue_conserves_envelopes:
  assumes "life_reach n l"
  shows "lf_accepted l =
      map fst (lf_done l) @ lf_lost l @ in_hand l @ pq_queue (lf_queue l) \<and>
    length (lf_lost l) \<le> 1 \<and> (lf_lost l \<noteq> [] \<longrightarrow> lf_stopped l) \<and>
    pq_unfinished (lf_queue l) = length (in_hand l) + length (pq_queue (lf_queue l))"
  using life_reach_flow [OF assms] by (simp add: life_flow_def)

text \<open>
  C6: with a positive capacity \<open>n\<close>, a delivery id is never among the \<open>n\<close> ids accepted
  before it: of any \<open>n + 1\<close> consecutive accepted envelopes no two have the same delivery id.
\<close>

theorem accepted_deliveries_spaced:
  assumes "life_reach n l" and "0 < n"
    and "lf_accepted l = xs @ ys @ zs" and "length ys \<le> Suc n"
  shows "distinct (map pi_delivery_id ys)"
proof -
  have sp: "spaced n (lf_accepted l)" using life_reach_dedup [OF assms(1,2)] by (simp add: life_dedup_def)
  show ?thesis using assms(3,4)
  proof (induction ys arbitrary: zs rule: rev_induct)
    case (snoc y ys)
    have "lf_accepted l = (xs @ ys) @ y # zs" using snoc.prems(1) by simp
    with sp have "pi_delivery_id y \<notin> set (last_n n (map pi_delivery_id (xs @ ys)))"
      unfolding spaced_def by blast
    moreover have "set (map pi_delivery_id ys) \<subseteq> set (last_n n (map pi_delivery_id (xs @ ys)))"
      using snoc.prems(2) by (simp add: last_n_append_le)
    ultimately show ?case using snoc.IH [of "y # zs"] snoc.prems by auto
  qed simp
qed

text \<open>
  The outcomes the event log shows are those of the newest finished envelopes, in order, each
  with the envelope's own id and whether its session succeeded: no outcome is invented, repeated
  or swapped, and none is recorded for an envelope a cancellation lost.
\<close>

theorem log_shows_outcomes:
  assumes "life_reach n l"
  shows "\<exists>k. consumed_of (recorded (lf_store l)) = last_n k (map outcome_of (lf_done l))"
proof -
  obtain pre where "pre @ consumed_of (recorded (lf_store l)) = map outcome_of (lf_done l)"
    using life_reach_log [OF assms] by (auto simp: life_log_def)
  from this [symmetric] show ?thesis
    by (intro exI [of _ "length (consumed_of (recorded (lf_store l)))"])
       (simp add: last_n_append_ge)
qed

section \<open>A run\<close>

text \<open>
  Two deliveries arrive, the first is redelivered; the consumer finishes one, is cancelled on the
  other, and a third delivery stays queued.
\<close>

definition demo_info :: "string \<Rightarrow> prompt_info" where
  "demo_info d = PromptInfo (''id-'' @ d) 0 d ''o/r'' ''issues'' ''labeled'' ''orchestration:x'' (PDict [])"

definition demo_host_result :: acp_run_result where
  "demo_host_result = \<lparr>rr_session_id = ''s'', rr_stop_reason = ''end_turn'', rr_workspace = ''w''\<rparr>"

lemma demo_run:
  "\<exists>l :: unit life. life_reach 2 l \<and> lf_accepted l = map demo_info [''d1'', ''d2'', ''d3''] \<and>
     lf_done l = [(demo_info ''d1'', True)] \<and> lf_lost l = [demo_info ''d2''] \<and>
     recorded (lf_store l) \<noteq> []"
proof -
  let ?a = "demo_info ''d1''" and ?b = "demo_info ''d2''" and ?c = "demo_info ''d3''"
  let ?q = "\<lambda>xs u ds. \<lparr>pq_queue = xs, pq_unfinished = u, pq_maxlen = 2, pq_seen_order = ds,
      pq_seen = set ds\<rparr>"
  let ?L = "\<lambda>q s cur stop acc don lost. \<lparr>lf_queue = q, lf_store = s, lf_current = cur,
      lf_stopped = stop, lf_accepted = acc, lf_done = don, lf_lost = lost\<rparr> :: unit life"
  define s0 :: "unit event_store" where "s0 = EventStore 9 None 7 ''0a1b2c3d'' (\<lambda>_. 0) ()"
  define ea where "ea = outcome_events 1 ?a (Inr (Some demo_host_result))"
  define s1 where "s1 = emits ea s0"
  have ids: "pi_delivery_id (demo_info d) = d" for d by (simp add: demo_info_def PromptInfo_def)
  have enq1: "enqueue ?a (?q [] 0 []) = (True, ?q [?a] 1 [''d1''])"
    and enq2: "enqueue ?b (?q [?a] 1 [''d1'']) = (True, ?q [?a, ?b] 2 [''d1'', ''d2''])"
    and enq3: "enqueue ?c (?q [] 0 [''d1'', ''d2'']) = (True, ?q [?c] 1 [''d2'', ''d3''])"
    by (auto simp: enqueue_def Let_def deque_append_def ids)
  have "life_reach 2 (life_init 2 s0)"
    by (rule life_reach.init) (simp add: s0_def EventStore_def recorded_def)
  then have "life_reach 2 (?L (?q [] 0 []) s0 None False [] [] [])"
    by (simp add: life_init_def PromptQueue_def)
  then have "life_reach 2 (?L (?q [?a] 1 [''d1'']) s0 None False [?a] [] [])"
    by (rule life_reach.step)
       (use life_step.arrive [of ?a "?L (?q [] 0 []) s0 None False [] [] []"] enq1 in simp)
  then have "life_reach 2 (?L (?q [?a, ?b] 2 [''d1'', ''d2'']) s0 None False [?a, ?b] [] [])"
    by (rule life_reach.step)
       (use life_step.arrive [of ?b "?L (?q [?a] 1 [''d1'']) s0 None False [?a] [] []"] enq2 in simp)
  then have "life_reach 2 (?L (?q [?b] 2 [''d1'', ''d2'']) s0 (Some ?a) False [?a, ?b] [] [])"
    by (rule life_reach.step)
       (use life_step.take_next [of "?L (?q [?a, ?b] 2 [''d1'', ''d2'']) s0 None False [?a, ?b] [] []" ?a
          "?q [?b] 2 [''d1'', ''d2'']"] in \<open>simp add: queue_get_def\<close>)
  then have "life_reach 2 (?L (?q [?b] 1 [''d1'', ''d2'']) s1 None False [?a, ?b] [(?a, True)] [])"
    by (rule life_reach.step)
       (use life_step.finish [of "?L (?q [?b] 2 [''d1'', ''d2'']) s0 (Some ?a) False [?a, ?b] [] []" ?a
          "Inr (Some demo_host_result)" 1] in \<open>simp add: goes_on_def task_done_def s1_def ea_def\<close>)
  then have "life_reach 2 (?L (?q [] 1 [''d1'', ''d2'']) s1 (Some ?b) False [?a, ?b] [(?a, True)] [])"
    by (rule life_reach.step)
       (use life_step.take_next [of "?L (?q [?b] 1 [''d1'', ''d2'']) s1 None False [?a, ?b] [(?a, True)] []" ?b
          "?q [] 1 [''d1'', ''d2'']"] in \<open>simp add: queue_get_def\<close>)
  then have "life_reach 2 (?L (?q [] 0 [''d1'', ''d2'']) s1 None True [?a, ?b] [(?a, True)] [?b])"
    by (rule life_reach.step)
       (use life_step.cancel_busy [of "?L (?q [] 1 [''d1'', ''d2'']) s1 (Some ?b) False [?a, ?b] [(?a, True)] []" ?b
          "Inl (PyExc CancelledError ''x'')" 2]
        in \<open>simp add: goes_on_def is_exception_def task_done_def outcome_events_def\<close>)
  then have reach: "life_reach 2 (?L (?q [?c] 1 [''d2'', ''d3'']) s1 None True [?a, ?b, ?c] [(?a, True)] [?b])"
    by (rule life_reach.step)
       (use life_step.arrive [of ?c "?L (?q [] 0 [''d1'', ''d2'']) s1 None True [?a, ?b] [(?a, True)] [?b]"]
          enq3 in simp)
  have "recorded s1 = ea" unfolding s1_def s0_def
    by (subst recorded_emits) (simp_all add: EventStore_def recorded_def ea_def outcome_events_def)
  then have "recorded s1 \<noteq> []" by (simp add: ea_def outcome_events_def)
  with reach show ?thesis by (intro exI [of _ "?L (?q [?c] 1 [''d2'', ''d3'']) s1 None True [?a, ?b, ?c] [(?a, True)] [?b]"]) simp
qed

theorem queue_conserves_envelopes_witness:
  "\<exists>l :: unit life. lf_lost l = [demo_info ''d2''] \<and> lf_stopped l \<and>
     pq_queue (lf_queue l) = [demo_info ''d3'']"
proof -
  obtain l :: "unit life" where l: "life_reach 2 l" "lf_accepted l = map demo_info [''d1'', ''d2'', ''d3'']"
      "lf_done l = [(demo_info ''d1'', True)]" "lf_lost l = [demo_info ''d2'']"
    using demo_run by blast
  have "in_hand l = []" using life_reach_flow [OF l(1)] l(4) by (simp add: life_flow_def in_hand_def)
  with queue_conserves_envelopes [OF l(1)] l show ?thesis by auto
qed

theorem accepted_deliveries_spaced_witness: "distinct (map pi_delivery_id (map demo_info [''d1'', ''d2'', ''d3'']))"
proof -
  obtain l :: "unit life" where l: "life_reach 2 l" "lf_accepted l = map demo_info [''d1'', ''d2'', ''d3'']"
    using demo_run by blast
  show ?thesis by (rule accepted_deliveries_spaced [OF l(1), where xs = "[]" and zs = "[]"]) (simp_all add: l(2))
qed

theorem log_shows_outcomes_witness:
  "\<exists>l :: unit life. \<exists>k. lf_done l = [(demo_info ''d1'', True)] \<and>
     consumed_of (recorded (lf_store l)) = last_n k [outcome_of (demo_info ''d1'', True)]"
proof -
  obtain l :: "unit life" where l: "life_reach 2 l" "lf_done l = [(demo_info ''d1'', True)]"
    using demo_run by blast
  from log_shows_outcomes [OF l(1)] l(2) show ?thesis by (intro exI [of _ l]) simp
qed

end
