(* ===== verification/Sandbox_Bridge.thy ===== *)
theory Sandbox_Bridge
  imports Prompt_Queue Config
begin

text \<open>
  \<open>sandbox_bridge.py\<close>: provisioning and release of the sandbox behind a run.  The sandbox API,
  \<open>docker\<close>, \<open>git\<close> and the clock are parameters: a \<open>bridge_env\<close> gives the answer of each to the
  call with a given number, which may be any exception, a cancellation included.  The state keeps
  the calls made so far, so that statements about what was created and deleted are statements
  about this list.
\<close>

section \<open>Environment and state\<close>

datatype bridge_call =
    Create string string
  | Copy string string
  | Probe string
  | Pause
  | RemoveOrigin string
  | Remove string

record bridge_env =
  be_create :: "nat \<Rightarrow> pyval pyres"
  be_copy :: "nat \<Rightarrow> (int \<times> string) pyres"
  be_ready :: "nat \<Rightarrow> bool pyres"
  be_pause :: "nat \<Rightarrow> unit pyres"
  be_git :: "nat \<Rightarrow> (int \<times> string) pyres"
  be_delete :: "nat \<Rightarrow> nat pyres"
  be_clock :: "nat \<Rightarrow> rat"

record 'w bridge_state =
  br_step :: nat
  br_calls :: "bridge_call list"
  br_store :: "'w event_store"

definition ask :: "bridge_call \<Rightarrow> (nat \<Rightarrow> 'a pyres) \<Rightarrow> (('w, 'z) bridge_state_scheme, 'a) action" where
  "ask c answers s =
     (answers (br_step s), s\<lparr>br_step := Suc (br_step s), br_calls := br_calls s @ [c]\<rparr>)"

section \<open>Operations\<close>

record sandbox_workspace =
  sw_run_id :: string
  sw_sandbox_id :: string
  sw_container_name :: string
  sw_path :: string

definition bridge_error :: "string \<Rightarrow> 'a pyres" where
  "bridge_error msg = Inl (PyExc SandboxBridgeError msg)"

definition is_http_error :: "pyexc \<Rightarrow> bool" where
  "is_http_error e \<longleftrightarrow> exc_of e = HTTPError"

text \<open>\<open>f"{x:.0f}"\<close>: rounded to an integer, ties to even.\<close>

definition round_half_even :: "rat \<Rightarrow> int" where
  "round_half_even x =
     (let f = \<lfloor>x\<rfloor>; d = x - of_int f in
      if d < 1 / 2 \<or> d = 1 / 2 \<and> even f then f else f + 1)"

fun fmt0 :: "pyfloat \<Rightarrow> string" where
  "fmt0 (FFin x) =
     (if x < 0 \<and> round_half_even x = 0 then ''-0'' else py_str_int (round_half_even x))"
| "fmt0 (FInf pos) = (if pos then ''inf'' else ''-inf'')"
| "fmt0 FNan = ''nan''"

fun after :: "rat \<Rightarrow> pyfloat \<Rightarrow> pyfloat" where
  "after t (FFin d) = FFin (t + d)"
| "after t x = x"

text \<open>\<open>Path(a) / b\<close>\<close>

definition path_join :: "string \<Rightarrow> string \<Rightarrow> string" where
  "path_join a b = (if a = [] \<or> last a = CHR ''/'' then a @ b else a @ ''/'' @ b)"

definition docker_cp :: "bridge_env \<Rightarrow> string \<Rightarrow> string \<Rightarrow> (('w, 'z) bridge_state_scheme, unit) action" where
  "docker_cp env container dest =
     io_bind (ask (Copy container dest) (be_copy env)) (\<lambda>(returncode, stderr).
     if returncode \<noteq> 0
     then io_lift (bridge_error (''docker cp '' @ container @ '':/workspace/. failed: '' @ py_strip stderr))
     else io_return ())"

definition remove_origin :: "bridge_env \<Rightarrow> string \<Rightarrow> (('w, 'z) bridge_state_scheme, unit) action" where
  "remove_origin env workspace =
     io_bind (ask (RemoveOrigin workspace) (be_git env)) (\<lambda>_. io_return ())"

definition workspace_dir :: "settings \<Rightarrow> string \<Rightarrow> string" where
  "workspace_dir st envelope_id =
     path_join (if st_acp_workspace_root st \<noteq> '''' then st_acp_workspace_root st
                else ''/tmp/swarm-acp-workspaces'') envelope_id"

definition create_sandbox ::
  "bridge_env \<Rightarrow> settings \<Rightarrow> (('w, 'z) bridge_state_scheme, string \<times> string) action"
where
  "create_sandbox env st s =
     (case ask (Create (py_rstrip_of CHR ''/'' (st_sandbox_api_url st)) (st_sandbox_branch st))
             (be_create env) s of
        (Inl e, t) \<Rightarrow>
          (if is_http_error e
           then bridge_error (''sandbox API '' @ py_repr_str (st_sandbox_api_url st)
                  @ '' unreachable or unhealthy: '' @ exc_str e)
           else Inl e, t)
      | (Inr body, t) \<Rightarrow>
          (rbind (py_get body ''sandboxId'' PNone) (\<lambda>sandbox_id.
           rbind (py_get body ''containerName'' PNone) (\<lambda>container_name.
           if \<not> truthy sandbox_id \<or> \<not> truthy container_name
           then bridge_error (''sandbox API create response missing sandboxId/containerName: ''
                  @ py_repr body)
           else Inr (py_str sandbox_id, py_str container_name))), t))"

definition delete_sandbox :: "bridge_env \<Rightarrow> string \<Rightarrow> (('w, 'z) bridge_state_scheme, bool) action" where
  "delete_sandbox env sandbox_id s =
     (case ask (Remove sandbox_id) (be_delete env) s of
        (Inl e, t) \<Rightarrow> (if is_http_error e then Inr False else Inl e, t)
      | (Inr status, t) \<Rightarrow> (Inr (status \<in> {200, 202, 204, 404}), t))"

text \<open>The poll loop of \<open>_materialize\<close>; \<open>None\<close> is a loop that does not end.\<close>

partial_function (option) poll_workspace ::
  "bridge_env \<Rightarrow> pyfloat \<Rightarrow> string \<Rightarrow> string \<Rightarrow> string \<Rightarrow> ('w, 'z) bridge_state_scheme \<Rightarrow>
   (unit pyres \<times> ('w, 'z) bridge_state_scheme) option"
where
  "poll_workspace env deadline msg container dest s =
     (case docker_cp env container dest s of
        (Inl e, t) \<Rightarrow> Some (Inl e, t)
      | (Inr _, t) \<Rightarrow>
          (case ask (Probe dest) (be_ready env) t of
             (Inl e, u) \<Rightarrow> Some (Inl e, u)
           | (Inr ready, u) \<Rightarrow>
               if ready then Some (Inr (), u)
               else if deadline \<le> FFin (be_clock env (br_step u)) then Some (bridge_error msg, u)
               else (case ask Pause (be_pause env) u of
                       (Inl e, v) \<Rightarrow> Some (Inl e, v)
                     | (Inr _, v) \<Rightarrow> poll_workspace env deadline msg container dest v)))"

definition materialize ::
  "bridge_env \<Rightarrow> settings \<Rightarrow> string \<Rightarrow> string \<Rightarrow> ('w, 'z) bridge_state_scheme \<Rightarrow>
   (unit pyres \<times> ('w, 'z) bridge_state_scheme) option"
where
  "materialize env st container dest s =
     poll_workspace env (after (be_clock env (br_step s)) (st_sandbox_ready_timeout st))
       (''sandbox workspace did not materialize within '' @ fmt0 (st_sandbox_ready_timeout st)
        @ ''s (in-container clone may have failed; check the sandbox container logs)'')
       container dest s"

definition provisioned_data :: "sandbox_workspace \<Rightarrow> data" where
  "provisioned_data w =
     [(''run_id'', PStr (sw_run_id w)), (''sandbox_id'', PStr (sw_sandbox_id w)),
      (''container_name'', PStr (sw_container_name w)), (''workspace'', PStr (sw_path w))]"

definition prepare ::
  "bridge_env \<Rightarrow> settings \<Rightarrow> prompt_info \<Rightarrow> ('w, 'z) bridge_state_scheme \<Rightarrow>
   (sandbox_workspace pyres \<times> ('w, 'z) bridge_state_scheme) option"
where
  "prepare env st info s =
     (case create_sandbox env st s of
        (Inl e, t) \<Rightarrow> Some (Inl e, t)
      | (Inr (sandbox_id, container), t) \<Rightarrow>
          (let dest = workspace_dir st (pi_id info) in
           case materialize env st container dest t of
             None \<Rightarrow> None
           | Some (Inl e, u) \<Rightarrow>
               Some (if is_exception e
                     then (case delete_sandbox env sandbox_id u of
                             (Inl e2, v) \<Rightarrow> (Inl e2, v)
                           | (Inr _, v) \<Rightarrow> (Inl e, v))
                     else (Inl e, u))
           | Some (Inr _, u) \<Rightarrow>
               Some (case remove_origin env dest u of
                       (Inl e, v) \<Rightarrow> (Inl e, v)
                     | (Inr _, v) \<Rightarrow>
                         (let w = \<lparr>sw_run_id = pi_id info, sw_sandbox_id = sandbox_id,
                                   sw_container_name = container, sw_path = dest\<rparr>
                          in (Inr w, v\<lparr>br_store := emit ''sandbox_provisioned'' (provisioned_data w)
                                        (br_store v)\<rparr>)))))"

definition release :: "bridge_env \<Rightarrow> sandbox_workspace \<Rightarrow> (('w, 'z) bridge_state_scheme, unit) action" where
  "release env w s =
     (case delete_sandbox env (sw_sandbox_id w) s of
        (Inl e, t) \<Rightarrow>
          if is_exception e then (Inr (), t\<lparr>br_store := emit ''sandbox_released''
              [(''run_id'', PStr (sw_run_id w)), (''sandbox_id'', PStr (sw_sandbox_id w)),
               (''ok'', PBool False)] (br_store t)\<rparr>)
          else (Inl e, t)
      | (Inr ok, t) \<Rightarrow> (Inr (), t\<lparr>br_store := emit ''sandbox_released''
              [(''run_id'', PStr (sw_run_id w)), (''sandbox_id'', PStr (sw_sandbox_id w)),
               (''ok'', PBool ok)] (br_store t)\<rparr>))"

section \<open>Materialisation ends\<close>

lemmas ask_simps = ask_def docker_cp_def io_bind_def io_lift_def io_return_def bridge_error_def

lemma poll_within:
  assumes "deadline \<le> env_clock (Suc (Suc (br_step s))) + 2 * of_nat n"
    and "\<forall>i. env_clock (br_step s + 3 * i + 2) + 2 \<le> env_clock (br_step s + 3 * i + 5)"
    and "env_clock = be_clock env"
  shows "\<exists>r t. poll_workspace env (FFin deadline) msg container dest s = Some (r, t) \<and>
    br_step t \<le> br_step s + 3 * n + 2"
  using assms
proof (induction n arbitrary: s)
  case 0
  then show ?case
    by (subst poll_workspace.simps) (auto simp: ask_simps split: sum.splits)
next
  case (Suc n)
  define v where "v = s\<lparr>br_step := br_step s + 3, br_calls := br_calls s @ [Copy container dest, Probe dest, Pause]\<rparr>"
  have "env_clock (br_step s + 3 * 0 + 2) + 2 \<le> env_clock (br_step s + 3 * 0 + 5)"
    using Suc.prems(2) by blast
  then have "deadline \<le> env_clock (Suc (Suc (br_step v))) + 2 * of_nat n"
    using Suc.prems(1) by (simp add: v_def algebra_simps eval_nat_numeral)
  moreover have "\<forall>i. env_clock (br_step v + 3 * i + 2) + 2 \<le> env_clock (br_step v + 3 * i + 5)"
  proof
    fix i
    have "br_step v + 3 * i = br_step s + 3 * Suc i" by (simp add: v_def)
    with Suc.prems(2) show "env_clock (br_step v + 3 * i + 2) + 2 \<le> env_clock (br_step v + 3 * i + 5)"
      by metis
  qed
  ultimately obtain r t where rt: "poll_workspace env (FFin deadline) msg container dest v = Some (r, t)"
      "br_step t \<le> br_step v + 3 * n + 2"
    using Suc.IH [of v] Suc.prems(3) by blast
  then show ?case
    by (subst poll_workspace.simps)
      (auto simp: ask_simps v_def eval_nat_numeral split: sum.splits)
qed

text \<open>
  C17: waiting for a workspace ends.  If a pause of the poll loop takes its two seconds on a clock
  that does not run backwards, and every call to \<open>docker\<close> returns, then with a finite ready timeout
  \<open>T\<close> the loop returns or raises, whatever \<open>docker\<close> answers, after at most \<open>T/2 + 2\<close> rounds of at
  most three calls.
\<close>

theorem materialize_terminates:
  assumes "st_sandbox_ready_timeout st = FFin T" and "0 \<le> T"
    and "mono (be_clock env)"
    and "\<forall>i. be_clock env (br_step s + 3 * i + 2) + 2 \<le> be_clock env (br_step s + 3 * i + 3)"
  shows "\<exists>r t. materialize env st container dest s = Some (r, t) \<and>
    br_step t \<le> br_step s + 3 * nat \<lceil>T / 2\<rceil> + 2"
proof -
  let ?k = "br_step s"
  have clock: "be_clock env (?k + 3 * i + 2) + 2 \<le> be_clock env (?k + 3 * i + 5)" for i
    using assms(4) [rule_format, of i] monoD [OF assms(3), of "?k + 3 * i + 3" "?k + 3 * i + 5"] by simp
  have "T / 2 \<le> of_nat (nat \<lceil>T / 2\<rceil>)" using assms(2) by simp
  moreover have "be_clock env ?k \<le> be_clock env (Suc (Suc ?k))" by (rule monoD [OF assms(3)]) simp
  ultimately have "be_clock env ?k + T \<le> be_clock env (Suc (Suc ?k)) + 2 * of_nat (nat \<lceil>T / 2\<rceil>)"
    by linarith
  from poll_within [where env_clock = "be_clock env", OF this] clock assms(1)
  show ?thesis by (simp add: materialize_def)
qed

text \<open>
  With a timeout of \<open>nan\<close> (or infinity), which the settings accept, a workspace that never
  materialises is polled forever.
\<close>

lemma materialize_never_gives_up:
  assumes "st_sandbox_ready_timeout st \<in> {FNan, FInf True}"
    and "\<And>n. be_copy env n = Inr (0, '''')" and "\<And>n. be_ready env n = Inr False"
    and "\<And>n. be_pause env n = Inr ()"
  shows "materialize env st container dest s = None"
proof -
  have "ev = env \<longrightarrow> d \<notin> {FNan, FInf True}" if ret: "poll_workspace ev d m c p s = Some y"
    for ev d m c p y and s :: "('a, 'b) bridge_state_scheme"
  proof (rule poll_workspace.raw_induct
      [where P = "\<lambda>ev d m c p s y. ev = env \<longrightarrow> d \<notin> {FNan, FInf True}", OF _ ret], goal_cases)
    case (1 f ev d m c p s y)
    from 1(2) show ?case
      using assms(2-4) by (cases y) (auto simp: ask_simps dest: 1(1) split: if_splits)
  qed
  then show ?thesis
    using assms(1) by (cases "materialize env st container dest s") (fastforce simp: materialize_def)+
qed

section \<open>What a preparation leaves behind\<close>

lemma poll_workspace_calls:
  assumes "poll_workspace env d msg container dest s = Some (r, t)"
  shows "br_store t = br_store s \<and> (\<exists>cs. br_calls t = br_calls s @ cs \<and>
    set cs \<subseteq> {Copy container dest, Probe dest, Pause})"
proof -
  have "br_store (snd y) = br_store s \<and> (\<exists>cs. br_calls (snd y) = br_calls s @ cs \<and>
      set cs \<subseteq> {Copy c p, Probe p, Pause})"
    if ret: "poll_workspace ev d m c p s = Some y" for ev d m c p y and s :: "('a, 'b) bridge_state_scheme"
  proof (rule poll_workspace.raw_induct [where P = "\<lambda>ev d m c p s y. br_store (snd y) = br_store s \<and>
      (\<exists>cs. br_calls (snd y) = br_calls s @ cs \<and> set cs \<subseteq> {Copy c p, Probe p, Pause})", OF _ ret], goal_cases)
    case (1 f ev d m c p s y)
    let ?v = "s\<lparr>br_step := Suc (Suc (Suc (br_step s))), br_calls := br_calls s @ [Copy c p, Probe p, Pause]\<rparr>"
    have rec: "f ev d m c p ?v = Some y \<Longrightarrow> ?case"
      using 1(1) [of ev d m c p ?v y] by auto
    from 1(2) show ?case
      by (auto simp: ask_simps split: sum.splits if_splits prod.splits dest!: rec)
  qed
  from this [OF assms] show ?thesis by simp
qed

lemma create_sandbox_calls:
  "create_sandbox env st s = (r, t) \<Longrightarrow> br_store t = br_store s \<and>
   (\<exists>url branch. br_calls t = br_calls s @ [Create url branch])"
  by (auto simp: create_sandbox_def ask_def split: sum.splits)

lemma delete_sandbox_calls:
  "delete_sandbox env sid s = (r, t) \<Longrightarrow>
   br_store t = br_store s \<and> br_calls t = br_calls s @ [Remove sid]"
  by (auto simp: delete_sandbox_def ask_def split: sum.splits)

lemma remove_origin_calls:
  "remove_origin env p s = (r, t) \<Longrightarrow>
   br_store t = br_store s \<and> br_calls t = br_calls s @ [RemoveOrigin p]"
  by (auto simp: remove_origin_def ask_simps split: sum.splits)

text \<open>
  What a preparation has called when it ends: only \<open>Create\<close>, if the creation failed; otherwise the
  sandbox is removed last, or \<open>git\<close> was called last and could not be started, or it was cancelled.
\<close>

definition prepared ::
  "bridge_env \<Rightarrow> settings \<Rightarrow> prompt_info \<Rightarrow> ('w, 'z) bridge_state_scheme \<Rightarrow> sandbox_workspace pyres \<Rightarrow>
   bridge_call list \<Rightarrow> 'w event_store \<Rightarrow> bool"
where
  "prepared env st info s r cs store \<longleftrightarrow>
     (case r of
        Inl e \<Rightarrow> store = br_store s \<and>
          (case fst (create_sandbox env st s) of
             Inl e0 \<Rightarrow> e = e0 \<and> (\<exists>url branch. cs = [Create url branch])
           | Inr (sid, container) \<Rightarrow>
               last cs = Remove sid \<or> \<not> is_exception e \<or>
               last cs = RemoveOrigin (workspace_dir st (pi_id info)) \<and> (\<exists>n. be_git env n = Inl e))
      | Inr w \<Rightarrow>
          fst (create_sandbox env st s) = Inr (sw_sandbox_id w, sw_container_name w) \<and>
          sw_run_id w = pi_id info \<and> sw_path w = workspace_dir st (pi_id info) \<and>
          (\<forall>sid. Remove sid \<notin> set cs) \<and> last cs = RemoveOrigin (sw_path w) \<and>
          store = emit ''sandbox_provisioned'' (provisioned_data w) (br_store s))"

lemma prepare_result:
  assumes "prepare env st info s = Some (r, t)"
  shows "\<exists>cs. br_calls t = br_calls s @ cs \<and> prepared env st info s r cs (br_store t)"
proof -
  obtain c s1 where c: "create_sandbox env st s = (c, s1)" by fastforce
  from create_sandbox_calls [OF c] obtain url branch where
    s1: "br_store s1 = br_store s" "br_calls s1 = br_calls s @ [Create url branch]" by blast
  show ?thesis
  proof (cases c)
    case (Inl e)
    with c s1 assms show ?thesis by (auto simp: prepare_def prepared_def)
  next
    case (Inr ids)
    obtain sid container where ids: "ids = (sid, container)" by (cases ids)
    let ?dest = "workspace_dir st (pi_id info)"
    from assms c Inr ids obtain m s2 where m: "materialize env st container ?dest s1 = Some (m, s2)"
      by (auto simp: prepare_def Let_def split: option.splits)
    from poll_workspace_calls [OF m [unfolded materialize_def]] obtain ps where
      s2: "br_store s2 = br_store s1" "br_calls s2 = br_calls s1 @ ps"
        "set ps \<subseteq> {Copy container ?dest, Probe ?dest, Pause}" by blast
    show ?thesis
    proof (cases m)
      case (Inl e)
      obtain d s3 where d: "delete_sandbox env sid s2 = (d, s3)" by fastforce
      from delete_sandbox_calls [OF d] c Inr ids m Inl d s1 s2 assms show ?thesis
        by (auto simp: prepare_def prepared_def Let_def split: if_splits sum.splits)
    next
      case (Inr u)
      obtain g s3 where g: "remove_origin env ?dest s2 = (g, s3)" by fastforce
      have git: "\<exists>n. be_git env n = Inl e" if "g = Inl e" for e
        using g that by (auto simp: remove_origin_def ask_simps split: sum.splits)
      from remove_origin_calls [OF g] git c \<open>c = Inr ids\<close> ids m Inr g s1 s2 assms show ?thesis
        by (auto simp: prepare_def prepared_def Let_def split: sum.splits)
    qed
  qed
qed

text \<open>An answer of the API that names the sandbox but not its container is a failed creation.\<close>

lemma half_named_sandbox:
  assumes "be_create env (br_step s) = Inr (PDict body)" and "\<not> truthy (dict_get body ''containerName'' PNone)"
  shows "\<not> is_ok (fst (create_sandbox env st s))"
  using assms by (auto simp: create_sandbox_def ask_def bridge_error_def is_ok_def rbind_def split: sum.splits if_splits)

text \<open>
  C16: what a preparation leaves behind.  If \<open>prepare\<close> raises, it has recorded no event.  If the
  API had answered with the id and the container name of a new sandbox, the last call deletes this
  sandbox, unless the preparation was cancelled or its very last step, \<open>git\<close>, could not be
  started.  If the creation itself failed, nothing is called after it: a sandbox that the API
  reports by its id only, without a container name, is left to its time limit.  If \<open>prepare\<close>
  returns, the sandbox it returns was created by it and not deleted, the \<open>origin\<close> of the copy was
  dealt with last, and exactly one \<open>sandbox_provisioned\<close> event was recorded.
\<close>

theorem prepare_cleans_up:
  assumes "prepare env st info s = Some (r, t)"
  shows "\<exists>cs. br_calls t = br_calls s @ cs \<and>
    (case r of
       Inl e \<Rightarrow> br_store t = br_store s \<and>
         (case fst (create_sandbox env st s) of
            Inl e0 \<Rightarrow> e = e0 \<and> (\<exists>url branch. cs = [Create url branch])
          | Inr (sid, container) \<Rightarrow>
              last cs = Remove sid \<or> \<not> is_exception e \<or>
              last cs = RemoveOrigin (workspace_dir st (pi_id info)) \<and> (\<exists>n. be_git env n = Inl e))
     | Inr w \<Rightarrow>
         fst (create_sandbox env st s) = Inr (sw_sandbox_id w, sw_container_name w) \<and>
         sw_run_id w = pi_id info \<and> sw_path w = workspace_dir st (pi_id info) \<and>
         (\<forall>sid. Remove sid \<notin> set cs) \<and> last cs = RemoveOrigin (sw_path w) \<and>
         br_store t = emit ''sandbox_provisioned'' (provisioned_data w) (br_store s)) \<and>
    (\<forall>body. be_create env (br_step s) = Inr (PDict body) \<and> truthy (dict_get body ''sandboxId'' PNone) \<and>
         \<not> truthy (dict_get body ''containerName'' PNone) \<longrightarrow>
       \<not> is_ok r \<and> (\<exists>url branch. cs = [Create url branch]))"
proof -
  from prepare_result [OF assms] obtain cs where
    cs: "br_calls t = br_calls s @ cs" "prepared env st info s r cs (br_store t)" by blast
  have "\<not> is_ok r \<and> (\<exists>url branch. cs = [Create url branch])"
    if "\<not> is_ok (fst (create_sandbox env st s))"
    using cs(2) that by (auto simp: prepared_def is_ok_def split: sum.splits)
  with cs half_named_sandbox show ?thesis unfolding prepared_def by blast
qed

text \<open>Without a \<open>git\<close> to start, the sandbox of a failed run is left to its time limit.\<close>

lemma prepare_leaks_without_git:
  assumes "be_git env n = Inl (PyExc OSError m)" and "br_step s2 = n"
    and "create_sandbox env st s = (Inr (sid, container), s1)"
    and "materialize env st container (workspace_dir st (pi_id info)) s1 = Some (Inr (), s2)"
  shows "\<exists>t. prepare env st info s = Some (Inl (PyExc OSError m), t) \<and>
    br_calls t = br_calls s2 @ [RemoveOrigin (workspace_dir st (pi_id info))]"
  using assms by (simp add: prepare_def Let_def remove_origin_def ask_simps)

lemma release_result:
  assumes "release env w s = (r, t)"
  shows "br_calls t = br_calls s @ [Remove (sw_sandbox_id w)] \<and>
    (case r of
       Inl e \<Rightarrow> \<not> is_exception e \<and> br_store t = br_store s
     | Inr _ \<Rightarrow> \<exists>ok. br_store t = emit ''sandbox_released''
         [(''run_id'', PStr (sw_run_id w)), (''sandbox_id'', PStr (sw_sandbox_id w)), (''ok'', PBool ok)]
         (br_store s))"
proof -
  obtain d u where d: "delete_sandbox env (sw_sandbox_id w) s = (d, u)" by fastforce
  from delete_sandbox_calls [OF d] d assms show ?thesis
    by (auto simp: release_def split: sum.splits if_splits)
qed

section \<open>Instances\<close>

text \<open>An API that creates the sandbox \<open>s1\<close>, and a \<open>docker\<close> with the given answer.\<close>

definition sample_env :: "int \<times> string \<Rightarrow> bool \<Rightarrow> bridge_env" where
  "sample_env copy ready =
     \<lparr>be_create = (\<lambda>_. Inr (PDict [(''sandboxId'', PStr ''s1''), (''containerName'', PStr ''c1'')])),
      be_copy = (\<lambda>_. Inr copy), be_ready = (\<lambda>_. Inr ready), be_pause = (\<lambda>_. Inr ()),
      be_git = (\<lambda>_. Inr (0, '''')), be_delete = (\<lambda>_. Inr 204), be_clock = (\<lambda>n. 2 * of_nat n)\<rparr>"

definition sample_settings :: settings where
  "sample_settings = Settings ''h'' 1 ''s'' 2 ''INFO''"

definition sample_bridge :: "unit bridge_state" where
  "sample_bridge = \<lparr>br_step = 0, br_calls = [], br_store = EventStore 9 None 7 ''0a1b2c3d'' (\<lambda>_. 0) ()\<rparr>"

definition sample_envelope :: prompt_info where
  "sample_envelope = PromptInfo ''r1'' 0 ''d1'' ''o/r'' ''issues'' ''labeled'' ''x'' PNone"

theorem materialize_terminates_witness:
  "\<exists>r t. materialize (sample_env (0, '''') False) sample_settings ''c1'' ''/w'' sample_bridge = Some (r, t) \<and>
    br_step t \<le> 452"
  using materialize_terminates [of sample_settings 300 "sample_env (0, '''') False" sample_bridge "''c1''" "''/w''"]
  by (simp add: sample_settings_def sample_env_def sample_bridge_def Settings_def mono_def)

lemma sample_prepare_fails:
  "\<exists>t. prepare (sample_env (1, ''no'') False) sample_settings sample_envelope sample_bridge =
     Some (bridge_error ''docker cp c1:/workspace/. failed: no'', t)"
proof -
  have "py_strip ''no'' = ''no''" by code_simp
  then show ?thesis
    by (simp add: prepare_def create_sandbox_def sample_env_def sample_bridge_def materialize_def
        poll_workspace.simps ask_simps delete_sandbox_def is_exception_def dict_get_def)
qed

theorem prepare_cleans_up_witness:
  "\<exists>t cs. prepare (sample_env (1, ''no'') False) sample_settings sample_envelope sample_bridge =
     Some (bridge_error ''docker cp c1:/workspace/. failed: no'', t) \<and>
     br_calls t = cs \<and> last cs = Remove ''s1''"
proof -
  from sample_prepare_fails obtain t where run:
    "prepare (sample_env (1, ''no'') False) sample_settings sample_envelope sample_bridge =
       Some (bridge_error ''docker cp c1:/workspace/. failed: no'', t)" by blast
  have "fst (create_sandbox (sample_env (1, ''no'') False) sample_settings sample_bridge) = Inr (''s1'', ''c1'')"
    by (simp add: create_sandbox_def sample_env_def sample_bridge_def ask_def dict_get_def)
  moreover have "pi_id sample_envelope = ''r1''" "br_calls sample_bridge = []"
    "be_git (sample_env (1, ''no'') False) n = Inr (0, '''')" for n
    by (simp_all add: sample_envelope_def PromptInfo_def sample_bridge_def sample_env_def)
  ultimately show ?thesis
    using prepare_cleans_up [OF run] run by (auto simp: bridge_error_def is_exception_def)
qed

end
