(* ===== verification/File_System.thy ===== *)
theory File_System
  imports Py_Str
begin

text \<open>
  The file system below the trace root, as the durable log and the harness trace use it: files in
  the root directory and run directories of files.  Every system call may fail: a plan of faults,
  indexed by the number of the call, decides which one raises an \<open>OSError\<close> and how many bytes
  (or directory entries) an interrupted call has dealt with before.  Operations are functions of
  the state that return a result or an exception, with the combinators that sequence them and
  catch an \<open>OSError\<close>.
\<close>

section \<open>State\<close>

datatype node =
    File (content_of: string)
  | Dir (mtime_of: rat) (files_of: "(string \<times> string) list")

datatype fault = Fine | Broken nat

record fs =
  fs_root :: bool
  fs_nodes :: "(string \<times> node) list"
  fs_clock :: "nat \<Rightarrow> rat"
  fs_faults :: "nat \<Rightarrow> fault"
  fs_tick :: nat

section \<open>Sequencing\<close>

type_synonym 'a io = "(fs, 'a) action"

text \<open>\<open>try: m except OSError: h\<close>\<close>

definition io_catch :: "'a io \<Rightarrow> 'a io \<Rightarrow> 'a io" where
  "io_catch m h s =
     (case m s of
        (Inl e, t) \<Rightarrow> if is_os_error e then h t else (Inl e, t)
      | (Inr x, t) \<Rightarrow> (Inr x, t))"

definition os_error :: pyexc where
  "os_error = PyExc OSError ''input/output error''"

lemma is_os_error_os_error [simp]: "is_os_error os_error"
  by (simp add: os_error_def is_os_error_def)

text \<open>One system call: the plan decides whether it fails, and with how much done.\<close>

definition syscall :: "(nat \<Rightarrow> fs \<Rightarrow> fs) \<Rightarrow> 'a io \<Rightarrow> 'a io" where
  "syscall partial act s =
     (let t = s\<lparr>fs_tick := Suc (fs_tick s)\<rparr> in
      case fs_faults s (fs_tick s) of
        Fine \<Rightarrow> act t
      | Broken k \<Rightarrow> (Inl os_error, partial k t))"

abbreviation plain_call :: "'a io \<Rightarrow> 'a io" where
  "plain_call \<equiv> syscall (\<lambda>_ s. s)"

definition fail :: "'a io" where
  "fail s = (Inl os_error, s)"

section \<open>Calls\<close>

definition put_node :: "string \<Rightarrow> node \<Rightarrow> fs \<Rightarrow> fs" where
  "put_node name nd s = s\<lparr>fs_nodes := upsert name nd (fs_nodes s)\<rparr>"

definition mkdir_root :: "unit io" where
  "mkdir_root = plain_call (\<lambda>s. (Inr (), s\<lparr>fs_root := True\<rparr>))"

definition stat_size :: "string \<Rightarrow> nat io" where
  "stat_size name = plain_call (\<lambda>s.
     case map_of (fs_nodes s) name of
       Some (File c) \<Rightarrow> (Inr (length c), s)
     | Some (Dir _ _) \<Rightarrow> (Inr 0, s)
     | None \<Rightarrow> fail s)"

definition path_exists :: "string \<Rightarrow> bool io" where
  "path_exists name = plain_call (\<lambda>s. (Inr (map_of (fs_nodes s) name \<noteq> None), s))"

text \<open>\<open>os.replace\<close> of two files in the root.\<close>

definition replace_file :: "string \<Rightarrow> string \<Rightarrow> unit io" where
  "replace_file a b = plain_call (\<lambda>s.
     case (map_of (fs_nodes s) a, map_of (fs_nodes s) b) of
       (Some (File c), Some (Dir _ _)) \<Rightarrow> fail s
     | (Some (File c), _) \<Rightarrow> (Inr (), put_node b (File c) (s\<lparr>fs_nodes := remove_key a (fs_nodes s)\<rparr>))
     | _ \<Rightarrow> fail s)"

text \<open>
  \<open>open("a")\<close> creates the file; an interrupted \<open>write\<close> has appended a prefix.
\<close>

definition file_content :: "string \<Rightarrow> fs \<Rightarrow> string" where
  "file_content name s = (case map_of (fs_nodes s) name of Some (File c) \<Rightarrow> c | _ \<Rightarrow> '''')"

definition open_append :: "string \<Rightarrow> unit io" where
  "open_append name = plain_call (\<lambda>s.
     case map_of (fs_nodes s) name of
       Some (Dir _ _) \<Rightarrow> fail s
     | _ \<Rightarrow> if fs_root s then (Inr (), put_node name (File (file_content name s)) s) else fail s)"

definition add_text :: "string \<Rightarrow> string \<Rightarrow> fs \<Rightarrow> fs" where
  "add_text name txt s = put_node name (File (file_content name s @ txt)) s"

definition write_text :: "string \<Rightarrow> string \<Rightarrow> unit io" where
  "write_text name line =
     syscall (\<lambda>k s. add_text name (take k line) s) (\<lambda>s. (Inr (), add_text name line s))"

definition append_file :: "string \<Rightarrow> string \<Rightarrow> unit io" where
  "append_file name line = io_bind (open_append name) (\<lambda>_. write_text name line)"

text \<open>Files in a run directory.  Creating an entry changes the modification time of the directory.\<close>

definition mkdir_run :: "string \<Rightarrow> unit io" where
  "mkdir_run d = plain_call (\<lambda>s.
     case map_of (fs_nodes s) d of
       Some (File _) \<Rightarrow> fail s
     | Some (Dir _ _) \<Rightarrow> (Inr (), s)
     | None \<Rightarrow> (Inr (), put_node d (Dir (fs_clock s (fs_tick s)) []) (s\<lparr>fs_root := True\<rparr>)))"

definition run_files :: "string \<Rightarrow> fs \<Rightarrow> (string \<times> string) list" where
  "run_files d s = (case map_of (fs_nodes s) d of Some (Dir _ fl) \<Rightarrow> fl | _ \<Rightarrow> [])"

definition run_file :: "string \<Rightarrow> string \<Rightarrow> fs \<Rightarrow> string option" where
  "run_file d name s = map_of (run_files d s) name"

definition put_run_file :: "string \<Rightarrow> string \<Rightarrow> string \<Rightarrow> fs \<Rightarrow> fs" where
  "put_run_file d name txt s =
     (case map_of (fs_nodes s) d of
        Some (Dir m fl) \<Rightarrow>
          put_node d (Dir (if map_of fl name = None then fs_clock s (fs_tick s) else m) (upsert name txt fl)) s
      | _ \<Rightarrow> s)"

definition is_run_dir :: "string \<Rightarrow> fs \<Rightarrow> bool" where
  "is_run_dir d s = (case map_of (fs_nodes s) d of Some (Dir _ _) \<Rightarrow> True | _ \<Rightarrow> False)"

definition open_run_file :: "bool \<Rightarrow> string \<Rightarrow> string \<Rightarrow> unit io" where
  "open_run_file fresh d name = plain_call (\<lambda>s.
     if is_run_dir d s
     then (Inr (), put_run_file d name
             (if fresh then '''' else case run_file d name s of Some c \<Rightarrow> c | None \<Rightarrow> '''') s)
     else fail s)"

definition add_run_text :: "string \<Rightarrow> string \<Rightarrow> string \<Rightarrow> fs \<Rightarrow> fs" where
  "add_run_text d name txt s =
     put_run_file d name ((case run_file d name s of Some c \<Rightarrow> c | None \<Rightarrow> '''') @ txt) s"

definition write_run_file :: "string \<Rightarrow> string \<Rightarrow> string \<Rightarrow> unit io" where
  "write_run_file d name txt =
     syscall (\<lambda>k s. add_run_text d name (take k txt) s) (\<lambda>s. (Inr (), add_run_text d name txt s))"

definition replace_run_file :: "string \<Rightarrow> string \<Rightarrow> string \<Rightarrow> unit io" where
  "replace_run_file d a b = plain_call (\<lambda>s.
     case map_of (fs_nodes s) d of
       Some (Dir m fl) \<Rightarrow>
         (case map_of fl a of
            Some c \<Rightarrow> (Inr (), put_node d (Dir (fs_clock s (fs_tick s)) (upsert b c (remove_key a fl))) s)
          | None \<Rightarrow> fail s)
     | _ \<Rightarrow> fail s)"

definition list_root :: "(string \<times> node) list io" where
  "list_root = plain_call (\<lambda>s. if fs_root s then (Inr (fs_nodes s), s) else fail s)"

definition stat_mtime :: "string \<Rightarrow> rat io" where
  "stat_mtime d = plain_call (\<lambda>s.
     case map_of (fs_nodes s) d of Some (Dir m _) \<Rightarrow> (Inr m, s) | _ \<Rightarrow> fail s)"

text \<open>An interrupted \<open>rmtree\<close> has deleted some of the files.\<close>

definition rmtree :: "string \<Rightarrow> unit io" where
  "rmtree d = syscall
     (\<lambda>k s. case map_of (fs_nodes s) d of
              Some (Dir m fl) \<Rightarrow> put_node d (Dir (if k = 0 then m else fs_clock s (fs_tick s)) (drop k fl)) s | _ \<Rightarrow> s)
     (\<lambda>s. if is_run_dir d s then (Inr (), s\<lparr>fs_nodes := remove_key d (fs_nodes s)\<rparr>) else fail s)"

section \<open>Exceptions and frames\<close>

text \<open>A computation whose exceptions are \<open>OSError\<close>s.\<close>

definition os_only :: "'a io \<Rightarrow> bool" where
  "os_only m \<longleftrightarrow> (\<forall>s. raises is_os_error (fst (m s)))"

lemma os_only_return [intro]: "os_only (io_return x)"
  by (simp add: os_only_def io_return_def)

lemma os_onlyI: "(\<And>s e t. m s = (Inl e, t) \<Longrightarrow> is_os_error e) \<Longrightarrow> os_only m"
  unfolding os_only_def by (metis (no_types) old.sum.exhaust prod.collapse raises_simps)

lemma os_onlyD: "os_only m \<Longrightarrow> m s = (Inl e, t) \<Longrightarrow> is_os_error e"
  unfolding os_only_def by (metis fst_conv raises_simps(1))

lemma os_only_bind [intro]: "os_only m \<Longrightarrow> (\<And>x. os_only (f x)) \<Longrightarrow> os_only (io_bind m f)"
  by (rule os_onlyI) (auto simp: io_bind_def dest: os_onlyD split: prod.splits sum.splits)

lemma os_only_syscall [intro]: "os_only act \<Longrightarrow> os_only (syscall p act)"
  by (auto simp: os_only_def syscall_def Let_def split: fault.splits)

lemma os_only_if [intro]: "os_only m \<Longrightarrow> os_only n \<Longrightarrow> os_only (if b then m else n)"
  by simp

lemma fail_result [simp]: "fail s = (Inl os_error, s)"
  by (simp add: fail_def)

lemma os_only_catch: "os_only h \<Longrightarrow> os_only m \<Longrightarrow> os_only (io_catch m h)"
  by (rule os_onlyI)
    (auto simp: io_catch_def dest: os_onlyD split: prod.splits sum.splits if_splits)

text \<open>Once every \<open>OSError\<close> is caught nothing is raised.\<close>

lemma catch_total:
  assumes "os_only m" and "\<And>s. is_ok (fst (h s))"
  shows "is_ok (fst (io_catch m h s))"
proof (cases "m s")
  case (Pair r t)
  with assms(1) have "raises is_os_error r" unfolding os_only_def by (metis fst_conv)
  with Pair assms(2) show ?thesis by (cases r) (auto simp: io_catch_def)
qed

named_theorems os_calls \<open>calls that raise \<open>OSError\<close> only\<close>

lemma os_only_calls [os_calls, intro]:
  "os_only mkdir_root" "os_only (stat_size a)" "os_only (path_exists a)" "os_only (replace_file a b)"
  "os_only (open_append a)" "os_only (write_text a t)" "os_only (mkdir_run a)"
  "os_only (open_run_file tr a b)" "os_only (write_run_file a b t)" "os_only (replace_run_file a b c)"
  "os_only list_root" "os_only (stat_mtime a)" "os_only (rmtree a)"
  by (auto simp: os_only_def syscall_def Let_def mkdir_root_def stat_size_def path_exists_def
      replace_file_def open_append_def write_text_def mkdir_run_def open_run_file_def
      write_run_file_def replace_run_file_def list_root_def stat_mtime_def rmtree_def
      split: fault.splits option.splits node.splits)

lemma os_only_lift: "raises is_os_error r \<Longrightarrow> os_only (io_lift r)"
  by (simp add: os_only_def io_lift_def)

text \<open>No call changes the fault plan or the clock; a state without faults stays one.\<close>

definition faultless :: "fs \<Rightarrow> bool" where
  "faultless s \<longleftrightarrow> (\<forall>n. fs_faults s n = Fine)"

definition wf_fs :: "fs \<Rightarrow> bool" where
  "wf_fs s \<longleftrightarrow> distinct (map fst (fs_nodes s))"

text \<open>A condition that every call keeps whatever happens: carried through the combinators.\<close>

definition keeps :: "(fs \<Rightarrow> fs \<Rightarrow> bool) \<Rightarrow> 'a io \<Rightarrow> bool" where
  "keeps R m \<longleftrightarrow> (\<forall>s. R s (snd (m s)))"

lemma keepsI: "(\<And>s. R s (snd (m s))) \<Longrightarrow> keeps R m"
  by (simp add: keeps_def)

lemma keepsD: "keeps R m \<Longrightarrow> m s = (r, t) \<Longrightarrow> R s t"
  unfolding keeps_def by (metis snd_conv)

lemma keeps_step: "keeps R m \<Longrightarrow> R s (snd (m s))"
  by (simp add: keeps_def)

locale frame =
  fixes R :: "fs \<Rightarrow> fs \<Rightarrow> bool"
  assumes refl [simp]: "R s s"
    and trans: "R s t \<Longrightarrow> R t u \<Longrightarrow> R s u"
    and tick: "R s (s\<lparr>fs_tick := n\<rparr>)"
begin

lemma keeps_return [intro]: "keeps R (io_return x)"
  by (simp add: keeps_def io_return_def)

lemma keeps_lift [intro]: "keeps R (io_lift x)"
  by (simp add: keeps_def io_lift_def)

lemma keeps_bind [intro]: "keeps R m \<Longrightarrow> (\<And>x. keeps R (f x)) \<Longrightarrow> keeps R (io_bind m f)"
  by (rule keepsI)
    (auto simp: io_bind_def dest: keepsD intro: trans [OF keepsD keeps_step] split: prod.splits sum.splits)

lemma keeps_catch [intro]: "keeps R m \<Longrightarrow> keeps R h \<Longrightarrow> keeps R (io_catch m h)"
  by (rule keepsI)
    (auto simp: io_catch_def dest: keepsD intro: trans [OF keepsD keeps_step] split: prod.splits sum.splits)

lemma keeps_if [intro]: "keeps R m \<Longrightarrow> keeps R n \<Longrightarrow> keeps R (if b then m else n)"
  by simp

lemma keeps_syscall:
  assumes "\<And>k s. R s (partial k s)" and "keeps R act"
  shows "keeps R (syscall partial act)"
proof (rule keepsI)
  fix s :: fs
  let ?t = "s\<lparr>fs_tick := Suc (fs_tick s)\<rparr>"
  have "R ?t (snd (syscall partial act s))"
    using assms keeps_step by (auto simp: syscall_def Let_def split: fault.splits)
  with tick show "R s (snd (syscall partial act s))" by (blast intro: trans)
qed

lemma keeps_plain_call: "keeps R act \<Longrightarrow> keeps R (plain_call act)"
  by (rule keeps_syscall) simp

lemma keeps_stat_mtime: "keeps R (stat_mtime d)"
  unfolding stat_mtime_def
  by (rule keeps_plain_call) (auto simp: keeps_def split: option.splits node.splits)

lemma keeps_list_root: "keeps R list_root"
  unfolding list_root_def by (rule keeps_plain_call) (auto simp: keeps_def)

lemma keeps_stat_size: "keeps R (stat_size d)"
  unfolding stat_size_def
  by (rule keeps_plain_call) (auto simp: keeps_def split: option.splits node.splits)

lemma keeps_path_exists: "keeps R (path_exists d)"
  unfolding path_exists_def by (rule keeps_plain_call) (auto simp: keeps_def)

lemmas keeps_reads = keeps_stat_mtime keeps_list_root keeps_stat_size keeps_path_exists

end

text \<open>The frames: the plan stays, the names stay distinct, and one entry stays as it is.\<close>

definition same_plan :: "fs \<Rightarrow> fs \<Rightarrow> bool" where
  "same_plan s t \<longleftrightarrow> fs_faults t = fs_faults s \<and> fs_clock t = fs_clock s \<and> (wf_fs s \<longrightarrow> wf_fs t)"

definition same_nodes :: "string set \<Rightarrow> fs \<Rightarrow> fs \<Rightarrow> bool" where
  "same_nodes N s t \<longleftrightarrow> (\<forall>n \<in> N. map_of (fs_nodes t) n = map_of (fs_nodes s) n)"

interpretation plan: frame same_plan
  by unfold_locales (auto simp: same_plan_def wf_fs_def)

interpretation nodes: frame "same_nodes N" for N
  by unfold_locales (auto simp: same_nodes_def)

lemma same_plan_put_node [simp]: "same_plan s (put_node d nd s)"
  by (auto simp: same_plan_def put_node_def wf_fs_def distinct_upsert)

lemma same_plan_remove: "same_plan s (s\<lparr>fs_nodes := remove_key d (fs_nodes s)\<rparr>)"
  by (auto simp: same_plan_def wf_fs_def distinct_remove_key)

lemma same_nodes_put_node: "d \<notin> N \<Longrightarrow> same_nodes N s (put_node d nd s)"
  by (auto simp: same_nodes_def put_node_def)

lemma same_nodes_remove: "d \<notin> N \<Longrightarrow> same_nodes N s (s\<lparr>fs_nodes := remove_key d (fs_nodes s)\<rparr>)"
  by (auto simp: same_nodes_def)

lemma plan_run_file:
  "keeps same_plan (open_run_file b d n)" "keeps same_plan (write_run_file d n c)"
  "keeps same_plan (replace_run_file d a n)"
proof -
  have put: "same_plan s (put_run_file d n c s)" for s d n c
    by (auto simp: put_run_file_def plan.refl split: option.splits node.splits)
  show "keeps same_plan (open_run_file b d n)"
    unfolding open_run_file_def by (rule plan.keeps_plain_call) (auto simp: keeps_def put)
  show "keeps same_plan (write_run_file d n c)"
    unfolding write_run_file_def by (rule plan.keeps_syscall) (auto simp: keeps_def add_run_text_def put)
  show "keeps same_plan (replace_run_file d a n)"
    unfolding replace_run_file_def
    by (rule plan.keeps_plain_call) (auto simp: keeps_def split: option.splits node.splits)
qed

lemma faultless_plan: "same_plan s t \<Longrightarrow> faultless s \<Longrightarrow> faultless t"
  by (simp add: same_plan_def faultless_def)

lemma plan_rmtree: "keeps same_plan (rmtree d)"
  unfolding rmtree_def
  by (rule plan.keeps_syscall)
    (auto simp: keeps_def same_plan_remove split: option.splits node.splits)

lemma nodes_rmtree: "d \<notin> N \<Longrightarrow> keeps (same_nodes N) (rmtree d)"
  unfolding rmtree_def
  by (rule nodes.keeps_syscall)
    (auto simp: keeps_def same_nodes_remove same_nodes_put_node split: option.splits node.splits)

section \<open>Reading\<close>

definition read_file :: "string \<Rightarrow> string io" where
  "read_file name = plain_call (\<lambda>s.
     case map_of (fs_nodes s) name of Some (File c) \<Rightarrow> (Inr c, s) | _ \<Rightarrow> fail s)"

definition read_run_file :: "string \<Rightarrow> string \<Rightarrow> string io" where
  "read_run_file d name = plain_call (\<lambda>s.
     case run_file d name s of Some c \<Rightarrow> (Inr c, s) | None \<Rightarrow> fail s)"

definition run_is_file :: "string \<Rightarrow> string \<Rightarrow> bool io" where
  "run_is_file d name = plain_call (\<lambda>s. (Inr (run_file d name s \<noteq> None), s))"

definition stat_run_size :: "string \<Rightarrow> string \<Rightarrow> nat io" where
  "stat_run_size d name = plain_call (\<lambda>s.
     case run_file d name s of Some c \<Rightarrow> (Inr (length c), s) | None \<Rightarrow> fail s)"

lemma os_only_reads [os_calls, intro]:
  "os_only (read_file a)" "os_only (read_run_file a b)" "os_only (run_is_file a b)"
  "os_only (stat_run_size a b)"
  by (auto simp: os_only_def syscall_def Let_def read_file_def read_run_file_def run_is_file_def
      stat_run_size_def split: fault.splits option.splits node.splits)

end
