(* ===== verification/Acp_Client.thy ===== *)
theory Acp_Client
  imports Acp_Policy Sandbox_Bridge File_System
begin

text \<open>
  The parts of \<open>acp_host.py\<close> around a session: the choice between the outcomes of prompt and
  watchdog, the prompt, the mapping of protocol updates and permission requests to events, the
  idle watchdog, and the choice and preparation of the workspace.  A protocol object is seen
  through \<open>getattr\<close>: an \<open>update\<close> has its type name, the attributes it carries and itself as a
  value for \<open>_json_safe\<close>.
\<close>

section \<open>The prompt/watchdog race\<close>

datatype 'a task = Pending | Cancelled | Failed pyexc | Finished 'a

fun task_exception :: "'a task \<Rightarrow> pyexc option" where
  "task_exception (Failed e) = Some e"
| "task_exception _ = None"

definition resolve_prompt_race :: "'a task \<Rightarrow> unit task \<Rightarrow> 'a pyres" where
  "resolve_prompt_race prompt_task watchdog_task =
     (let prompt_exc = task_exception prompt_task;
          watchdog_exc = task_exception watchdog_task
      in case prompt_task of
           Finished r \<Rightarrow> Inr r
         | _ \<Rightarrow>
             (case watchdog_exc of
                Some e \<Rightarrow> Inl e
              | None \<Rightarrow>
                  (case prompt_exc of
                     Some e \<Rightarrow> Inl e
                   | None \<Rightarrow> Inl (PyExc AcpHostError
                       ''prompt ended cancelled with no verdict (idle watchdog still pending)''))))"

text \<open>
  A result of the prompt wins against every verdict; a verdict of the watchdog wins against a
  failure of the prompt, which the documentation ranks the other way round.
\<close>

lemma race_result: "resolve_prompt_race (Finished r) w = Inr r"
  by (simp add: resolve_prompt_race_def)

lemma race_verdict_beats_failure: "resolve_prompt_race (Failed e) (Failed v) = Inl v"
  by (simp add: resolve_prompt_race_def)

lemma race_is_exception:
  "resolve_prompt_race p w = Inl e \<Longrightarrow> task_exception p \<noteq> Some (PyExc CancelledError m) \<Longrightarrow>
   e \<in> {x. task_exception w = Some x \<or> task_exception p = Some x} \<or> exc_of e = AcpHostError"
  by (cases p) (auto simp: resolve_prompt_race_def split: option.splits)

section \<open>Binary and prompt\<close>

definition host_error :: "string \<Rightarrow> 'a pyres" where
  "host_error msg = Inl (PyExc AcpHostError msg)"

text \<open>\<open>shutil.which\<close>, the home directory and \<open>is_file\<close> are the arguments.\<close>

definition resolve_opencode_bin ::
  "settings \<Rightarrow> string option \<Rightarrow> string \<Rightarrow> (string \<Rightarrow> bool) \<Rightarrow> string pyres"
where
  "resolve_opencode_bin st which home is_file =
     (if st_acp_opencode_bin st \<noteq> '''' then Inr (st_acp_opencode_bin st)
      else if text_or which '''' \<noteq> '''' then Inr (text_or which '''')
      else if is_file (path_join home ''.opencode/bin/opencode'')
      then Inr (path_join home ''.opencode/bin/opencode'')
      else host_error ''opencode binary not found (set ACP_OPENCODE_BIN or install opencode)'')"

definition build_prompt :: "prompt_info \<Rightarrow> string" where
  "build_prompt info =
     (case pi_prompt info of
        Some p \<Rightarrow> p
      | None \<Rightarrow>
          ''GitHub webhook received for repository '' @ [CHR 0x27] @ pi_repo info @ [CHR 0x27] @ '': ''
          @ ''event='' @ pi_event info @ '', action='' @ pi_action info @ '', label='' @ [CHR 0x27]
          @ pi_label info @ [CHR 0x27] @ '', '' @ ''delivery_id='' @ pi_delivery_id info
          @ ''. This is an automated pipeline ''
          @ ''check: reply with one short sentence acknowledging the event, ''
          @ ''then end your turn. Do not modify any files.'')"

section \<open>Updates\<close>

text \<open>\<open>model_dump\<close> of an opaque object is its second component; without one it is stringified.\<close>

fun json_safe :: "pyval \<Rightarrow> pyval" where
  "json_safe (PObj s dump) = (case dump of Some v \<Rightarrow> v | None \<Rightarrow> PStr s)"
| "json_safe (PList xs) = PList (map json_safe xs)"
| "json_safe (PTuple xs) = PList (map json_safe xs)"
| "json_safe (PDict kvs) = PDict (map (\<lambda>(k, v). (k, json_safe v)) kvs)"
| "json_safe v = v"

record update =
  up_type :: string
  up_attrs :: data
  up_content :: data
  up_self :: pyval

definition attr :: "update \<Rightarrow> string \<Rightarrow> pyval" where
  "attr u k = dict_get (up_attrs u) k PNone"

definition update_kind :: "update \<Rightarrow> pyval" where
  "update_kind u = dict_get (up_attrs u) ''session_update'' (PStr (up_type u))"

definition CHUNK_KINDS :: "string list" where
  "CHUNK_KINDS = [''user_message_chunk'', ''agent_message_chunk'', ''agent_thought_chunk'']"

definition passthrough :: "string \<Rightarrow> update \<Rightarrow> string \<times> data" where
  "passthrough run_id u =
     (''agent_update'', [(''run_id'', PStr run_id), (''kind'', update_kind u),
                        (''payload'', json_safe (up_self u))])"

text \<open>The event of an update: its type and data.\<close>

definition update_event :: "string \<Rightarrow> update \<Rightarrow> string \<times> data" where
  "update_event run_id u =
     (case update_kind u of
        PStr kind \<Rightarrow>
          (let run = (''run_id'', PStr run_id) in
           if kind \<in> set CHUNK_KINDS then
             (let txt = dict_get (up_content u) ''text'' PNone in
              if truthy txt then (kind, [run, (''text'', txt)]) else passthrough run_id u)
           else if kind \<in> {''tool_call'', ''tool_call_update''} then
             (''agent_tool_call'',
              [run, (''tool_call_id'', attr u ''tool_call_id''), (''title'', attr u ''title''),
               (''kind'', attr u ''kind''), (''status'', attr u ''status'')])
           else if kind = ''usage_update'' then
             (''agent_usage'', [run, (''used'', attr u ''used''), (''size'', attr u ''size''),
                               (''cost'', attr u ''cost'')])
           else if kind = ''plan'' then
             (''agent_plan'', [run, (''entries'', json_safe (attr u ''entries''))])
           else if kind = ''plan_update'' then
             (''agent_plan_update'', [run, (''plan'', json_safe (attr u ''plan''))])
           else if kind = ''plan_removed'' then
             (''agent_plan_removed'', [run, (''plan_id'', attr u ''plan_id'')])
           else if kind = ''available_commands_update'' then
             (''agent_commands_update'', [run, (''commands'', json_safe (attr u ''available_commands''))])
           else if kind = ''current_mode_update'' then
             (''agent_mode_update'', [run, (''mode_id'', attr u ''current_mode_id'')])
           else if kind = ''session_info_update'' then
             (''agent_session_info'', [run, (''title'', attr u ''title''),
                                      (''updated_at'', attr u ''updated_at'')])
           else if kind = ''config_option_update'' then
             (''agent_config_update'', [run, (''options'', json_safe (attr u ''config_options''))])
           else passthrough run_id u)
      | _ \<Rightarrow> passthrough run_id u)"

text \<open>The callbacks of the client: the heartbeat and the event store.\<close>

definition session_update :: "string \<Rightarrow> rat \<Rightarrow> update \<Rightarrow> rat \<times> 'w event_store \<Rightarrow> rat \<times> 'w event_store" where
  "session_update run_id now u s = (now, (case update_event run_id u of (t, d) \<Rightarrow> emit t d (snd s)))"

definition option_str :: "string option \<Rightarrow> pyval" where
  "option_str x = (case x of None \<Rightarrow> PNone | Some s \<Rightarrow> PStr s)"

definition permission_event :: "string \<Rightarrow> tool_call \<Rightarrow> permission_decision \<Rightarrow> string \<times> data" where
  "permission_event run_id tc decision =
     (''agent_permission'',
      [(''run_id'', PStr run_id), (''title'', option_str (tc_title tc)),
       (''action'', PStr (pd_action decision)), (''reason'', PStr (pd_reason decision))])"

definition request_permission ::
  "regex_engine \<Rightarrow> settings \<Rightarrow> string \<Rightarrow> tool_call \<Rightarrow> permission_option list \<Rightarrow> 'w event_store \<Rightarrow>
   permission_outcome \<times> 'w event_store"
where
  "request_permission re st run_id tc opts s =
     (let decision = decide re tc st in
      (respond opts decision,
       case permission_event run_id tc decision of (t, d) \<Rightarrow> emit t d s))"

section \<open>The idle watchdog\<close>

text \<open>
  What the watchdog meets at its wake-ups: the outcome of each sleep, the two readings of the
  clock and the heartbeat between them.  \<open>None\<close> is a watchdog that never ends; otherwise the
  wake-up that ended it and the exception.
\<close>

record wakes =
  wk_sleep :: "nat \<Rightarrow> unit pyres"
  wk_now :: "nat \<Rightarrow> rat"
  wk_last :: "nat \<Rightarrow> rat"
  wk_now2 :: "nat \<Rightarrow> rat"

definition poll_interval :: "pyfloat \<Rightarrow> pyfloat \<Rightarrow> pyfloat" where
  "poll_interval idle cap =
     py_min (py_min idle (if FFin 0 < cap then cap else idle)) (FFin 5)"

definition idle_message :: "rat \<Rightarrow> pyfloat \<Rightarrow> string" where
  "idle_message silent_for idle =
     ''idle watchdog killed the run after '' @ fmt0 (FFin silent_for) @ ''s with ''
     @ ''no session updates (limit '' @ fmt0 idle @ ''s, '' @ ''ACP_IDLE_TIMEOUT)''"

definition cap_message :: "pyfloat \<Rightarrow> string" where
  "cap_message cap =
     ''acp run timed out after '' @ fmt0 cap @ ''s '' @ ''(hard ceiling, ACP_PROMPT_TIMEOUT)''"

partial_function (option) idle_watchdog ::
  "wakes \<Rightarrow> pyfloat \<Rightarrow> pyfloat \<Rightarrow> rat \<Rightarrow> nat \<Rightarrow> (nat \<times> pyexc) option"
where
  "idle_watchdog w idle cap started n =
     (case wk_sleep w n of
        Inl e \<Rightarrow> Some (n, e)
      | Inr _ \<Rightarrow>
          (let silent_for = wk_now w n - wk_last w n in
           if idle \<le> FFin silent_for
           then Some (n, PyExc SessionWatchdogTimeout (idle_message silent_for idle))
           else if FFin 0 < cap \<and> cap \<le> FFin (wk_now2 w n - started)
           then Some (n, PyExc SessionWatchdogTimeout (cap_message cap))
           else idle_watchdog w idle cap started (Suc n)))"

section \<open>Every update is recorded and streamable\<close>

fun dumps_plain :: "pyval \<Rightarrow> bool" where
  "dumps_plain (PObj s dump) = (case dump of Some v \<Rightarrow> plain v | None \<Rightarrow> True)"
| "dumps_plain (PList xs) = list_all dumps_plain xs"
| "dumps_plain (PTuple xs) = list_all dumps_plain xs"
| "dumps_plain (PDict kvs) = list_all (\<lambda>kv. dumps_plain (snd kv)) kvs"
| "dumps_plain v = True"

lemma plain_json_safe: "dumps_plain v \<Longrightarrow> plain (json_safe v)"
  by (induction v rule: json_safe.induct) (auto simp: list_all_iff split: option.splits)

text \<open>The attributes that are passed on as they are, and those that go through \<open>_json_safe\<close>.\<close>

definition RAW_ATTRS :: "string list" where
  "RAW_ATTRS = [''session_update'', ''tool_call_id'', ''title'', ''kind'', ''status'', ''used'', ''size'', ''cost'',
     ''plan_id'', ''current_mode_id'', ''updated_at'']"

definition well_dumped :: "update \<Rightarrow> bool" where
  "well_dumped u \<longleftrightarrow>
     dumps_plain (up_self u) \<and> plain (dict_get (up_content u) ''text'' PNone) \<and>
     (\<forall>(k, v) \<in> set (up_attrs u). if k \<in> set RAW_ATTRS then plain v else dumps_plain v)"

lemma well_dumped_attr:
  assumes "well_dumped u"
  shows "k \<in> set RAW_ATTRS \<Longrightarrow> plain (attr u k)" "k \<notin> set RAW_ATTRS \<Longrightarrow> dumps_plain (attr u k)"
proof -
  have "case map_of (up_attrs u) k of None \<Rightarrow> True
      | Some v \<Rightarrow> if k \<in> set RAW_ATTRS then plain v else dumps_plain v"
    using assms by (auto simp: well_dumped_def dest!: map_of_SomeD split: option.splits)
  then show "k \<in> set RAW_ATTRS \<Longrightarrow> plain (attr u k)" "k \<notin> set RAW_ATTRS \<Longrightarrow> dumps_plain (attr u k)"
    by (auto simp: attr_def dict_get_def split: option.splits)
qed

lemma plain_update_kind: "well_dumped u \<Longrightarrow> plain (update_kind u)"
  using well_dumped_attr(1) [of u "''session_update''"]
  by (auto simp: update_kind_def attr_def dict_get_def RAW_ATTRS_def split: option.splits)

lemma update_event_run: "map_of (snd (update_event run_id u)) ''run_id'' = Some (PStr run_id)"
  by (simp add: update_event_def passthrough_def Let_def split: pyval.split)

lemma update_event_plain:
  assumes "well_dumped u"
  shows "list_all (\<lambda>kv. plain (snd kv)) (snd (update_event run_id u))"
proof -
  have raw: "plain (attr u ''tool_call_id'')" "plain (attr u ''title'')" "plain (attr u ''kind'')"
    "plain (attr u ''status'')" "plain (attr u ''used'')" "plain (attr u ''size'')"
    "plain (attr u ''cost'')" "plain (attr u ''plan_id'')" "plain (attr u ''current_mode_id'')"
    "plain (attr u ''updated_at'')"
    by (rule well_dumped_attr(1) [OF assms]; simp add: RAW_ATTRS_def)+
  have safe: "plain (json_safe (attr u ''entries''))" "plain (json_safe (attr u ''plan''))"
    "plain (json_safe (attr u ''available_commands''))" "plain (json_safe (attr u ''config_options''))"
    by (rule plain_json_safe, rule well_dumped_attr(2) [OF assms], simp add: RAW_ATTRS_def)+
  have "plain (json_safe (up_self u))" "plain (dict_get (up_content u) ''text'' PNone)"
    using assms by (auto simp: well_dumped_def plain_json_safe)
  with raw safe plain_update_kind [OF assms] show ?thesis
    by (auto simp: update_event_def passthrough_def Let_def split: pyval.split)
qed

text \<open>
  The cost of a usage update is passed on unconverted: as the object the protocol has for it, the
  event cannot be written to the event stream.
\<close>

lemma usage_cost_breaks_stream:
  assumes "update_kind u = PStr ''usage_update''" and "attr u ''cost'' = PObj c dump"
  shows "\<not> is_ok (json_dumps json_compact 0 (PDict (snd (update_event run_id u))))"
proof -
  have "update_event run_id u = (''agent_usage'',
      [(''run_id'', PStr run_id), (''used'', attr u ''used''), (''size'', attr u ''size''),
       (''cost'', PObj c dump)])"
    using assms by (simp add: update_event_def Let_def CHUNK_KINDS_def)
  then show ?thesis
    unfolding json_dumps_ok_iff by (simp add: json_compact_def)
qed

text \<open>
  C15: no update of the agent is dropped or filtered.  Whatever its kind, also one the code does
  not know, it resets the heartbeat and is recorded as exactly one event that carries the run id.
  The event serialises to JSON when the attributes that are passed on unconverted are JSON values
  and the protocol library dumps its objects to JSON values; a usage update whose cost is an
  object, as the protocol has it, is recorded too, but cannot be written to the event stream.
\<close>

theorem every_update_recorded:
  shows "\<exists>t d. session_update run_id now u (last_activity, s) = (now, emit t d s) \<and>
    map_of d ''run_id'' = Some (PStr run_id) \<and>
    (well_dumped u \<longrightarrow> (\<forall>opts. is_ok (json_dumps opts 0 (PDict d)))) \<and>
    (update_kind u = PStr ''usage_update'' \<and> (\<exists>c dump. attr u ''cost'' = PObj c dump) \<longrightarrow>
       \<not> is_ok (json_dumps json_compact 0 (PDict d)))"
proof (intro exI conjI)
  show "session_update run_id now u (last_activity, s) =
      (now, emit (fst (update_event run_id u)) (snd (update_event run_id u)) s)"
    by (simp add: session_update_def split: prod.split)
  show "map_of (snd (update_event run_id u)) ''run_id'' = Some (PStr run_id)"
    by (rule update_event_run)
  show "well_dumped u \<longrightarrow> (\<forall>opts. is_ok (json_dumps opts 0 (PDict (snd (update_event run_id u)))))"
    using update_event_plain by (intro impI allI json_dumps_plain) simp
  show "update_kind u = PStr ''usage_update'' \<and> (\<exists>c dump. attr u ''cost'' = PObj c dump) \<longrightarrow>
      \<not> is_ok (json_dumps json_compact 0 (PDict (snd (update_event run_id u))))"
    using usage_cost_breaks_stream by blast
qed

section \<open>The watchdog\<close>

definition fires :: "wakes \<Rightarrow> pyfloat \<Rightarrow> pyfloat \<Rightarrow> rat \<Rightarrow> nat \<Rightarrow> pyexc option" where
  "fires w idle cap started n =
     (case wk_sleep w n of
        Inl e \<Rightarrow> Some e
      | Inr _ \<Rightarrow>
          if idle \<le> FFin (wk_now w n - wk_last w n)
          then Some (PyExc SessionWatchdogTimeout (idle_message (wk_now w n - wk_last w n) idle))
          else if FFin 0 < cap \<and> cap \<le> FFin (wk_now2 w n - started)
          then Some (PyExc SessionWatchdogTimeout (cap_message cap))
          else None)"

lemma fires_Some:
  "fires w idle cap started n = Some e \<Longrightarrow>
   wk_sleep w n = Inl e \<or>
   exc_of e = SessionWatchdogTimeout \<and>
     (idle \<le> FFin (wk_now w n - wk_last w n) \<or> FFin 0 < cap \<and> cap \<le> FFin (wk_now2 w n - started))"
  by (auto simp: fires_def split: sum.splits if_splits)

lemma fires_None:
  "fires w idle cap started n = None \<Longrightarrow>
   is_ok (wk_sleep w n) \<and> \<not> idle \<le> FFin (wk_now w n - wk_last w n) \<and>
   \<not> (FFin 0 < cap \<and> cap \<le> FFin (wk_now2 w n - started))"
  by (cases "wk_sleep w n") (auto simp: fires_def split: if_splits)

lemma idle_watchdog_fires:
  "idle_watchdog w idle cap started n =
     (case fires w idle cap started n of
        Some e \<Rightarrow> Some (n, e)
      | None \<Rightarrow> idle_watchdog w idle cap started (Suc n))"
  by (subst idle_watchdog.simps) (auto simp: fires_def Let_def split: sum.split)

lemma idle_watchdog_first:
  assumes "fires w idle cap started n = Some e" and "k \<le> n"
    and "\<forall>m. k \<le> m \<and> m < n \<longrightarrow> fires w idle cap started m = None"
  shows "idle_watchdog w idle cap started k = Some (n, e)"
  using assms(2,3)
proof (induction rule: inc_induct)
  case base
  then show ?case using assms(1) by (subst idle_watchdog_fires) simp
next
  case (step m)
  then show ?case by (subst idle_watchdog_fires) simp
qed

lemma idle_watchdog_result:
  assumes "idle_watchdog w idle cap started k = Some (n, e)"
  shows "k \<le> n \<and> fires w idle cap started n = Some e \<and>
    (\<forall>m. k \<le> m \<and> m < n \<longrightarrow> fires w idle cap started m = None)"
proof -
  have "k \<le> fst y \<and> fires w idle cap started (fst y) = Some (snd y) \<and>
      (\<forall>m. k \<le> m \<and> m < fst y \<longrightarrow> fires w idle cap started m = None)"
    if ret: "idle_watchdog w idle cap started k = Some y" for w idle cap started k y
  proof (rule idle_watchdog.raw_induct [where P = "\<lambda>w idle cap started k y. k \<le> fst y \<and>
      fires w idle cap started (fst y) = Some (snd y) \<and>
      (\<forall>m. k \<le> m \<and> m < fst y \<longrightarrow> fires w idle cap started m = None)", OF _ ret], goal_cases)
    case (1 f w idle cap started k y)
    obtain n e where y: "y = (n, e)" by (cases y)
    show ?case
    proof (cases "fires w idle cap started k")
      case None
      with 1(2) have "f w idle cap started (Suc k) = Some (n, e)"
        by (auto simp: y fires_def Let_def split: sum.splits if_splits)
      then have "Suc k \<le> fst y \<and> fires w idle cap started (fst y) = Some (snd y) \<and>
          (\<forall>m. Suc k \<le> m \<and> m < fst y \<longrightarrow> fires w idle cap started m = None)"
        using 1(1) y by fastforce
      with None show ?thesis by (metis Suc_leD le_neq_implies_less Suc_leI)
    next
      case (Some e)
      with 1(2) have "y = (k, e)"
        by (auto simp: fires_def Let_def split: sum.splits if_splits)
      with Some show ?thesis by auto
    qed
  qed
  from this [OF assms] show ?thesis by simp
qed

text \<open>
  C23: the watchdog ends a run only for a reason.  When it ends at a wake-up, its sleep was
  interrupted, or the run had been silent for the idle timeout, or an optional hard ceiling had
  been reached; and at no wake-up before was there such a reason.  So a run whose agent is never
  silent that long is never ended, however long it takes, when no ceiling is set.
\<close>

theorem watchdog_only_for_reason:
  assumes "idle_watchdog w idle cap started 0 = Some (n, e)"
  shows "(wk_sleep w n = Inl e \<or>
      exc_of e = SessionWatchdogTimeout \<and>
        (idle \<le> FFin (wk_now w n - wk_last w n) \<or>
         FFin 0 < cap \<and> cap \<le> FFin (wk_now2 w n - started))) \<and>
    (\<forall>m<n. is_ok (wk_sleep w m) \<and> \<not> idle \<le> FFin (wk_now w m - wk_last w m) \<and>
       \<not> (FFin 0 < cap \<and> cap \<le> FFin (wk_now2 w m - started)))"
proof -
  from idle_watchdog_result [OF assms] have n: "fires w idle cap started n = Some e"
    and before: "\<forall>m<n. fires w idle cap started m = None" by auto
  show ?thesis using fires_Some [OF n] before by (auto dest: fires_None)
qed

text \<open>
  C14: a silent run is ended in time.  If the watchdog's clock advances with every wake-up by at
  least \<open>P\<close> and at most \<open>D\<close> seconds (the poll interval and the delay of the scheduler), its
  sleeps are not interrupted, and no heartbeat comes after the time \<open>a\<close>, then the watchdog ends
  with a timeout, at most \<open>D\<close> seconds after the idle timeout has run out.
\<close>

theorem silent_run_is_ended:
  assumes "0 < P" and "\<forall>n. is_ok (wk_sleep w n)"
    and "\<forall>n. wk_now w n + P \<le> wk_now w (Suc n) \<and> wk_now w (Suc n) \<le> wk_now w n + D"
    and "wk_now w 0 \<le> started + D"
    and "\<forall>n. wk_last w n \<le> a"
  shows "\<exists>n e. idle_watchdog w (FFin idle) cap started 0 = Some (n, e) \<and>
    exc_of e = SessionWatchdogTimeout \<and> wk_now w n \<le> max started (a + idle) + D"
proof -
  let ?f = "fires w (FFin idle) cap started"
  have grows: "wk_now w 0 + of_nat n * P \<le> wk_now w n" for n
  proof (induction n)
    case (Suc n)
    with assms(3) [rule_format, of n] show ?case by (simp add: algebra_simps)
  qed simp
  obtain m :: nat where "(a + idle - wk_now w 0) / P < of_nat m" using reals_Archimedean2 by blast
  then have "a + idle \<le> wk_now w 0 + of_nat m * P"
    using assms(1) by (simp add: field_simps)
  with grows [of m] assms(5) [rule_format, of m] have "idle \<le> wk_now w m - wk_last w m" by linarith
  then have "?f m \<noteq> None" using assms(2) [rule_format, of m] by (auto simp: fires_def is_ok_iff)
  define n where "n = (LEAST n. ?f n \<noteq> None)"
  have n: "?f n \<noteq> None" unfolding n_def by (rule LeastI [of _ m]) fact
  then obtain e where e: "?f n = Some e" by blast
  have before: "\<forall>k<n. ?f k = None" unfolding n_def using not_less_Least by blast
  have "idle_watchdog w (FFin idle) cap started 0 = Some (n, e)"
    using idle_watchdog_first [OF e, of 0] before by simp
  moreover have "exc_of e = SessionWatchdogTimeout"
    using e assms(2) [rule_format, of n] by (auto simp: fires_def is_ok_iff split: if_splits)
  moreover have "wk_now w n \<le> max started (a + idle) + D"
  proof (cases n)
    case 0
    with assms(4) show ?thesis by simp
  next
    case (Suc k)
    with before have "?f k = None" by simp
    then have "wk_now w k - wk_last w k < idle"
      using assms(2) [rule_format, of k] by (auto simp: fires_def is_ok_iff split: if_splits)
    with assms(3) [rule_format, of k] assms(5) [rule_format, of k] Suc
    have "wk_now w n \<le> a + idle + D" by simp
    also have "\<dots> \<le> max started (a + idle) + D" by simp
    finally show ?thesis .
  qed
  ultimately show ?thesis by blast
qed

text \<open>An idle timeout of \<open>nan\<close>, which the settings accept, turns the watchdog off.\<close>

lemma nan_watchdog_never_fires:
  assumes "\<forall>n. is_ok (wk_sleep w n)" and "\<not> FFin 0 < cap"
  shows "idle_watchdog w FNan cap started k = None"
proof (cases "idle_watchdog w FNan cap started k")
  case (Some y)
  obtain n e where "y = (n, e)" by (cases y)
  with Some idle_watchdog_result have "fires w FNan cap started n = Some e" by blast
  with assms show ?thesis
    by (auto simp: fires_def is_ok_def split: sum.splits if_splits)
qed

section \<open>The workspace\<close>

definition plain_component :: "string \<Rightarrow> bool" where
  "plain_component name \<longleftrightarrow> name \<noteq> [] \<and> name \<notin> {''.'', ''..''} \<and>
     list_all (\<lambda>c. (48 \<le> code c \<and> code c \<le> 57) \<or> (65 \<le> code c \<and> code c \<le> 90) \<or>
       (97 \<le> code c \<and> code c \<le> 122) \<or> c \<in> {CHR ''.'', CHR ''_'', CHR ''-''}) name"

text \<open>
  The search for \<open>[:/]([^/:]+/[^/]+?)(?:\.git)?/?$\<close>: after a separator, an owner up to the next
  slash and the shortest name that leaves one of the four endings.
\<close>

definition URL_ENDINGS :: "string list" where
  "URL_ENDINGS = ['''', ''/'', ''.git'', ''.git/'']"

fun repo_name :: "string \<Rightarrow> string \<Rightarrow> string option" where
  "repo_name acc r =
     (if acc \<noteq> [] \<and> r \<in> set URL_ENDINGS then Some (rev acc)
      else case r of
        [] \<Rightarrow> None
      | c # cs \<Rightarrow> if c = CHR ''/'' then None else repo_name (c # acc) cs)"

definition owner_repo :: "string \<Rightarrow> string option" where
  "owner_repo r =
     (let owner = takeWhile (\<lambda>c. c \<noteq> CHR ''/'' \<and> c \<noteq> CHR '':'') r in
      case drop (length owner) r of
        c # cs \<Rightarrow>
          if owner \<noteq> [] \<and> c = CHR ''/''
          then map_option (\<lambda>name. owner @ ''/'' @ name) (repo_name [] cs) else None
      | [] \<Rightarrow> None)"

fun origin_repo :: "string \<Rightarrow> string option" where
  "origin_repo [] = None"
| "origin_repo (c # cs) =
     (if c \<in> {CHR '':'', CHR ''/''}
      then (case owner_repo cs of Some g \<Rightarrow> Some g | None \<Rightarrow> origin_repo cs)
      else origin_repo cs)"

text \<open>\<open>probe\<close>: the output of \<open>git remote get-url origin\<close>, \<open>None\<close> for every failure of it.\<close>

definition checkout_is_repo :: "string option \<Rightarrow> string \<Rightarrow> bool" where
  "checkout_is_repo probe repo =
     (case probe of
        None \<Rightarrow> False
      | Some out \<Rightarrow>
          (case origin_repo (py_strip out) of
             None \<Rightarrow> False
           | Some g \<Rightarrow> py_lower g = py_lower repo))"

record workspace_env =
  we_expand :: "string \<Rightarrow> string pyres"
  we_has_git :: "string \<Rightarrow> bool pyres"
  we_probe :: "string \<Rightarrow> string option"
  we_mkdir :: "string \<Rightarrow> unit pyres"

definition prepare_workspace :: "workspace_env \<Rightarrow> settings \<Rightarrow> prompt_info \<Rightarrow> string pyres" where
  "prepare_workspace env st info =
     (if st_acp_clone_root st \<noteq> '''' then
        (let name = after_last CHR ''/'' (pi_repo info) in
         if \<not> plain_component name
         then host_error (''invalid repo name for clone-root resolution, delivery ''
                @ pi_delivery_id info @ '': '' @ py_repr_str (pi_repo info))
         else
           rbind (we_expand env (st_acp_clone_root st)) (\<lambda>root.
           let workspace = path_join root name in
           rbind (we_has_git env workspace) (\<lambda>found.
           if \<not> found
           then host_error (''clone checkout not found for delivery '' @ pi_delivery_id info @ '': ''
                  @ workspace @ '' (ACP_CLONE_ROOT set '' @ [char_of (226::nat), char_of (128::nat), char_of (148::nat)]
                  @ '' create/clone the repo, '' @ ''or unset the knob for scratch workspaces)'')
           else if \<not> checkout_is_repo (we_probe env workspace) (pi_repo info)
           then host_error (''clone checkout identity mismatch for delivery '' @ pi_delivery_id info
                  @ '': '' @ workspace @ '' is not a checkout of '' @ pi_repo info)
           else Inr workspace)))
      else
        rbind (if st_acp_workspace_root st \<noteq> '''' then we_expand env (st_acp_workspace_root st)
               else Inr ''/tmp/swarm-acp-workspaces'') (\<lambda>root.
        let workspace = path_join root (pi_id info) in
        rbind (we_mkdir env workspace) (\<lambda>_. Inr workspace)))"

text \<open>
  \<open>_write_deny_config\<close>: nothing without denied tools, in a clone-root checkout, or beside an
  existing configuration; otherwise the text of \<open>opencode.json\<close>, whose writing may fail.
\<close>

definition deny_config_text :: "string list \<Rightarrow> string pyres" where
  "deny_config_text tools =
     json_dumps (json_indented False) 0
       (PDict [(''$schema'', PStr ''https://opencode.ai/config.json''),
               (''permission'', PDict (fold (\<lambda>t. upsert t (PStr ''deny'')) tools []))])"

definition write_deny_config ::
  "settings \<Rightarrow> bool pyres \<Rightarrow> (string \<Rightarrow> unit pyres) \<Rightarrow> (string option) pyres"
where
  "write_deny_config st manages_own_config write =
     (if st_acp_denied_tools st = [] then Inr None
      else if st_acp_clone_root st \<noteq> '''' then Inr None
      else rbind manages_own_config (\<lambda>own.
        if own then Inr None
        else rbind (deny_config_text (st_acp_denied_tools st)) (\<lambda>txt.
             rbind (write txt) (\<lambda>_. Inr (Some txt)))))"

text \<open>The two environments exclude each other already when the host is built.\<close>

definition acp_host_init :: "settings \<Rightarrow> bool \<Rightarrow> bool pyres" where
  "acp_host_init st bridge_injected =
     (if st_acp_clone_root st \<noteq> '''' \<and> (st_sandbox_enabled st \<or> bridge_injected)
      then host_error (''SANDBOX_ENABLED (or an injected sandbox bridge) and ''
        @ ''ACP_CLONE_ROOT are mutually exclusive '' @ ''(dual agent environments, docs/plans/dispatch-in-live-checkout.md): ''
        @ ''the sandbox bridge would silently shadow the clone checkout'')
      else Inr (bridge_injected \<or> st_sandbox_enabled st))"

lemma repo_name_sound:
  "repo_name acc r = Some n \<Longrightarrow> \<exists>suf \<in> set URL_ENDINGS. rev acc @ r = n @ suf"
proof (induction acc r rule: repo_name.induct)
  case (1 acc r)
  show ?case
  proof (cases "acc \<noteq> [] \<and> r \<in> set URL_ENDINGS")
    case True
    with "1.prems" show ?thesis by auto
  next
    case False
    with "1.prems" obtain c cs where "r = c # cs" "c \<noteq> CHR ''/''" "repo_name (c # acc) cs = Some n"
      by (auto split: list.splits if_splits)
    with "1.IH" [OF False] show ?thesis by auto
  qed
qed

declare repo_name.simps [simp del]

lemma owner_repo_sound: "owner_repo r = Some g \<Longrightarrow> \<exists>suf \<in> set URL_ENDINGS. r = g @ suf"
proof -
  let ?o = "takeWhile (\<lambda>c. c \<noteq> CHR ''/'' \<and> c \<noteq> CHR '':'') r"
  assume "owner_repo r = Some g"
  then obtain cs name where r: "drop (length ?o) r = CHR ''/'' # cs" and name: "repo_name [] cs = Some name"
      and g: "g = ?o @ ''/'' @ name"
    by (auto simp: owner_repo_def Let_def split: list.splits if_splits)
  from repo_name_sound [OF name] obtain suf where suf: "suf \<in> set URL_ENDINGS" "cs = name @ suf" by auto
  have "?o @ drop (length ?o) r = r" by (simp flip: dropWhile_eq_drop)
  moreover have "g @ suf = ?o @ CHR ''/'' # cs" unfolding g suf(2) by simp
  ultimately have "r = g @ suf" unfolding r by argo
  with suf(1) show ?thesis by blast
qed

lemma origin_repo_sound:
  "origin_repo s = Some g \<Longrightarrow>
   \<exists>pre c suf. s = pre @ c # g @ suf \<and> c \<in> {CHR '':'', CHR ''/''} \<and> suf \<in> set URL_ENDINGS"
proof (induction s)
  case (Cons c cs)
  show ?case
  proof (cases "c \<in> {CHR '':'', CHR ''/''} \<and> owner_repo cs = Some g")
    case True
    with owner_repo_sound obtain suf where "suf \<in> set URL_ENDINGS" "cs = g @ suf" by blast
    with True show ?thesis by (intro exI [of _ "[]"] exI [of _ c] exI [of _ suf]) auto
  next
    case False
    with Cons.prems have "origin_repo cs = Some g" by (auto split: if_splits option.splits)
    from Cons.IH [OF this] obtain pre d suf where
      *: "cs = pre @ d # g @ suf \<and> d \<in> {CHR '':'', CHR ''/''} \<and> suf \<in> set URL_ENDINGS" by blast
    show ?thesis
      by (rule exI [of _ "c # pre"], rule exI [of _ d], rule exI [of _ suf]) (use * in simp)
  qed
qed simp

text \<open>
  C13: with a clone root, a session gets an existing checkout of the envelope's repository or none
  at all.  The directory is a direct child of the clone root, named by the last segment of the
  repository's name, which is a plain path component; it has a \<open>.git\<close>; its \<open>origin\<close> is a URL
  that ends, up to \<open>.git\<close> and a slash, in a name equal to the envelope's repository but for
  case; and nothing is created, whatever \<open>mkdir\<close> would do.
\<close>

theorem clone_root_identity:
  assumes "st_acp_clone_root st \<noteq> ''''" and "prepare_workspace env st info = Inr w"
  shows "\<exists>root url pre c repo suf.
    we_expand env (st_acp_clone_root st) = Inr root \<and>
    w = path_join root (after_last CHR ''/'' (pi_repo info)) \<and>
    plain_component (after_last CHR ''/'' (pi_repo info)) \<and> we_has_git env w = Inr True \<and>
    we_probe env w = Some url \<and> py_strip url = pre @ c # repo @ suf \<and> c \<in> {CHR '':'', CHR ''/''} \<and>
    suf \<in> set URL_ENDINGS \<and> py_lower repo = py_lower (pi_repo info) \<and>
    (\<forall>mkdir. prepare_workspace (env\<lparr>we_mkdir := mkdir\<rparr>) st info = Inr w)"
proof -
  from assms obtain root where root: "we_expand env (st_acp_clone_root st) = Inr root"
      "w = path_join root (after_last CHR ''/'' (pi_repo info))"
      "plain_component (after_last CHR ''/'' (pi_repo info))" "we_has_git env w = Inr True"
      "checkout_is_repo (we_probe env w) (pi_repo info)"
    by (auto simp: prepare_workspace_def Let_def rbind_eq_Inr host_error_def split: if_splits)
  from root(5) obtain url repo where url: "we_probe env w = Some url"
      "origin_repo (py_strip url) = Some repo" "py_lower repo = py_lower (pi_repo info)"
    by (auto simp: checkout_is_repo_def split: option.splits)
  from origin_repo_sound [OF url(2)] obtain pre c suf where
    "py_strip url = pre @ c # repo @ suf" "c \<in> {CHR '':'', CHR ''/''}" "suf \<in> set URL_ENDINGS" by blast
  moreover have "prepare_workspace (env\<lparr>we_mkdir := mkdir\<rparr>) st info = prepare_workspace env st info" for mkdir
    using assms(1) by (simp add: prepare_workspace_def Let_def cong: if_cong)
  then have "\<forall>mkdir. prepare_workspace (env\<lparr>we_mkdir := mkdir\<rparr>) st info = Inr w"
    using assms(2) by simp
  ultimately show ?thesis using root url by blast
qed

lemma deny_config_never_in_checkout:
  "st_acp_clone_root st \<noteq> '''' \<or> own = Inr True \<Longrightarrow> write_deny_config st own write \<in> {Inr None}"
  by (auto simp: write_deny_config_def)

section \<open>Instances\<close>

definition ticking :: wakes where
  "ticking = \<lparr>wk_sleep = (\<lambda>_. Inr ()), wk_now = (\<lambda>n. 1 + of_nat n), wk_last = (\<lambda>_. 0),
     wk_now2 = (\<lambda>n. 1 + of_nat n)\<rparr>"

theorem silent_run_is_ended_witness:
  "\<exists>n e. idle_watchdog ticking (FFin 300) (FFin 0) 0 0 = Some (n, e) \<and> wk_now ticking n \<le> 301"
  using silent_run_is_ended [of 1 ticking 1 0 0 300 "FFin 0"] by (auto simp: ticking_def)

theorem watchdog_only_for_reason_witness:
  "\<exists>e. idle_watchdog ticking (FFin 2) (FFin 0) 0 0 = Some (1, e) \<and> exc_of e = SessionWatchdogTimeout"
proof -
  have "fires ticking (FFin 2) (FFin 0) 0 0 = None" "fires ticking (FFin 2) (FFin 0) 0 1 \<noteq> None"
    by (simp_all add: fires_def ticking_def)
  then obtain e where e: "idle_watchdog ticking (FFin 2) (FFin 0) 0 0 = Some (1, e)"
    using idle_watchdog_first [of ticking "FFin 2" "FFin 0" 0 1 _ 0] by fastforce
  from watchdog_only_for_reason [OF this] e show ?thesis by (auto simp: ticking_def)
qed

text \<open>An update of a kind the code does not know, and a usage update with its cost.\<close>

definition future_plan :: update where
  "future_plan = \<lparr>up_type = ''FuturePlan'', up_attrs = [(''x'', PObj ''o'' (Some (PInt 1)))],
     up_content = [], up_self = PObj ''u'' None\<rparr>"

definition usage_with_cost :: update where
  "usage_with_cost = \<lparr>up_type = ''UsageUpdate'',
     up_attrs = [(''session_update'', PStr ''usage_update''), (''cost'', PObj ''Cost'' None)],
     up_content = [], up_self = PObj ''u'' None\<rparr>"

theorem every_update_recorded_witness:
  "(\<exists>t d. session_update ''r1'' 5 future_plan (0, br_store sample_bridge) =
      (5, emit t d (br_store sample_bridge)) \<and> is_ok (json_dumps json_compact 0 (PDict d))) \<and>
   (\<exists>t d. session_update ''r1'' 5 usage_with_cost (0, br_store sample_bridge) =
      (5, emit t d (br_store sample_bridge)) \<and> \<not> is_ok (json_dumps json_compact 0 (PDict d)))"
proof -
  have "well_dumped future_plan" by (simp add: well_dumped_def RAW_ATTRS_def dict_get_def future_plan_def)
  moreover have "update_kind usage_with_cost = PStr ''usage_update''" "attr usage_with_cost ''cost'' = PObj ''Cost'' None"
    by code_simp+
  moreover note every_update_recorded [of "''r1''" 5 future_plan 0 "br_store sample_bridge"]
    every_update_recorded [of "''r1''" 5 usage_with_cost 0 "br_store sample_bridge"]
  ultimately show ?thesis by blast
qed

definition sample_checkouts :: workspace_env where
  "sample_checkouts =
     \<lparr>we_expand = Inr, we_has_git = (\<lambda>_. Inr True), we_probe = (\<lambda>_. Some ''git@github.com:O/R.git''),
      we_mkdir = (\<lambda>_. Inr ())\<rparr>"

theorem clone_root_identity_witness:
  "prepare_workspace (sample_checkouts\<lparr>we_mkdir := (\<lambda>_. Inl (PyExc OSError ''''))\<rparr>)
     (sample_settings\<lparr>st_acp_clone_root := ''/c''\<rparr>) sample_envelope = Inr (path_join ''/c'' ''r'')"
proof -
  have env: "after_last CHR ''/'' ''o/r'' = ''r''" "plain_component ''r''"
    "checkout_is_repo (Some ''git@github.com:O/R.git'') ''o/r''" by code_simp+
  have "prepare_workspace sample_checkouts (sample_settings\<lparr>st_acp_clone_root := ''/c''\<rparr>) sample_envelope =
      Inr (path_join ''/c'' ''r'')"
    by (simp add: prepare_workspace_def sample_checkouts_def sample_envelope_def PromptInfo_def env)
  from clone_root_identity [OF _ this] show ?thesis by auto
qed

end
