(* ===== verification/Redaction.thy ===== *)
theory Redaction
  imports Py_Str
begin

text \<open>
  The credential scrubbing of \<open>trace_log.py\<close>: the compiled patterns and \<open>redact\<close>.  A pattern
  of the module is a sequence of character classes, each taken once, at most once, or at least
  \<open>n\<close> times; text is the list of its code points.  \<open>rx_run\<close> is the greedy matcher at one
  position, \<open>rx_lang\<close> the language of a pattern, and \<open>sub_all\<close> is \<open>re.sub\<close>: leftmost
  matches, replaced from left to right.
\<close>

section \<open>Patterns\<close>

type_synonym chars = "string list"

datatype rx_item =
    One "string \<Rightarrow> bool"
  | Maybe "string \<Rightarrow> bool"
  | Many nat "string \<Rightarrow> bool"

text \<open>
  The number of characters matched at the start of a text.  An optional class is tried before it
  is skipped; a repeated class takes all it can, which is the match of the backtracking engine when
  what follows cannot start with that class (\<open>rx_det\<close> below).
\<close>

fun rx_run :: "rx_item list \<Rightarrow> chars \<Rightarrow> nat option" where
  "rx_run [] s = Some 0"
| "rx_run (One P # is) s =
     (case s of [] \<Rightarrow> None | c # cs \<Rightarrow> if P c then map_option Suc (rx_run is cs) else None)"
| "rx_run (Maybe P # is) s =
     (case s of
        [] \<Rightarrow> rx_run is s
      | c # cs \<Rightarrow>
          if P c
          then (case rx_run is cs of Some n \<Rightarrow> Some (Suc n) | None \<Rightarrow> rx_run is s)
          else rx_run is s)"
| "rx_run (Many n P # is) s =
     (let m = length (takeWhile P s) in
      if m < n then None else map_option ((+) m) (rx_run is (drop m s)))"

fun rx_lang :: "rx_item list \<Rightarrow> chars \<Rightarrow> bool" where
  "rx_lang [] w = (w = [])"
| "rx_lang (One P # is) w = (\<exists>c v. w = c # v \<and> P c \<and> rx_lang is v)"
| "rx_lang (Maybe P # is) w = (rx_lang is w \<or> (\<exists>c v. w = c # v \<and> P c \<and> rx_lang is v))"
| "rx_lang (Many n P # is) w = (\<exists>u v. w = u @ v \<and> n \<le> length u \<and> list_all P u \<and> rx_lang is v)"

fun rx_class :: "rx_item \<Rightarrow> string \<Rightarrow> bool" where
  "rx_class (One P) = P"
| "rx_class (Maybe P) = P"
| "rx_class (Many n P) = P"

definition rx_alpha :: "rx_item list \<Rightarrow> string \<Rightarrow> bool" where
  "rx_alpha is c \<longleftrightarrow> list_ex (\<lambda>i. rx_class i c) is"

text \<open>A repeated class is last or followed by a required one that is disjoint from it.\<close>

fun rx_det :: "rx_item list \<Rightarrow> bool" where
  "rx_det [] = True"
| "rx_det (One P # is) = rx_det is"
| "rx_det (Maybe P # is) = False"
| "rx_det (Many n P # is) =
     (rx_det is \<and>
      (case is of
         [] \<Rightarrow> True
       | One Q # _ \<Rightarrow> (\<forall>c. \<not> (P c \<and> Q c))
       | Many (Suc _) Q # _ \<Rightarrow> (\<forall>c. \<not> (P c \<and> Q c))
       | _ \<Rightarrow> False))"

text \<open>What a pattern matches it matches as a prefix of any text.\<close>

lemma takeWhile_prefix:
  "list_all P u \<Longrightarrow> takeWhile P (u @ v) = u @ takeWhile P v"
  by (induction u) auto

lemma rx_lang_first:
  assumes "rx_lang is v" and "is = One Q # js \<or> is = Many (Suc k) Q # js"
  shows "\<exists>c v'. v = c # v' \<and> Q c"
  using assms(2)
proof
  assume "is = One Q # js"
  with assms(1) show ?thesis by auto
next
  assume "is = Many (Suc k) Q # js"
  with assms(1) obtain a b where ab: "v = a @ b" "Suc k \<le> length a" "list_all Q a" by auto
  then show ?thesis by (cases a) auto
qed

lemma rx_run_complete:
  "rx_lang is w \<Longrightarrow> rx_det is \<Longrightarrow> \<exists>n. rx_run is (w @ r) = Some n \<and> length w \<le> n"
proof (induction "is" arbitrary: w)
  case (Cons i js)
  show ?case
  proof (cases i)
    case (One P)
    with Cons.prems obtain c v where w: "w = c # v" "P c" "rx_lang js v" by auto
    with Cons.IH [of v] Cons.prems One show ?thesis by auto
  next
    case (Many n P)
    with Cons.prems obtain u v where w: "w = u @ v" "n \<le> length u" "list_all P u" "rx_lang js v"
      by auto
    show ?thesis
    proof (cases js)
      case Nil
      with w Many show ?thesis by (simp add: takeWhile_prefix Let_def)
    next
      case (Cons j ks)
      with Cons.prems Many obtain Q where Q: "\<forall>c. \<not> (P c \<and> Q c)"
          and j: "js = One Q # ks \<or> (\<exists>k. js = Many (Suc k) Q # ks)"
        by (auto split: rx_item.splits nat.splits)
      then obtain c v' where "v = c # v'" "Q c" using rx_lang_first w(4) by blast
      with Q have "takeWhile P (v @ r) = []" by auto
      with w have "length (takeWhile P (w @ r)) = length u" by (simp add: takeWhile_prefix)
      moreover obtain k where "rx_run js (v @ r) = Some k" "length v \<le> k"
        using Cons.IH w(4) Cons.prems Many by auto
      ultimately show ?thesis using w Many by (auto simp: Let_def)
    qed
  qed (use Cons.prems in simp)
qed simp

lemma rx_lang_alpha: "rx_lang is w \<Longrightarrow> c \<in> set w \<Longrightarrow> rx_alpha is c"
proof (induction "is" arbitrary: w)
  case (Cons i js)
  then show ?case by (cases i) (fastforce simp: rx_alpha_def list_all_iff)+
qed simp

section \<open>Substitution\<close>

text \<open>
  A matcher gives, at a position, the length of the match and its replacement.  No pattern here
  matches the empty text.
\<close>

type_synonym matcher = "chars \<Rightarrow> (nat \<times> chars) option"

function sub_all :: "matcher \<Rightarrow> chars \<Rightarrow> chars" where
  "sub_all m [] = []"
| "sub_all m (c # cs) =
     (case m (c # cs) of
        Some (Suc n, repl) \<Rightarrow> repl @ sub_all m (drop n cs)
      | _ \<Rightarrow> c # sub_all m cs)"
  by pat_completeness auto
termination
  by (relation "measure (length \<circ> snd)") auto

definition clean :: "rx_item list \<Rightarrow> chars \<Rightarrow> bool" where
  "clean rx s \<longleftrightarrow> (\<forall>x w y. s = x @ w @ y \<longrightarrow> \<not> rx_lang rx w)"

lemma clean_append_left: "clean rx (s @ t) \<Longrightarrow> clean rx s"
  unfolding clean_def by (metis append.assoc)

lemma clean_append_right: "clean rx (s @ t) \<Longrightarrow> clean rx t"
  unfolding clean_def by (metis append.assoc)

text \<open>Two clean texts stay clean around a character that the pattern never takes.\<close>

lemma clean_separated:
  assumes "clean rx s" and "clean rx t" and b: "\<not> rx_alpha rx b"
  shows "clean rx (s @ b # t)"
  unfolding clean_def
proof (intro allI impI notI)
  fix x w y assume eq: "s @ b # t = x @ w @ y" and w: "rx_lang rx w"
  then have nb: "b \<notin> set w" using rx_lang_alpha b by blast
  consider (left) "length x + length w \<le> length s" | (right) "Suc (length s) \<le> length x"
    | (across) "length x \<le> length s" "length s < length x + length w"
    by linarith
  then show False
  proof cases
    case left
    have "take (length x + length w) (s @ b # t) = x @ w" by (simp add: eq)
    then have "take (length x + length w) s = x @ w" using left by simp
    then have "s = x @ w @ drop (length x + length w) s" by (metis append.assoc append_take_drop_id)
    with assms(1) w show False unfolding clean_def by blast
  next
    case right
    obtain k where k: "length x = length s + Suc k"
      using right less_iff_Suc_add [of "length s" "length x"] by auto
    have "drop (length x) (s @ b # t) = w @ y" by (simp add: eq)
    then have "drop k t = w @ y" by (simp add: k)
    then have "t = take k t @ w @ y" by (metis append_take_drop_id)
    with assms(2) w show False unfolding clean_def by blast
  next
    case across
    have lt: "length s - length x < length w" using across by linarith
    have "b = (s @ b # t) ! length s" by simp
    also have "\<dots> = w ! (length s - length x)"
      using across lt by (simp add: eq nth_append)
    also have "\<dots> \<in> set w" using across by (intro nth_mem) linarith
    finally show False using nb by contradiction
  qed
qed

text \<open>
  The interface of one scrubbing pass: its matches are replaced by a kept prefix of the match and a
  fixed mark.
\<close>

definition marks :: "matcher \<Rightarrow> chars \<Rightarrow> bool" where
  "marks m mark \<longleftrightarrow>
     (\<forall>s n repl. m s = Some (n, repl) \<longrightarrow> (\<exists>k \<le> n. repl = take k s @ mark))"

lemma sub_all_hit:
  assumes "marks m mark" and "m (c # cs) = Some (Suc n, repl)"
  obtains k where "k \<le> Suc n" "sub_all m (c # cs) = take k (c # cs) @ mark @ sub_all m (drop n cs)"
proof -
  from assms obtain k where "k \<le> Suc n" "repl = take k (c # cs) @ mark"
    unfolding marks_def by blast
  with assms that show thesis by simp
qed

lemma sub_all_miss:
  assumes "\<And>n repl. m (c # cs) \<noteq> Some (Suc n, repl)"
  shows "sub_all m (c # cs) = c # sub_all m cs"
  using assms by (auto split: option.splits nat.splits)

locale scrubbing_pass =
  fixes m :: matcher and mark :: chars and rx :: "rx_item list"
  assumes marks: "marks m mark"
    and mark_ends: "\<exists>b inner e. mark = b # inner @ [e] \<and> \<not> rx_alpha rx b \<and> \<not> rx_alpha rx e \<and> clean rx inner"
begin

lemma clean_marked:
  assumes "clean rx s" and "clean rx t"
  shows "clean rx (s @ mark @ t)"
proof -
  obtain b inner e where mk: "mark = b # inner @ [e]" "\<not> rx_alpha rx b" "\<not> rx_alpha rx e" "clean rx inner"
    using mark_ends by blast
  have "clean rx ((s @ b # inner) @ e # t)"
    by (intro clean_separated assms mk)
  then show ?thesis using mk(1) by simp
qed

text \<open>A pass for other patterns keeps the text clean.\<close>

lemma sub_all_clean: "clean rx (p @ s) \<Longrightarrow> clean rx (p @ sub_all m s)"
proof (induction "length s" arbitrary: p s rule: less_induct)
  case less
  show ?case
  proof (cases s)
    case Nil
    with less.prems show ?thesis by simp
  next
    case (Cons c cs)
    show ?thesis
    proof (cases "\<exists>n repl. m (c # cs) = Some (Suc n, repl)")
      case True
      then obtain n repl where "m (c # cs) = Some (Suc n, repl)" by blast
      then obtain k where k: "k \<le> Suc n"
          "sub_all m (c # cs) = take k (c # cs) @ mark @ sub_all m (drop n cs)"
        by (rule sub_all_hit [OF marks])
      have "clean rx (p @ take k s)"
        using less.prems clean_append_left [of rx "p @ take k s" "drop k s"] by simp
      moreover have "clean rx ([] @ sub_all m (drop n cs))"
      proof (rule less.hyps)
        show "clean rx ([] @ drop n cs)"
          using less.prems clean_append_right [of rx "p @ c # take n cs" "drop n cs"] Cons by simp
      qed (simp add: Cons)
      ultimately show ?thesis using clean_marked k(2) Cons by fastforce
    next
      case False
      then have "sub_all m s = c # sub_all m cs" using sub_all_miss Cons by blast
      moreover have "clean rx ((p @ [c]) @ sub_all m cs)"
        by (rule less.hyps) (use less.prems Cons in simp_all)
      ultimately show ?thesis by simp
    qed
  qed
qed

end

text \<open>
  The pass for a pattern itself removes it: no text that the pattern matches is left, wherever one
  looks.
\<close>

definition bare_matcher :: "rx_item list \<Rightarrow> chars \<Rightarrow> matcher" where
  "bare_matcher rx mark s = map_option (\<lambda>n. (n, mark)) (rx_run rx s)"

lemma marks_bare: "marks (bare_matcher rx mark) mark"
  by (auto simp: marks_def bare_matcher_def intro: exI [of _ 0])

locale pattern_pass = scrubbing_pass "bare_matcher rx mark" mark rx for rx mark +
  assumes det: "rx_det rx" and starts: "\<exists>P js. rx = One P # js"
begin

lemma nonempty: "rx_run rx s \<noteq> Some 0" "\<not> rx_lang rx []"
  using starts by (auto split: list.splits if_splits)

lemma no_match_clean:
  assumes "\<And>i. i < length p \<Longrightarrow> rx_run rx (drop i (p @ r)) = None"
  shows "clean rx p"
  unfolding clean_def
proof (intro allI impI notI)
  fix x w y assume p: "p = x @ w @ y" and w: "rx_lang rx w"
  have run: "rx_run rx (w @ y @ r) \<noteq> None"
    using rx_run_complete [OF w det, of "y @ r"] by auto
  have "w \<noteq> []" using w nonempty(2) by blast
  then have "length x < length p" by (simp add: p)
  with assms have "rx_run rx (w @ y @ r) = None" by (fastforce simp: p)
  with run show False by contradiction
qed

lemma sub_all_removes:
  "(\<And>i. i < length p \<Longrightarrow> rx_run rx (drop i (p @ s)) = None) \<Longrightarrow>
   clean rx (p @ sub_all (bare_matcher rx mark) s)"
proof (induction "length s" arbitrary: p s rule: less_induct)
  case less
  show ?case
  proof (cases s)
    case Nil
    with no_match_clean [of p "[]"] less.prems show ?thesis by simp
  next
    case (Cons c cs)
    show ?thesis
    proof (cases "rx_run rx (c # cs)")
      case None
      then have eq: "sub_all (bare_matcher rx mark) s = c # sub_all (bare_matcher rx mark) cs"
        by (simp add: Cons bare_matcher_def)
      have "clean rx ((p @ [c]) @ sub_all (bare_matcher rx mark) cs)"
      proof (rule less.hyps)
        fix i assume "i < length (p @ [c])"
        then show "rx_run rx (drop i ((p @ [c]) @ cs)) = None"
          using less.prems [of i] None Cons by (cases "i < length p") (auto simp: less_Suc_eq)
      qed (simp add: Cons)
      with eq show ?thesis by simp
    next
      case (Some k)
      with nonempty(1) obtain n where "rx_run rx (c # cs) = Some (Suc n)" by (cases k) auto
      then have eq: "sub_all (bare_matcher rx mark) s = mark @ sub_all (bare_matcher rx mark) (drop n cs)"
        by (simp add: Cons bare_matcher_def)
      have "clean rx ([] @ sub_all (bare_matcher rx mark) (drop n cs))"
        by (rule less.hyps) (simp_all add: Cons)
      moreover have "clean rx p" using no_match_clean [of p s] less.prems by blast
      ultimately show ?thesis using clean_marked eq by simp
    qed
  qed
qed

end

section \<open>The patterns of the module\<close>

definition in_ranges :: "(nat \<times> nat) list \<Rightarrow> string \<Rightarrow> bool" where
  "in_ranges rs ch \<longleftrightarrow> (case ch of [c] \<Rightarrow> list_ex (\<lambda>(a, b). a \<le> code c \<and> code c \<le> b) rs | _ \<Rightarrow> False)"

definition alnum :: "string \<Rightarrow> bool" where
  "alnum = in_ranges [(48, 57), (65, 90), (97, 122)]"

definition one_of :: "string \<Rightarrow> string \<Rightarrow> bool" where
  "one_of cs ch \<longleftrightarrow> (case ch of [c] \<Rightarrow> c \<in> set cs | _ \<Rightarrow> False)"

definition lit :: "string \<Rightarrow> rx_item list" where
  "lit s = map (\<lambda>c. One (\<lambda>ch. ch = [c])) s"

definition BARE_SECRET_PATTERNS :: "rx_item list list" where
  "BARE_SECRET_PATTERNS =
     [lit ''gh'' @ [One (one_of ''pousr'')] @ lit ''_'' @ [Many 36 alnum],
      lit ''github_pat_'' @ [Many 22 alnum],
      lit ''sk-'' @ [Many 20 alnum],
      One (one_of ''Bb'') # lit ''earer'' @
        [Many 1 is_space_char, Many 20 (\<lambda>ch. alnum ch \<or> one_of ''._-'' ch)]]"

text \<open>
  A letter under \<open>re.IGNORECASE\<close>: both cases, and the other code points that the engine takes
  for the same letter (dotless and dotted i, long s, Kelvin sign).
\<close>

definition ci_extra :: "char \<Rightarrow> nat list list" where
  "ci_extra c =
     (if c = CHR ''i'' then [[196, 176], [196, 177]]
      else if c = CHR ''s'' then [[197, 191]]
      else if c = CHR ''k'' then [[226, 132, 170]]
      else [])"

definition ci_char :: "char \<Rightarrow> string \<Rightarrow> bool" where
  "ci_char c ch \<longleftrightarrow>
     ch = [c] \<or> map code ch = [code c - 32] \<and> 97 \<le> code c \<and> code c \<le> 122 \<or> map code ch \<in> set (ci_extra c)"

definition ci_lit :: "string \<Rightarrow> rx_item list" where
  "ci_lit s = map (\<lambda>c. One (ci_char c)) s"

definition KV_KEYS :: "rx_item list list" where
  "KV_KEYS =
     [ci_lit ''password'', ci_lit ''passwd'', ci_lit ''secret'',
      ci_lit ''api'' @ [Maybe (one_of ''_-'')] @ ci_lit ''key'', ci_lit ''token'', ci_lit ''auth'']"

definition KV_ASSIGN :: "rx_item list" where
  "KV_ASSIGN = [Many 0 is_space_char, One (one_of '':=''), Many 0 is_space_char]"

text \<open>\<open>_KV_SECRET_RE\<close>: the key and the assignment sign are kept, the value is replaced.\<close>

fun kv_match :: "rx_item list list \<Rightarrow> chars \<Rightarrow> (nat \<times> nat) option" where
  "kv_match [] s = None"
| "kv_match (key # keys) s =
     (case rx_run (key @ KV_ASSIGN) s of
        None \<Rightarrow> kv_match keys s
      | Some g \<Rightarrow>
          (case rx_run [Many 1 (\<lambda>ch. \<not> is_space_char ch)] (drop g s) of
             None \<Rightarrow> kv_match keys s
           | Some v \<Rightarrow> Some (g, v)))"

definition BARE_MARK :: chars where
  "BARE_MARK = map (\<lambda>c. [c]) ''[REDACTED]''"

definition KV_MARK :: chars where
  "KV_MARK = map (\<lambda>c. [c]) ''<redacted>''"

definition kv_matcher :: matcher where
  "kv_matcher s = map_option (\<lambda>(g, v). (g + v, take g s @ KV_MARK)) (kv_match KV_KEYS s)"

definition redact_chars :: "chars \<Rightarrow> chars" where
  "redact_chars s =
     sub_all kv_matcher (fold (\<lambda>rx. sub_all (bare_matcher rx BARE_MARK)) BARE_SECRET_PATTERNS s)"

definition redact :: "string \<Rightarrow> string" where
  "redact s = concat (redact_chars (py_chars s))"

section \<open>No bare credential is left\<close>

lemma marks_kv: "marks kv_matcher KV_MARK"
proof -
  have "\<exists>k \<le> g + v. take g s @ KV_MARK = take k s @ KV_MARK" for g v and s :: chars
    by (intro exI [of _ g]) simp
  then show ?thesis by (auto simp: marks_def kv_matcher_def)
qed

fun rx_min :: "rx_item list \<Rightarrow> nat" where
  "rx_min [] = 0"
| "rx_min (One P # is) = Suc (rx_min is)"
| "rx_min (Maybe P # is) = rx_min is"
| "rx_min (Many n P # is) = n + rx_min is"

lemma rx_lang_length: "rx_lang is w \<Longrightarrow> rx_min is \<le> length w"
  by (induction "is" w rule: rx_lang.induct) fastforce+

lemma short_clean: "length s < rx_min rx \<Longrightarrow> clean rx s"
  by (fastforce simp: clean_def dest: rx_lang_length)

text \<open>What the argument needs of a pattern, checked for the four of the module.\<close>

definition scrubbable :: "rx_item list \<Rightarrow> bool" where
  "scrubbable rx \<longleftrightarrow>
     list_all (\<lambda>c. \<not> rx_alpha rx [c]) ''[]<>'' \<and> 8 < rx_min rx \<and>
     (case rx of One _ # _ \<Rightarrow> True | _ \<Rightarrow> False)"

lemma bare_patterns_scrubbable: "list_all scrubbable BARE_SECRET_PATTERNS"
  by code_simp

lemma space_not_token: "is_space_char ch \<Longrightarrow> \<not> (alnum ch \<or> one_of ''._-'' ch)"
  by (auto simp: is_space_char_def alnum_def in_ranges_def one_of_def code_def split: list.splits)

lemma rx_det_lit: "rx_det (lit s @ is) = rx_det is"
  by (induction s) (simp_all add: lit_def)

lemma bare_patterns_det: "\<forall>rx \<in> set BARE_SECRET_PATTERNS. rx_det rx"
proof -
  have disjoint: "\<forall>ch. is_space_char ch \<longrightarrow> \<not> alnum ch \<and> \<not> one_of ''._-'' ch"
    using space_not_token by blast
  show ?thesis
    by (simp add: BARE_SECRET_PATTERNS_def rx_det_lit disjoint numeral_eq_Suc)
qed

lemma scrubbable_pass:
  assumes "scrubbable rx"
  shows "scrubbing_pass (bare_matcher q BARE_MARK) BARE_MARK rx" "scrubbing_pass kv_matcher KV_MARK rx"
proof -
  have ends: "\<not> rx_alpha rx ''[''" "\<not> rx_alpha rx '']''" "\<not> rx_alpha rx ''<''" "\<not> rx_alpha rx ''>''"
    and len: "8 < rx_min rx"
    using assms by (simp_all add: scrubbable_def)
  have mk: "BARE_MARK = ''['' # map (\<lambda>c. [c]) ''REDACTED'' @ ['']'']"
    "KV_MARK = ''<'' # map (\<lambda>c. [c]) ''redacted'' @ [''>'']"
    by (simp_all add: BARE_MARK_def KV_MARK_def)
  have inner: "clean rx (map (\<lambda>c. [c]) ''REDACTED'')" "clean rx (map (\<lambda>c. [c]) ''redacted'')"
    by (rule short_clean; use len in simp)+
  show "scrubbing_pass (bare_matcher q BARE_MARK) BARE_MARK rx"
    by unfold_locales (rule marks_bare, use mk(1) ends inner(1) in blast)
  show "scrubbing_pass kv_matcher KV_MARK rx"
    by unfold_locales (rule marks_kv, use mk(2) ends inner(2) in blast)
qed

lemma bare_pattern_pass:
  assumes "rx \<in> set BARE_SECRET_PATTERNS"
  shows "pattern_pass rx BARE_MARK"
proof -
  have sc: "scrubbable rx" using bare_patterns_scrubbable assms by (simp add: list_all_iff)
  have "rx_det rx" using bare_patterns_det assms by blast
  moreover have "\<exists>P js. rx = One P # js"
    using sc by (auto simp: scrubbable_def split: list.splits rx_item.splits)
  ultimately show ?thesis
    by (intro pattern_pass.intro pattern_pass_axioms.intro scrubbable_pass(1) sc)
qed

lemma bare_passes_clean:
  assumes "set ps \<subseteq> set BARE_SECRET_PATTERNS" and "rx \<in> set ps"
  shows "clean rx (fold (\<lambda>q. sub_all (bare_matcher q BARE_MARK)) ps s)"
  using assms
proof (induction ps rule: rev_induct)
  case (snoc q ps)
  let ?t = "fold (\<lambda>q. sub_all (bare_matcher q BARE_MARK)) ps s"
  show ?case
  proof (cases "rx = q")
    case True
    have "clean rx ([] @ sub_all (bare_matcher rx BARE_MARK) ?t)"
      by (rule pattern_pass.sub_all_removes [OF bare_pattern_pass]) (use snoc.prems in auto)
    with True show ?thesis by simp
  next
    case False
    with snoc have "clean rx ([] @ ?t)" by simp
    moreover have "scrubbable rx"
      using bare_patterns_scrubbable snoc.prems by (auto simp: list_all_iff)
    ultimately have "clean rx ([] @ sub_all (bare_matcher q BARE_MARK) ?t)"
      using scrubbing_pass.sub_all_clean [OF scrubbable_pass(1)] by blast
    then show ?thesis by simp
  qed
qed simp

lemma redact_chars_clean:
  assumes "rx \<in> set BARE_SECRET_PATTERNS"
  shows "clean rx (redact_chars s)"
proof -
  have "clean rx ([] @ fold (\<lambda>q. sub_all (bare_matcher q BARE_MARK)) BARE_SECRET_PATTERNS s)"
    using bare_passes_clean [of BARE_SECRET_PATTERNS rx s] assms by simp
  moreover have "scrubbable rx" using bare_patterns_scrubbable assms by (auto simp: list_all_iff)
  ultimately have "clean rx ([] @ redact_chars s)"
    unfolding redact_chars_def using scrubbing_pass.sub_all_clean [OF scrubbable_pass(2)] by blast
  then show ?thesis by simp
qed

interpretation github_tokens: pattern_pass "BARE_SECRET_PATTERNS ! 0" BARE_MARK
  by (rule bare_pattern_pass) (simp add: BARE_SECRET_PATTERNS_def)

interpretation bearer_tokens: pattern_pass "BARE_SECRET_PATTERNS ! 3" BARE_MARK
  by (rule bare_pattern_pass) (simp add: BARE_SECRET_PATTERNS_def)

text \<open>The code points of the output text are those the substitutions produce.\<close>

definition wf_char :: "string \<Rightarrow> bool" where
  "wf_char ch \<longleftrightarrow> (case ch of [] \<Rightarrow> False | c # cs \<Rightarrow> \<not> is_cont c \<and> list_all is_cont cs)"

lemma py_chars_first:
  "list_all is_cont v \<Longrightarrow> r = [] \<or> \<not> is_cont (hd r) \<Longrightarrow> py_chars (c # v @ r) = (c # v) # py_chars r"
proof -
  assume v: "list_all is_cont v" and r: "r = [] \<or> \<not> is_cont (hd r)"
  have "takeWhile is_cont r = []" "dropWhile is_cont r = r" using r by (cases r; simp)+
  then have "takeWhile is_cont (v @ r) = v" "dropWhile is_cont (v @ r) = r"
    using v by (simp_all add: list_all_iff)
  then show "py_chars (c # v @ r) = (c # v) # py_chars r" by simp
qed

lemma py_chars_concat: "list_all wf_char chs \<Longrightarrow> py_chars (concat chs) = chs"
proof (induction chs)
  case (Cons ch chs)
  then obtain c v where ch: "ch = c # v" "list_all is_cont v"
    by (auto simp: wf_char_def split: list.splits)
  have "concat chs = [] \<or> \<not> is_cont (hd (concat chs))"
    using Cons.prems by (cases chs) (auto simp: wf_char_def split: list.splits)
  with ch Cons show ?case by (simp add: py_chars_first del: py_chars.simps(2))
qed simp

lemma wf_py_chars: "s = [] \<or> \<not> is_cont (hd s) \<Longrightarrow> list_all wf_char (py_chars s)"
proof (induction s rule: py_chars.induct)
  case (2 c cs)
  have "dropWhile is_cont cs = [] \<or> \<not> is_cont (hd (dropWhile is_cont cs))"
    using hd_dropWhile [of is_cont cs] by blast
  with 2 show ?case
    by (simp add: wf_char_def) (metis Ball_set_list_all set_takeWhileD)
qed simp

lemma set_sub_all:
  assumes "marks m mark"
  shows "set (sub_all m s) \<subseteq> set s \<union> set mark"
proof (induction "length s" arbitrary: s rule: less_induct)
  case less
  show ?case
  proof (cases s)
    case (Cons c cs)
    show ?thesis
    proof (cases "\<exists>n repl. m (c # cs) = Some (Suc n, repl)")
      case True
      then obtain n repl where "m (c # cs) = Some (Suc n, repl)" by blast
      with assms obtain k where
          "sub_all m (c # cs) = take k (c # cs) @ mark @ sub_all m (drop n cs)"
        by (rule sub_all_hit)
      moreover have "set (sub_all m (drop n cs)) \<subseteq> set cs \<union> set mark"
        using less [of "drop n cs"] set_drop_subset [of n cs] Cons by fastforce
      ultimately show ?thesis using Cons set_take_subset [of k "c # cs"] by auto
    next
      case False
      then have "sub_all m s = c # sub_all m cs" using sub_all_miss Cons by blast
      with less [of cs] Cons show ?thesis by auto
    qed
  qed simp
qed

lemma wf_redact_chars:
  assumes "list_all wf_char s"
  shows "list_all wf_char (redact_chars s)"
proof -
  have mk: "list_all wf_char BARE_MARK" "list_all wf_char KV_MARK" by code_simp+
  have sub: "list_all wf_char (sub_all m t)" if "marks m mark" "list_all wf_char mark" "list_all wf_char t"
    for m mark t
    using set_sub_all [OF that(1), of t] that(2,3) by (auto simp: list_all_iff)
  have "list_all wf_char (fold (\<lambda>q. sub_all (bare_matcher q BARE_MARK)) ps s)" for ps
    by (induction ps rule: rev_induct) (simp_all add: assms sub [OF marks_bare mk(1)])
  then show ?thesis unfolding redact_chars_def by (rule sub [OF marks_kv mk(2)])
qed

text \<open>
  C18: no bare credential survives redaction.  In the text that \<open>redact\<close> returns, no stretch of
  characters is a GitHub token, a fine-grained access token, an API key or a bearer token in the
  sense of the module's patterns, also none that a replacement could have put together.
\<close>

theorem redact_leaves_no_bare_credential:
  assumes "t = [] \<or> \<not> is_cont (hd t)"
  shows "list_all (\<lambda>rx. clean rx (py_chars (redact t))) BARE_SECRET_PATTERNS"
proof -
  have "py_chars (redact t) = redact_chars (py_chars t)"
    unfolding redact_def by (intro py_chars_concat wf_redact_chars wf_py_chars assms)
  then show ?thesis by (simp add: list_all_iff redact_chars_clean)
qed

theorem redact_leaves_no_bare_credential_witness:
  "redact ''sk-aaaaaaaaaaaaaaaaaaaaaa x'' = ''[REDACTED] x'' \<and>
   list_all (\<lambda>rx. clean rx (py_chars ''[REDACTED] x'')) BARE_SECRET_PATTERNS"
proof -
  have "redact ''sk-aaaaaaaaaaaaaaaaaaaaaa x'' = ''[REDACTED] x''" by code_simp
  with redact_leaves_no_bare_credential [of "''sk-aaaaaaaaaaaaaaaaaaaaaa x''"]
  show ?thesis by (simp add: is_cont_def code_def)
qed

end
