(* ===== verification/Trace_Log.thy ===== *)
theory Trace_Log
  imports File_System Redaction Json_Text Prompt_Queue
begin

text \<open>
  \<open>trace_log.py\<close> below its redaction: the artifact directory of a run with its manifest and
  harness log, and the retention of run directories.  The state is the file system of theory
  \<open>File_System\<close>, whose plan of faults is arbitrary: every statement about failures is for every
  plan.  A crash is a plan in which every call from some point on fails.
\<close>

section \<open>Retention\<close>

definition hex_digit :: "char \<Rightarrow> bool" where
  "hex_digit c \<longleftrightarrow> (48 \<le> code c \<and> code c \<le> 57) \<or> (97 \<le> code c \<and> code c \<le> 102)"

definition is_run_id :: "string \<Rightarrow> bool" where
  "is_run_id n \<longleftrightarrow> length n = 32 \<and> list_all hex_digit n"

text \<open>
  \<open>Path.expanduser\<close>: a leading \<open>~user\<close> is looked up in the user database \<open>homes\<close> (the empty
  name is the user of the process); without an entry it raises.
\<close>

definition py_expanduser :: "(string \<Rightarrow> string option) \<Rightarrow> string \<Rightarrow> string pyres" where
  "py_expanduser homes p =
     (let user = takeWhile (\<lambda>c. c \<noteq> CHR ''/'') p in
      case user of
        [] \<Rightarrow> Inr p
      | c # name \<Rightarrow>
          if c \<noteq> CHR ''~'' then Inr p
          else (case homes name of
                  None \<Rightarrow> Inl (PyExc RuntimeError ''Could not determine home directory.'')
                | Some h \<Rightarrow> Inr (h @ drop (length user) p)))"

definition resolve_trace_root :: "(string \<Rightarrow> string option) \<Rightarrow> string \<Rightarrow> string pyres" where
  "resolve_trace_root homes trace_root =
     (if trace_root \<noteq> '''' then py_expanduser homes trace_root else Inr ''logs/runs'')"

definition run_entries :: "(string \<times> node) list \<Rightarrow> string list" where
  "run_entries entries =
     map fst (filter (\<lambda>(n, nd). (case nd of Dir _ _ \<Rightarrow> True | File _ \<Rightarrow> False) \<and> is_run_id n) entries)"

text \<open>The keys of \<open>siblings.sort\<close>: a \<open>stat\<close> per sibling, outside every \<open>try\<close>.\<close>

fun stat_all :: "string list \<Rightarrow> (rat \<times> string) list io" where
  "stat_all [] = io_return []"
| "stat_all (d # ds) =
     io_bind (stat_mtime d) (\<lambda>m. io_bind (stat_all ds) (\<lambda>ks. io_return ((m, d) # ks)))"

fun rm_stale :: "string option \<Rightarrow> string list \<Rightarrow> unit io" where
  "rm_stale protect [] = io_return ()"
| "rm_stale protect (d # ds) =
     (if protect = Some d then rm_stale protect ds
      else io_bind (io_catch (rmtree d) (io_return ())) (\<lambda>_. rm_stale protect ds))"

definition list_siblings :: "string list option io" where
  "list_siblings =
     io_catch (io_bind list_root (\<lambda>es. io_return (Some (run_entries es)))) (io_return None)"

definition prune_runs :: "int \<Rightarrow> string option \<Rightarrow> unit io" where
  "prune_runs keep_runs protect =
     (let keep = nat (max 1 keep_runs) in
      io_bind list_siblings
        (\<lambda>listing. case listing of
           None \<Rightarrow> io_return ()
         | Some siblings \<Rightarrow>
             if length siblings \<le> keep then io_return ()
             else io_bind (stat_all siblings)
                    (\<lambda>ks. rm_stale protect
                       (take (length siblings - keep) (map snd (sort_key fst ks))))))"

section \<open>What retention removes\<close>

definition mtime :: "fs \<Rightarrow> string \<Rightarrow> rat" where
  "mtime s d = (case map_of (fs_nodes s) d of Some (Dir m _) \<Rightarrow> m | _ \<Rightarrow> 0)"

definition run_dirs :: "fs \<Rightarrow> string list" where
  "run_dirs s = run_entries (fs_nodes s)"

lemma stat_all_result:
  "stat_all ds s = (r, t) \<Longrightarrow>
   fs_nodes t = fs_nodes s \<and> (\<forall>ks. r = Inr ks \<longrightarrow> ks = map (\<lambda>d. (mtime s d, d)) ds)"
proof (induction ds arbitrary: s r t)
  case Nil
  then show ?case by (auto simp: io_return_def)
next
  case (Cons d ds)
  obtain r1 s1 where 1: "stat_mtime d s = (r1, s1)" by fastforce
  have s1: "fs_nodes s1 = fs_nodes s" "r1 = Inr m \<Longrightarrow> m = mtime s d" for m
    using 1 by (auto simp: stat_mtime_def syscall_def mtime_def Let_def
        split: fault.splits option.splits node.splits)
  obtain r2 s2 where 2: "stat_all ds s1 = (r2, s2)" by fastforce
  from Cons.IH [OF 2] s1 1 2 Cons.prems show ?case
    by (auto simp: io_bind_def io_return_def mtime_def split: sum.splits)
qed

lemma rm_stale_keeps:
  "(\<And>d. d \<in> set ds \<Longrightarrow> protect \<noteq> Some d \<Longrightarrow> d \<notin> N) \<Longrightarrow> keeps (same_nodes N) (rm_stale protect ds)"
  by (induction ds) (auto intro!: nodes_rmtree)

lemma rm_stale_ok: "is_ok (fst (rm_stale protect ds s))"
proof (induction ds arbitrary: s)
  case (Cons d ds)
  have "is_ok (fst (io_catch (rmtree d) (io_return ()) s))"
    by (rule catch_total) (auto simp: os_only_calls io_return_def)
  with Cons show ?case
    by (cases "io_catch (rmtree d) (io_return ()) s") (auto simp: io_bind_def is_ok_iff)
qed (simp add: io_return_def)

definition by_age :: "fs \<Rightarrow> string list \<Rightarrow> string list" where
  "by_age s ds = map snd (sort_key fst (map (\<lambda>d. (mtime s d, d)) ds))"

lemma distinct_by_age: "distinct ds \<Longrightarrow> distinct (by_age s ds)"
  by (auto simp: by_age_def distinct_map inj_on_def)

lemma by_age_sorted: "sorted (map (mtime s) (by_age s ds))"
proof -
  have "map (mtime s) (by_age s ds) = map fst (sort_key fst (map (\<lambda>d. (mtime s d, d)) ds))"
    unfolding by_age_def map_map by (rule map_cong) auto
  then show ?thesis by simp
qed

definition stale_runs :: "int \<Rightarrow> fs \<Rightarrow> string list" where
  "stale_runs keep_runs s =
     take (length (run_dirs s) - nat (max 1 keep_runs)) (by_age s (run_dirs s))"

definition kept_runs :: "int \<Rightarrow> fs \<Rightarrow> string list" where
  "kept_runs keep_runs s =
     drop (length (run_dirs s) - nat (max 1 keep_runs)) (by_age s (run_dirs s))"

lemma length_by_age [simp]: "length (by_age s ds) = length ds"
  by (simp add: by_age_def)

lemma set_by_age [simp]: "set (by_age s ds) = set ds"
  by (auto simp: by_age_def image_iff)

lemma list_siblings_result:
  "list_siblings s = (r, t) \<Longrightarrow> fs_nodes t = fs_nodes s \<and> (r = Inr None \<or> r = Inr (Some (run_dirs s)))"
  by (auto simp: list_siblings_def io_catch_def io_bind_def io_return_def list_root_def syscall_def
      Let_def run_dirs_def split: fault.splits if_splits)

text \<open>
  A pruning of the runs either does nothing to the files (nothing to do, or the listing or a
  \<open>stat\<close> failed), or removes stale runs from a state with the same files.
\<close>

lemma prune_runs_shape:
  "prune_runs k p s = (r, t) \<Longrightarrow>
   fs_nodes t = fs_nodes s \<or>
   (\<exists>u. fs_nodes u = fs_nodes s \<and> (r, t) = rm_stale p (stale_runs k s) u)"
proof -
  assume run: "prune_runs k p s = (r, t)"
  obtain l s1 where l: "list_siblings s = (l, s1)" by fastforce
  from list_siblings_result [OF l] have s1: "fs_nodes s1 = fs_nodes s"
    and l_cases: "l = Inr None \<or> l = Inr (Some (run_dirs s))" by auto
  show ?thesis
  proof (cases "l = Inr (Some (run_dirs s)) \<and> \<not> length (run_dirs s) \<le> nat (max 1 k)")
    case False
    with l l_cases s1 run show ?thesis
      by (auto simp: prune_runs_def Let_def io_bind_def io_return_def)
  next
    case True
    obtain ks s2 where ks: "stat_all (run_dirs s) s1 = (ks, s2)" by fastforce
    from stat_all_result [OF ks] s1 have s2: "fs_nodes s2 = fs_nodes s"
      and ok: "\<And>v. ks = Inr v \<Longrightarrow> v = map (\<lambda>d. (mtime s d, d)) (run_dirs s)"
      by (auto simp: mtime_def)
    show ?thesis
    proof (cases ks)
      case (Inl e)
      with True l ks s2 run show ?thesis
        by (auto simp: prune_runs_def Let_def io_bind_def)
    next
      case (Inr v)
      with True l ks run ok have "(r, t) = rm_stale p (stale_runs k s) s2"
        by (simp add: prune_runs_def Let_def io_bind_def stale_runs_def by_age_def)
      with s2 show ?thesis by blast
    qed
  qed
qed

lemma prune_runs_spares:
  assumes "prune_runs k p s = (r, t)" and "n \<in> set (stale_runs k s) \<Longrightarrow> p = Some n"
  shows "map_of (fs_nodes t) n = map_of (fs_nodes s) n"
proof -
  from prune_runs_shape [OF assms(1)] consider "fs_nodes t = fs_nodes s"
    | u where "fs_nodes u = fs_nodes s" "(r, t) = rm_stale p (stale_runs k s) u" by blast
  then show ?thesis
  proof cases
    case 2
    have "keeps (same_nodes {n}) (rm_stale p (stale_runs k s))"
      using assms(2) by (intro rm_stale_keeps) auto
    from keepsD [OF this 2(2) [symmetric]] 2(1) show ?thesis by (simp add: same_nodes_def)
  qed simp
qed

lemma distinct_run_dirs: "wf_fs s \<Longrightarrow> distinct (run_dirs s)"
  by (simp add: run_dirs_def run_entries_def wf_fs_def distinct_map_filter)

lemma run_dirs_iff: "wf_fs s \<Longrightarrow> n \<in> set (run_dirs s) \<longleftrightarrow> is_run_dir n s \<and> is_run_id n"
proof -
  assume "wf_fs s"
  then have "(n, nd) \<in> set (fs_nodes s) \<longleftrightarrow> map_of (fs_nodes s) n = Some nd" for nd
    by (simp add: wf_fs_def)
  then show ?thesis
    by (auto simp: run_dirs_def run_entries_def is_run_dir_def image_iff
        split: option.splits node.splits prod.splits)
qed

lemma stale_kept:
  assumes "wf_fs s" and "n \<in> set (stale_runs k s)"
  shows "distinct (kept_runs k s)" and "length (kept_runs k s) = nat (max 1 k)"
    and "set (kept_runs k s) \<subseteq> set (run_dirs s)"
    and "d \<in> set (kept_runs k s) \<Longrightarrow> mtime s n \<le> mtime s d \<and> d \<notin> set (stale_runs k s)"
proof -
  let ?j = "length (run_dirs s) - nat (max 1 k)" and ?a = "by_age s (run_dirs s)"
  have dis: "distinct ?a"
    by (rule distinct_by_age [OF distinct_run_dirs [OF assms(1)]])
  then show "distinct (kept_runs k s)" by (simp add: kept_runs_def)
  have "0 < ?j" using assms(2) by (auto simp: stale_runs_def intro: ccontr)
  then show "length (kept_runs k s) = nat (max 1 k)" by (simp add: kept_runs_def)
  show "set (kept_runs k s) \<subseteq> set (run_dirs s)"
    by (metis kept_runs_def set_by_age set_drop_subset)
  assume d: "d \<in> set (kept_runs k s)"
  have "sorted (map (mtime s) (take ?j ?a @ drop ?j ?a))" by (simp add: by_age_sorted)
  then have "\<forall>x \<in> set (take ?j ?a). \<forall>y \<in> set (drop ?j ?a). mtime s x \<le> mtime s y"
    unfolding map_append sorted_append by simp
  then show "mtime s n \<le> mtime s d \<and> d \<notin> set (stale_runs k s)"
    using assms(2) d set_take_disj_set_drop_if_distinct [OF dis, of ?j ?j]
    by (auto simp: stale_runs_def kept_runs_def)
qed

text \<open>
  C19: whatever calls fail while runs are pruned, and wherever, an entry of the trace root that
  is not left exactly as it was is a directory named like a run, is not the protected run, and
  at least \<open>keep_runs\<close> (at least one) run directories that are not older are left as they were.
\<close>

theorem prune_spares_newest:
  assumes "prune_runs keep protect s = (r, t)" and "wf_fs s"
    and "map_of (fs_nodes t) n \<noteq> map_of (fs_nodes s) n"
  shows "is_run_dir n s \<and> is_run_id n \<and> protect \<noteq> Some n \<and>
    (\<exists>spared. distinct spared \<and> length spared = nat (max 1 keep) \<and>
       (\<forall>d \<in> set spared. is_run_dir d s \<and> is_run_id d \<and> mtime s n \<le> mtime s d \<and>
          map_of (fs_nodes t) d = map_of (fs_nodes s) d))"
proof -
  have n: "n \<in> set (stale_runs keep s)" "protect \<noteq> Some n"
    using prune_runs_spares [OF assms(1), of n] assms(3) by blast+
  then have "n \<in> set (run_dirs s)"
    by (metis in_set_takeD set_by_age stale_runs_def)
  moreover have "map_of (fs_nodes t) d = map_of (fs_nodes s) d \<and> mtime s n \<le> mtime s d"
    if "d \<in> set (kept_runs keep s)" for d
    using stale_kept(4) [OF assms(2) n(1) that] prune_runs_spares [OF assms(1), of d] by blast
  ultimately show ?thesis
    using stale_kept(1-3) [OF assms(2) n(1)] n(2) assms(2)
    by (intro conjI exI [of _ "kept_runs keep s"]) (auto simp: run_dirs_iff subset_iff)
qed

section \<open>Retention without faults\<close>

lemma faultless_tick: "faultless s \<Longrightarrow> faultless (s\<lparr>fs_tick := n\<rparr>)"
  by (simp add: faultless_def)

lemma rm_stale_faultless:
  assumes "faultless s" and "distinct ds" and "\<forall>d \<in> set ds. is_run_dir d s"
  shows "fs_nodes (snd (rm_stale p ds s)) =
    filter (\<lambda>(n, _). n \<in> set ds \<longrightarrow> p = Some n) (fs_nodes s)"
  using assms
proof (induction ds arbitrary: s)
  case Nil
  then show ?case by (simp add: io_return_def)
next
  case (Cons d ds)
  show ?case
  proof (cases "p = Some d")
    case True
    with Cons show ?thesis by (auto intro!: filter_cong)
  next
    case False
    let ?t = "s\<lparr>fs_tick := Suc (fs_tick s), fs_nodes := remove_key d (fs_nodes s)\<rparr>"
    have rm: "io_catch (rmtree d) (io_return ()) s = (Inr (), ?t)"
      using Cons.prems by (simp add: io_catch_def rmtree_def syscall_def Let_def faultless_def is_run_dir_def)
    have "fs_nodes (snd (rm_stale p ds ?t)) =
        filter (\<lambda>(n, _). n \<in> set ds \<longrightarrow> p = Some n) (fs_nodes ?t)"
      using Cons.prems by (intro Cons.IH) (auto simp: faultless_def is_run_dir_def)
    with False rm Cons.prems show ?thesis
      by (auto simp: io_bind_def remove_key_def intro!: filter_cong)
  qed
qed

lemma stat_all_faultless:
  assumes "faultless s" and "\<forall>d \<in> set ds. is_run_dir d s"
  shows "is_ok (fst (stat_all ds s)) \<and> faultless (snd (stat_all ds s))"
  using assms
proof (induction ds arbitrary: s)
  case Nil
  then show ?case by (simp add: io_return_def)
next
  case (Cons d ds)
  let ?t = "s\<lparr>fs_tick := Suc (fs_tick s)\<rparr>"
  have "stat_mtime d s = (Inr (mtime s d), ?t)"
    using Cons.prems
    by (auto simp: stat_mtime_def syscall_def Let_def faultless_def is_run_dir_def mtime_def
        split: option.splits node.splits)
  moreover have "is_ok (fst (stat_all ds ?t)) \<and> faultless (snd (stat_all ds ?t))"
    using Cons.prems by (intro Cons.IH) (auto simp: faultless_def is_run_dir_def)
  ultimately show ?case
    by (cases "stat_all ds ?t") (auto simp: io_bind_def io_return_def is_ok_iff)
qed

lemma prune_runs_faultless:
  assumes "faultless s" and "wf_fs s" and "fs_root s"
  shows "fst (prune_runs k p s) = Inr () \<and>
    fs_nodes (snd (prune_runs k p s)) =
      filter (\<lambda>(n, _). n \<in> set (stale_runs k s) \<longrightarrow> p = Some n) (fs_nodes s) \<or>
    fst (prune_runs k p s) = Inr () \<and> fs_nodes (snd (prune_runs k p s)) = fs_nodes s \<and>
      length (run_dirs s) \<le> nat (max 1 k)"
proof -
  let ?t = "s\<lparr>fs_tick := Suc (fs_tick s)\<rparr>"
  have dirs: "\<forall>d \<in> set (run_dirs s). is_run_dir d s" using assms(2) by (simp add: run_dirs_iff)
  show ?thesis
  proof (cases "\<not> length (run_dirs s) \<le> nat (max 1 k)")
    case True
    then have l: "list_siblings s = (Inr (Some (run_dirs s)), ?t)"
      using assms(1,3) by (simp add: list_siblings_def io_catch_def io_bind_def io_return_def
          list_root_def syscall_def Let_def faultless_def run_dirs_def)
    have st: "is_ok (fst (stat_all (run_dirs s) ?t)) \<and> faultless (snd (stat_all (run_dirs s) ?t))"
      using assms(1) dirs by (intro stat_all_faultless) (auto simp: faultless_def is_run_dir_def)
    obtain ks u where ks: "stat_all (run_dirs s) ?t = (Inr ks, u)" "faultless u"
      using st by (cases "stat_all (run_dirs s) ?t") (auto simp: is_ok_iff)
    from stat_all_result [OF ks(1)] have u: "fs_nodes u = fs_nodes s"
      "ks = map (\<lambda>d. (mtime s d, d)) (run_dirs s)" by (auto simp: mtime_def)
    have dis: "distinct (stale_runs k s)"
      using distinct_by_age [OF distinct_run_dirs [OF assms(2)]] by (simp add: stale_runs_def)
    have sub: "\<forall>d \<in> set (stale_runs k s). is_run_dir d u"
      using dirs u(1) by (auto simp: stale_runs_def is_run_dir_def dest!: in_set_takeD)
    from True l ks(1) u(2) have "prune_runs k p s = rm_stale p (stale_runs k s) u"
      by (simp add: prune_runs_def Let_def io_bind_def stale_runs_def by_age_def)
    then show ?thesis
      using rm_stale_faultless [OF ks(2) dis sub] rm_stale_ok u(1) by (auto simp: is_ok_iff)
  next
    case False
    have "list_siblings s = (Inr (Some (run_dirs s)), ?t)"
      using assms(1,3) by (simp add: list_siblings_def io_catch_def io_bind_def io_return_def
          list_root_def syscall_def Let_def faultless_def run_dirs_def)
    with False show ?thesis
      by (auto simp: prune_runs_def Let_def io_bind_def io_return_def stale_runs_def)
  qed
qed

lemma run_dirs_filter:
  assumes "fs_nodes t = filter (\<lambda>(n, _). P n) (fs_nodes s)"
  shows "run_dirs t = filter P (run_dirs s)"
  unfolding run_dirs_def run_entries_def assms
  by (simp add: filter_map comp_def case_prod_beta) (metis (mono_tags, lifting))

text \<open>
  Without faults the pruning returns, and at most \<open>keep_runs\<close> (at least one) run
  directories are left, one more if the protected run is not among the newest.
\<close>

theorem prune_bounds_runs:
  assumes "faultless s" and "wf_fs s" and "fs_root s"
  shows "fst (prune_runs keep protect s) = Inr () \<and>
    length (run_dirs (snd (prune_runs keep protect s))) \<le>
      nat (max 1 keep) + (if protect = None then 0 else 1)"
  using prune_runs_faultless [OF assms, of keep protect]
proof
  let ?t = "snd (prune_runs keep protect s)"
  assume *: "fst (prune_runs keep protect s) = Inr () \<and>
    fs_nodes ?t = filter (\<lambda>(n, _). n \<in> set (stale_runs keep s) \<longrightarrow> protect = Some n) (fs_nodes s)"
  then have dirs: "run_dirs ?t =
      filter (\<lambda>n. n \<in> set (stale_runs keep s) \<longrightarrow> protect = Some n) (run_dirs s)"
    by (intro run_dirs_filter) simp
  have "set (run_dirs s) = set (stale_runs keep s) \<union> set (kept_runs keep s)"
    by (metis append_take_drop_id kept_runs_def set_append set_by_age stale_runs_def)
  with dirs have sub: "set (run_dirs ?t) \<subseteq> set (kept_runs keep s) \<union> set_option protect" by auto
  have "length (run_dirs ?t) = card (set (run_dirs ?t))"
    by (rule distinct_card [symmetric]) (simp add: dirs distinct_run_dirs [OF assms(2)])
  also have "\<dots> \<le> card (set (kept_runs keep s) \<union> set_option protect)"
    using sub by (intro card_mono) auto
  also have "\<dots> \<le> card (set (kept_runs keep s)) + card (set_option protect)"
    by (rule card_Un_le)
  also have "card (set (kept_runs keep s)) \<le> nat (max 1 keep)"
    by (rule le_trans [OF card_length]) (simp add: kept_runs_def)
  finally have "length (run_dirs ?t) \<le> nat (max 1 keep) + card (set_option protect)" by simp
  with * show ?thesis by (cases protect) auto
qed (auto simp: run_dirs_def)

section \<open>The trace of a run\<close>

text \<open>
  \<open>RunTrace\<close>: the handle of the harness log is open or \<open>None\<close>; an open handle has the text
  that a failed flush has left in its buffer.
\<close>

record run_trace =
  rt_directory :: string
  rt_keep_runs :: int
  rt_handle :: "string option"
  rt_manifest :: data

definition RunTrace :: "string \<Rightarrow> int \<Rightarrow> run_trace" where
  "RunTrace directory keep_runs =
     \<lparr>rt_directory = directory, rt_keep_runs = max 1 keep_runs, rt_handle = None, rt_manifest = []\<rparr>"

definition LOG_NAME :: string where
  "LOG_NAME = ''harness.log''"

definition MANIFEST_NAME :: string where
  "MANIFEST_NAME = ''manifest.json''"

definition TMP_NAME :: string where
  "TMP_NAME = ''manifest.json.tmp''"

definition newline :: char where
  "newline = char_of (10::nat)"

definition manifest_text :: "data \<Rightarrow> string pyres" where
  "manifest_text m = rmap (\<lambda>t. t @ [newline]) (json_dumps (json_indented True) 0 (PDict m))"

definition write_manifest :: "string \<Rightarrow> data \<Rightarrow> unit io" where
  "write_manifest d m =
     io_bind (io_lift (manifest_text m)) (\<lambda>txt.
     io_bind (open_run_file True d TMP_NAME) (\<lambda>_.
     io_bind (write_run_file d TMP_NAME txt) (\<lambda>_.
     replace_run_file d TMP_NAME MANIFEST_NAME)))"

text \<open>\<open>flush\<close>: what an interrupted call has not written stays in the buffer.\<close>

definition flush_handle :: "string \<Rightarrow> string \<Rightarrow> fs \<Rightarrow> unit pyres \<times> string \<times> fs" where
  "flush_handle d pending s =
     (let t = s\<lparr>fs_tick := Suc (fs_tick s)\<rparr> in
      if pending = '''' then (Inr (), '''', s)
      else case fs_faults s (fs_tick s) of
        Fine \<Rightarrow> (Inr (), '''', add_run_text d LOG_NAME pending t)
      | Broken k \<Rightarrow> (Inl os_error, drop k pending, add_run_text d LOG_NAME (take k pending) t))"

type_synonym 'a traced = "run_trace \<Rightarrow> fs \<Rightarrow> 'a pyres \<times> run_trace \<times> fs"

definition trace_write :: "string \<Rightarrow> unit traced" where
  "trace_write line tr s =
     (case rt_handle tr of
        None \<Rightarrow> (Inr (), tr, s)
      | Some pending \<Rightarrow>
          (case flush_handle (rt_directory tr) (pending @ py_rstrip_of newline line @ [newline]) s of
             (r, rest, t) \<Rightarrow> (r, tr\<lparr>rt_handle := Some rest\<rparr>, t)))"

definition trace_close :: "unit traced" where
  "trace_close tr s =
     (case rt_handle tr of
        None \<Rightarrow> (Inr (), tr, s)
      | Some pending \<Rightarrow>
          (case flush_handle (rt_directory tr) pending s of
             (r, _, t) \<Rightarrow> (r, tr\<lparr>rt_handle := None\<rparr>, t)))"

text \<open>\<open>dict.update\<close>\<close>

definition dict_update :: "data \<Rightarrow> data \<Rightarrow> data" where
  "dict_update kvs m = fold (\<lambda>(k, v). upsert k v) kvs m"

definition trace_finish :: "data \<Rightarrow> string \<Rightarrow> unit traced" where
  "trace_finish kvs now tr s =
     (let m = upsert ''ended_at'' (PStr now) (dict_update kvs (rt_manifest tr)) in
      case write_manifest (rt_directory tr) m s of (r, t) \<Rightarrow> (r, tr\<lparr>rt_manifest := m\<rparr>, t))"

definition trace_open :: "data \<Rightarrow> string \<Rightarrow> unit traced" where
  "trace_open kvs now tr s =
     (let d = rt_directory tr;
          tr1 = tr\<lparr>rt_manifest := dict_update kvs [(''started_at'', PStr now)]\<rparr> in
      case open_run_file False d LOG_NAME s of
        (Inl e, t) \<Rightarrow> (Inl e, tr1, t)
      | (Inr _, t) \<Rightarrow>
          (let tr2 = tr1\<lparr>rt_handle := Some ''''\<rparr> in
           case io_bind (write_manifest d (rt_manifest tr2))
                  (\<lambda>_. prune_runs (rt_keep_runs tr2) (Some d)) t of
             (Inr _, u) \<Rightarrow> (Inr (), tr2, u)
           | (Inl e, u) \<Rightarrow>
               if is_os_error e
               then (case trace_close tr2 u of
                       (Inl e2, tr3, v) \<Rightarrow> (Inl e2, tr3, v)
                     | (Inr _, tr3, v) \<Rightarrow> (Inl e, tr3, v))
               else (Inl e, tr2, u)))"

definition identity_fields :: "prompt_info \<Rightarrow> string \<Rightarrow> data" where
  "identity_fields info workspace =
     [(''run_id'', PStr (pi_id info)), (''delivery_id'', PStr (pi_delivery_id info)),
      (''repo'', PStr (pi_repo info)), (''event'', PStr (pi_event info)),
      (''action'', PStr (pi_action info)), (''label'', PStr (pi_label info)),
      (''workspace'', PStr workspace)]"

text \<open>The trace root is resolved outside the \<open>try\<close>.\<close>

definition open_run_trace ::
  "(string \<Rightarrow> string option) \<Rightarrow> string \<Rightarrow> string \<Rightarrow> int \<Rightarrow> prompt_info \<Rightarrow> string \<Rightarrow> run_trace option io"
where
  "open_run_trace homes now trace_root keep_runs info workspace s =
     (case resolve_trace_root homes trace_root of
        Inl e \<Rightarrow> (Inl e, s)
      | Inr _ \<Rightarrow>
          (case mkdir_run (pi_id info) s of
             (Inl e, t) \<Rightarrow> if is_os_error e then (Inr None, t) else (Inl e, t)
           | (Inr _, t) \<Rightarrow>
               (case trace_open (identity_fields info workspace) now
                       (RunTrace (pi_id info) keep_runs) t of
                  (Inr _, tr, u) \<Rightarrow> (Inr (Some tr), u)
                | (Inl e, tr, u) \<Rightarrow> if is_os_error e then (Inr None, u) else (Inl e, u))))"

section \<open>Failures of the trace\<close>

lemma map_of_fold_upsert_plain:
  "list_all (\<lambda>kv. plain (snd kv)) m \<Longrightarrow> plain v \<Longrightarrow> list_all (\<lambda>kv. plain (snd kv)) (upsert k v m)"
  by (induction k v m rule: upsert.induct) auto

lemma plain_dict_update:
  "list_all (\<lambda>kv. plain (snd kv)) kvs \<Longrightarrow> list_all (\<lambda>kv. plain (snd kv)) m \<Longrightarrow>
   list_all (\<lambda>kv. plain (snd kv)) (dict_update kvs m)"
  by (induction kvs arbitrary: m) (auto simp: dict_update_def map_of_fold_upsert_plain)

lemma manifest_text_ok: "list_all (\<lambda>kv. plain (snd kv)) m \<Longrightarrow> \<exists>txt. manifest_text m = Inr txt"
  using json_dumps_plain [of "PDict m" "json_indented True" 0]
  by (auto simp: manifest_text_def is_ok_iff)

lemma os_only_list_siblings: "os_only list_siblings"
  unfolding list_siblings_def by (intro os_only_catch os_only_bind os_only_return os_only_calls)

lemma os_only_stat_all: "os_only (stat_all ds)"
  by (induction ds) (auto intro!: os_only_bind os_only_return os_only_calls)

lemma os_only_rm_stale: "os_only (rm_stale p ds)"
  by (rule os_onlyI) (metis fst_conv is_ok_simps(1) rm_stale_ok)

lemma os_only_prune_runs: "os_only (prune_runs k p)"
  unfolding prune_runs_def Let_def
  by (intro os_only_bind os_only_list_siblings)
    (auto split: option.splits intro!: os_only_bind os_only_stat_all os_only_rm_stale)

lemma os_only_write_manifest: "manifest_text m = Inr txt \<Longrightarrow> os_only (write_manifest d m)"
  unfolding write_manifest_def by (auto intro!: os_only_bind os_only_calls os_only_lift)

lemma flush_handle_os: "flush_handle d p s = (Inl e, q, t) \<Longrightarrow> is_os_error e"
  by (auto simp: flush_handle_def Let_def split: if_splits fault.splits)

lemma trace_open_os:
  assumes "list_all (\<lambda>kv. plain (snd kv)) kvs" and "trace_open kvs now tr s = (Inl e, tr2, t)"
  shows "is_os_error e"
proof -
  let ?m = "dict_update kvs [(''started_at'', PStr now)]"
  have "list_all (\<lambda>kv. plain (snd kv)) ?m" using assms(1) by (intro plain_dict_update) auto
  then obtain body where "manifest_text ?m = Inr body" using manifest_text_ok by blast
  then have os: "os_only (io_bind (write_manifest d ?m) (\<lambda>_. prune_runs k p))" for d k p
    by (intro os_only_bind os_only_write_manifest os_only_prune_runs)
  from assms(2) os_onlyD [OF os] os_onlyD [OF os_only_calls(8)] show ?thesis
    by (auto simp: trace_open_def Let_def trace_close_def dest: flush_handle_os
        split: prod.splits sum.splits if_splits)
qed

lemma trace_open_handle:
  "trace_open kvs now tr s = (Inr u, tr2, t) \<Longrightarrow>
   rt_handle tr2 = Some '''' \<and> rt_directory tr2 = rt_directory tr"
  by (auto simp: trace_open_def Let_def split: prod.splits sum.splits if_splits)

text \<open>
  Opening the trace of a run raises nothing, whatever calls fail, as long as the trace root
  can be resolved: the caller gets a trace whose log is open, or none.
\<close>

theorem open_run_trace_best_effort:
  assumes "resolve_trace_root homes trace_root = Inr path"
  shows "\<exists>trace. fst (open_run_trace homes now trace_root keep info workspace s) = Inr trace \<and>
    (\<forall>tr. trace = Some tr \<longrightarrow> rt_handle tr = Some '''' \<and> rt_directory tr = pi_id info)"
proof -
  have plain: "list_all (\<lambda>kv. plain (snd kv)) (identity_fields info workspace)"
    by (simp add: identity_fields_def)
  obtain r t where mk: "mkdir_run (pi_id info) s = (r, t)" by fastforce
  show ?thesis
  proof (cases r)
    case (Inl e)
    with mk os_onlyD [OF os_only_calls(7)] assms show ?thesis by (simp add: open_run_trace_def)
  next
    case (Inr u)
    obtain r2 tr u2 where op: "trace_open (identity_fields info workspace) now
        (RunTrace (pi_id info) keep) t = (r2, tr, u2)" by (metis prod_cases3)
    with Inr mk assms trace_open_os [OF plain] trace_open_handle show ?thesis
      by (cases r2) (fastforce simp: open_run_trace_def RunTrace_def)+
  qed
qed

text \<open>A root such as \<open>~nobody/runs\<close> of an unknown user is the exception.\<close>

lemma open_run_trace_unknown_home:
  "homes ''nobody'' = None \<Longrightarrow>
   open_run_trace homes now ''~nobody/runs'' keep info workspace s =
     (Inl (PyExc RuntimeError ''Could not determine home directory.''), s)"
  by (simp add: open_run_trace_def resolve_trace_root_def py_expanduser_def)

section \<open>What the files hold\<close>

lemma is_run_dir_put_run [simp]: "is_run_dir d (put_run_file e n c s) = is_run_dir d s"
  by (auto simp: is_run_dir_def put_run_file_def put_node_def split: option.splits node.splits)

lemma run_file_put_run [simp]:
  "is_run_dir d s \<Longrightarrow> run_file d n (put_run_file d m c s) = (if n = m then Some c else run_file d n s)"
  by (auto simp: is_run_dir_def run_file_def run_files_def put_run_file_def put_node_def
      split: option.splits node.splits)

lemma run_file_tick [simp]: "run_file d n (s\<lparr>fs_tick := k\<rparr>) = run_file d n s"
  by (simp add: run_file_def run_files_def)

lemma is_run_dir_tick [simp]: "is_run_dir d (s\<lparr>fs_tick := k\<rparr>) = is_run_dir d s"
  by (simp add: is_run_dir_def)

lemma open_fresh_result:
  "open_run_file True d n s = (r, t) \<Longrightarrow> is_run_dir d s \<Longrightarrow>
   is_run_dir d t \<and> (\<forall>m. m \<noteq> n \<longrightarrow> run_file d m t = run_file d m s) \<and>
   (is_ok r \<longrightarrow> run_file d n t = Some '''')"
  by (auto simp: open_run_file_def syscall_def Let_def split: fault.splits)

lemma write_run_result:
  "write_run_file d n c s = (r, t) \<Longrightarrow> is_run_dir d s \<Longrightarrow> run_file d n s = Some '''' \<Longrightarrow>
   is_run_dir d t \<and> (\<forall>m. m \<noteq> n \<longrightarrow> run_file d m t = run_file d m s) \<and>
   (is_ok r \<longrightarrow> run_file d n t = Some c)"
  by (auto simp: write_run_file_def add_run_text_def syscall_def Let_def split: fault.splits)

lemma replace_run_result:
  "replace_run_file d a b s = (r, t) \<Longrightarrow> is_run_dir d s \<Longrightarrow> run_file d a s = Some c \<Longrightarrow> a \<noteq> b \<Longrightarrow>
   (\<forall>m. m \<notin> {a, b} \<longrightarrow> run_file d m t = run_file d m s) \<and>
   run_file d b t = (if is_ok r then Some c else run_file d b s)"
  by (auto simp: replace_run_file_def syscall_def Let_def is_run_dir_def run_file_def run_files_def
      put_node_def split: fault.splits option.splits node.splits)

lemma plan_write_manifest: "keeps same_plan (write_manifest d m)"
  unfolding write_manifest_def by (intro plan.keeps_bind plan.keeps_lift plan_run_file)

lemma write_manifest_result:
  assumes "manifest_text m = Inr body" and "is_run_dir d s" and "write_manifest d m s = (r, t)"
  shows "run_file d MANIFEST_NAME t =
      (if is_ok r then Some body else run_file d MANIFEST_NAME s) \<and>
    (\<forall>n. n \<notin> {MANIFEST_NAME, TMP_NAME} \<longrightarrow> run_file d n t = run_file d n s)"
proof -
  have names: "TMP_NAME \<noteq> MANIFEST_NAME" by (simp add: TMP_NAME_def MANIFEST_NAME_def)
  obtain r1 s1 where 1: "open_run_file True d TMP_NAME s = (r1, s1)" by fastforce
  note 1 = 1 open_fresh_result [OF 1 assms(2)]
  obtain r2 s2 where 2: "write_run_file d TMP_NAME body s1 = (r2, s2)" by fastforce
  obtain r3 s3 where 3: "replace_run_file d TMP_NAME MANIFEST_NAME s2 = (r3, s3)" by fastforce
  show ?thesis
  proof (cases "is_ok r1")
    case False
    with 1 assms names show ?thesis
      by (cases r1) (auto simp: write_manifest_def io_bind_def io_lift_def)
  next
    case ok1: True
    then have 2: "write_run_file d TMP_NAME body s1 = (r2, s2)"
      "is_run_dir d s2 \<and> (\<forall>m. m \<noteq> TMP_NAME \<longrightarrow> run_file d m s2 = run_file d m s1) \<and>
       (is_ok r2 \<longrightarrow> run_file d TMP_NAME s2 = Some body)"
      using 1 2 write_run_result [OF 2] by auto
    show ?thesis
    proof (cases "is_ok r2")
      case False
      with 1 2 ok1 assms names show ?thesis
        by (auto simp: write_manifest_def io_bind_def io_lift_def is_ok_iff split: sum.splits)
    next
      case True
      with 2 3 have "(\<forall>m. m \<notin> {TMP_NAME, MANIFEST_NAME} \<longrightarrow> run_file d m s3 = run_file d m s2) \<and>
          run_file d MANIFEST_NAME s3 = (if is_ok r3 then Some body else run_file d MANIFEST_NAME s2)"
        by (intro replace_run_result [OF 3 _ _ names]) auto
      with 1 2 3 True ok1 assms names show ?thesis
        by (auto simp: write_manifest_def io_bind_def io_lift_def is_ok_iff)
    qed
  qed
qed

text \<open>
  C26: the manifest is replaced atomically.  Whichever call of \<open>_write_manifest\<close> fails, and
  however much of an interrupted write has reached the disk, the manifest a reader sees is the
  previous one, unchanged, or, exactly when the operation returns, the complete new one; no other
  file of the run but the temporary one is touched.
\<close>

theorem manifest_replaced_atomically:
  assumes "manifest_text m = Inr body" and "is_run_dir d s" and "write_manifest d m s = (r, t)"
  shows "run_file d MANIFEST_NAME t =
      (if is_ok r then Some body else run_file d MANIFEST_NAME s) \<and>
    (\<forall>n. n \<notin> {MANIFEST_NAME, TMP_NAME} \<longrightarrow> run_file d n t = run_file d n s)"
  by (rule write_manifest_result [OF assms])

lemma flush_handle_result:
  "flush_handle d p s = (r, q, t) \<Longrightarrow> is_run_dir d s \<Longrightarrow> run_file d LOG_NAME s = Some c \<Longrightarrow>
   is_run_dir d t \<and> (\<exists>c'. run_file d LOG_NAME t = Some c' \<and> c' @ q = c @ p) \<and> (is_ok r \<longrightarrow> q = [])"
  by (auto simp: flush_handle_def Let_def add_run_text_def split: if_splits fault.splits)

fun trace_writes :: "string list \<Rightarrow> run_trace \<Rightarrow> fs \<Rightarrow> run_trace \<times> fs" where
  "trace_writes [] tr s = (tr, s)"
| "trace_writes (line # lines) tr s =
     (case trace_write line tr s of (_, tr1, t) \<Rightarrow> trace_writes lines tr1 t)"

text \<open>
  The harness log loses and duplicates nothing while its handle is open: after any number of
  writes, each of which may have failed half-way, the text on disk followed by the text still in
  the buffer is what was there before followed by the lines, each ended by one line end.
\<close>

theorem harness_log_lossless:
  assumes "rt_handle tr = Some pending" and "is_run_dir (rt_directory tr) s"
    and "run_file (rt_directory tr) LOG_NAME s = Some content"
    and "trace_writes lines tr s = (tr2, t)"
  shows "\<exists>content2 pending2. run_file (rt_directory tr) LOG_NAME t = Some content2 \<and>
    rt_handle tr2 = Some pending2 \<and>
    content2 @ pending2 =
      content @ pending @ concat (map (\<lambda>line. py_rstrip_of newline line @ [newline]) lines)"
  using assms
proof (induction lines arbitrary: tr s pending content)
  case Nil
  then show ?case by simp
next
  case (Cons line lines)
  let ?p = "pending @ py_rstrip_of newline line @ [newline]"
  obtain r q u where fl: "flush_handle (rt_directory tr) ?p s = (r, q, u)" by (metis prod_cases3)
  from flush_handle_result [OF this Cons.prems(2,3)] obtain c' where
    u: "is_run_dir (rt_directory tr) u" "run_file (rt_directory tr) LOG_NAME u = Some c'"
      "c' @ q = content @ ?p" by blast
  from Cons.prems fl have "trace_writes lines (tr\<lparr>rt_handle := Some q\<rparr>) u = (tr2, t)"
    by (simp add: trace_write_def)
  from Cons.IH [of "tr\<lparr>rt_handle := Some q\<rparr>" q u c', OF _ _ _ this] u show ?case
    by (simp flip: append_assoc)
qed

section \<open>Instances\<close>

definition RUN_A :: string where
  "RUN_A = replicate 32 CHR ''a''"

definition RUN_B :: string where
  "RUN_B = replicate 32 CHR ''b''"

lemma example_names [simp]:
  "is_run_id RUN_A" "is_run_id RUN_B" "\<not> is_run_id ''events.jsonl''"
  "RUN_A \<noteq> RUN_B" "RUN_B \<noteq> RUN_A" "RUN_A \<noteq> ''events.jsonl''" "RUN_B \<noteq> ''events.jsonl''"
  "''events.jsonl'' \<noteq> RUN_A" "''events.jsonl'' \<noteq> RUN_B"
  by code_simp+

definition two_runs :: "(nat \<Rightarrow> fault) \<Rightarrow> fs" where
  "two_runs faults =
     \<lparr>fs_root = True,
      fs_nodes = [(''events.jsonl'', File ''''), (RUN_A, Dir 2 [(LOG_NAME, ''x'')]),
                  (RUN_B, Dir 1 [])],
      fs_clock = of_nat, fs_faults = faults, fs_tick = 0\<rparr>"

lemma two_runs_facts:
  "wf_fs (two_runs f)" "fs_root (two_runs f)" "is_run_dir RUN_A (two_runs f)"
  "run_file RUN_A LOG_NAME (two_runs f) = Some ''x''"
  "run_dirs (two_runs f) = [RUN_A, RUN_B]"
  by (simp_all add: two_runs_def wf_fs_def is_run_dir_def run_file_def run_files_def run_dirs_def
      run_entries_def example_names)

theorem prune_bounds_runs_witness:
  "length (run_dirs (snd (prune_runs (-3) None (two_runs (\<lambda>_. Fine))))) \<le> 1"
  using prune_bounds_runs [of "two_runs (\<lambda>_. Fine)" "-3" None] two_runs_facts
  by (simp add: faultless_def two_runs_def)

theorem open_run_trace_best_effort_witness:
  "\<exists>trace. fst (open_run_trace (\<lambda>_. None) ''t0'' '''' 50
      (PromptInfo (replicate 32 CHR ''c'') 0 ''d'' ''o/r'' ''issues'' ''labeled'' ''x'' PNone) ''/w''
      (two_runs (\<lambda>n. Broken n))) = Inr trace"
  using open_run_trace_best_effort [of "\<lambda>_. None" "''''" "''logs/runs''"]
  by (metis resolve_trace_root_def)

theorem manifest_replaced_atomically_witness:
  "run_file RUN_A LOG_NAME
     (snd (write_manifest RUN_A [] (two_runs (\<lambda>n. Broken n)))) = Some ''x''"
proof -
  obtain body where body: "manifest_text [] = Inr body" using manifest_text_ok [of "[]"] by auto
  have "LOG_NAME \<notin> {MANIFEST_NAME, TMP_NAME}"
    by (simp add: LOG_NAME_def MANIFEST_NAME_def TMP_NAME_def)
  then show ?thesis
    using manifest_replaced_atomically [OF body two_runs_facts(3)] two_runs_facts(4)
    by (metis prod.collapse)
qed

theorem harness_log_lossless_witness:
  "\<exists>c q. rt_handle (fst (trace_writes [''l1'', ''l2'']
       ((RunTrace RUN_A 1)\<lparr>rt_handle := Some ''''\<rparr>) (two_runs (\<lambda>n. Broken n)))) = Some q \<and>
     c @ q = ''xl1'' @ [newline] @ ''l2'' @ [newline]"
proof -
  let ?tr = "(RunTrace RUN_A 1)\<lparr>rt_handle := Some ''''\<rparr>"
  obtain tr2 t where "trace_writes [''l1'', ''l2''] ?tr (two_runs (\<lambda>n. Broken n)) = (tr2, t)"
    by fastforce
  note run = this
  have strip: "py_rstrip_of newline ''l1'' = ''l1''" "py_rstrip_of newline ''l2'' = ''l2''"
    by code_simp+
  show ?thesis
    using harness_log_lossless [OF _ _ _ run, of "''''" "''x''"] two_runs_facts run
    by (simp add: RunTrace_def strip) blast
qed

lemma two_runs_stale: "stale_runs 0 (two_runs f) = [RUN_B]"
  unfolding stale_runs_def two_runs_facts(5)
  by (simp add: by_age_def mtime_def two_runs_def)

theorem prune_spares_newest_witness:
  "\<exists>spared. length spared = 1 \<and> RUN_B \<notin> set spared \<and>
     (\<forall>d \<in> set spared. is_run_id d \<and>
        map_of (fs_nodes (snd (prune_runs 0 None (two_runs (\<lambda>_. Fine))))) d =
        map_of (fs_nodes (two_runs (\<lambda>_. Fine))) d)"
proof -
  let ?s = "two_runs (\<lambda>_. Fine)"
  obtain r t where run: "prune_runs 0 None ?s = (r, t)" by fastforce
  have "faultless ?s" by (simp add: faultless_def two_runs_def)
  from prune_runs_faultless [OF this two_runs_facts(1,2), of 0 None] two_runs_stale
  have "fs_nodes t = filter (\<lambda>(n, _). n \<noteq> RUN_B) (fs_nodes ?s)"
    unfolding run two_runs_facts(5) by simp
  then have changed: "map_of (fs_nodes t) RUN_B \<noteq> map_of (fs_nodes ?s) RUN_B"
    by (simp add: two_runs_def)
  with prune_spares_newest [OF run two_runs_facts(1) changed] run show ?thesis by auto
qed

end
