(* ===== verification/Json_Loads.thy ===== *)
theory Json_Loads
  imports Json_Text Signature Config
begin

text \<open>
  \<open>json.loads\<close> of Python's standard library, which reads request bodies, log lines and
  manifests.  The scanner follows the C implementation: a scanning function gets the text from the
  current index on and gives the value and the number of bytes it took.  Nesting costs one level of
  the interpreter's recursion limit, an integer may have 4300 digits, a lone surrogate escape is
  kept, a repeated key overwrites the value at its first position.  \<open>repr(float(s))\<close> and the
  recursion limit are parameters; the position in the text of a \<open>JSONDecodeError\<close> is left out.
  Second half: what \<open>json.dumps\<close> writes, \<open>json.loads\<close> reads back.
\<close>

section \<open>UTF-8\<close>

definition utf8_encode :: "nat \<Rightarrow> string" where
  "utf8_encode n =
     (if n < 128 then [char_of n]
      else if n < 2048 then [char_of (192 + n div 64), char_of (128 + n mod 64)]
      else if n < 65536 then
        [char_of (224 + n div 4096), char_of (128 + n div 64 mod 64), char_of (128 + n mod 64)]
      else
        [char_of (240 + n div 262144), char_of (128 + n div 4096 mod 64),
         char_of (128 + n div 64 mod 64), char_of (128 + n mod 64)])"

definition is_surrogate :: "nat \<Rightarrow> bool" where
  "is_surrogate n \<longleftrightarrow> 55296 \<le> n \<and> n < 57344"

text \<open>The bytes of one code point; with \<open>surrogatepass\<close> also of a surrogate.\<close>

definition utf8_char :: "bool \<Rightarrow> string \<Rightarrow> bool" where
  "utf8_char surrogatepass ch \<longleftrightarrow>
     (let n = code_point ch in
      n < 1114112 \<and> utf8_encode n = ch \<and> (surrogatepass \<or> \<not> is_surrogate n))"

definition utf8 :: "bool \<Rightarrow> string \<Rightarrow> bool" where
  "utf8 surrogatepass s \<longleftrightarrow> list_all (utf8_char surrogatepass) (py_chars s)"

definition py_decode :: "bool \<Rightarrow> string \<Rightarrow> string pyres" where
  "py_decode surrogatepass s =
     (if utf8 surrogatepass s then Inr s else Inl (PyExc UnicodeDecodeError ''invalid start byte''))"

section \<open>Scanning\<close>

definition json_error :: "string \<Rightarrow> 'a pyres" where
  "json_error msg = Inl (PyExc JSONDecodeError msg)"

definition BS :: char where
  "BS = char_of (92::nat)"

definition json_ws :: "char \<Rightarrow> bool" where
  "json_ws c \<longleftrightarrow> code c \<in> {32, 9, 10, 13}"

definition ws_len :: "string \<Rightarrow> nat" where
  "ws_len s = length (takeWhile json_ws s)"

subsection \<open>Strings\<close>

definition hex4_val :: "string \<Rightarrow> nat option" where
  "hex4_val s =
     (case map hex_val s of
        [Some a, Some b, Some c, Some d] \<Rightarrow> Some (((a * 16 + b) * 16 + c) * 16 + d)
      | _ \<Rightarrow> None)"

definition simple_escape :: "char \<Rightarrow> char option" where
  "simple_escape c =
     (if code c \<in> {34, 92, 47} then Some c
      else if c = CHR ''b'' then Some (char_of (8::nat))
      else if c = CHR ''f'' then Some (char_of (12::nat))
      else if c = CHR ''n'' then Some (char_of (10::nat))
      else if c = CHR ''r'' then Some (char_of (13::nat))
      else if c = CHR ''t'' then Some (char_of (9::nat))
      else None)"

text \<open>After \<open>\u\<close>: four digits, and after a high surrogate a low one if it follows escaped.\<close>

definition scan_unicode :: "string \<Rightarrow> (string \<times> nat) pyres" where
  "scan_unicode s =
     (case hex4_val (take 4 s) of
        None \<Rightarrow> json_error (''Invalid '' @ BS # ''uXXXX escape'')
      | Some n \<Rightarrow>
          if 55296 \<le> n \<and> n < 56320 \<and> take 2 (drop 4 s) = [BS, CHR ''u'']
          then (case hex4_val (take 4 (drop 6 s)) of
                  None \<Rightarrow> json_error (''Invalid '' @ BS # ''uXXXX escape'')
                | Some m \<Rightarrow>
                    if 56320 \<le> m \<and> m < 57344
                    then Inr (utf8_encode (65536 + (n - 55296) * 1024 + (m - 56320)), 10)
                    else Inr (utf8_encode n, 4))
          else Inr (utf8_encode n, 4))"

definition scan_escape :: "string \<Rightarrow> (string \<times> nat) pyres" where
  "scan_escape s =
     (case s of
        [] \<Rightarrow> json_error ''Unterminated string starting at''
      | c # cs \<Rightarrow>
          if c = CHR ''u'' then rmap (\<lambda>(t, n). (t, Suc n)) (scan_unicode cs)
          else (case simple_escape c of
                  None \<Rightarrow> json_error (''Invalid '' @ BS # ''escape'')
                | Some d \<Rightarrow> Inr ([d], 1)))"

text \<open>A string from behind its opening quote on.\<close>

function scan_string :: "string \<Rightarrow> (string \<times> nat) pyres" where
  "scan_string [] = json_error ''Unterminated string starting at''"
| "scan_string (c # cs) =
     (if code c = 34 then Inr ([], 1)
      else if code c = 92
      then (case scan_escape cs of
              Inl e \<Rightarrow> Inl e
            | Inr (t, n) \<Rightarrow> rmap (\<lambda>(u, m). (t @ u, Suc (n + m))) (scan_string (drop n cs)))
      else if code c < 32 then json_error ''Invalid control character at''
      else rmap (\<lambda>(u, m). (c # u, Suc m)) (scan_string cs))"
  by pat_completeness auto
termination by (relation "measure length") auto

subsection \<open>Numbers\<close>

definition digits :: "string \<Rightarrow> nat" where
  "digits s = length (takeWhile is_digit s)"

definition sign_len :: "char set \<Rightarrow> string \<Rightarrow> nat" where
  "sign_len cs s = (case s of [] \<Rightarrow> 0 | c # _ \<Rightarrow> if c \<in> cs then 1 else 0)"

text \<open>The lengths of \<open>(?:0|[1-9][0-9]*)\<close>, \<open>(\.[0-9]+)?\<close> and \<open>([eE][-+]?[0-9]+)?\<close>.\<close>

definition int_len :: "string \<Rightarrow> nat" where
  "int_len s = (case s of [] \<Rightarrow> 0 | c # _ \<Rightarrow> if c = CHR ''0'' then 1 else digits s)"

definition frac_len :: "string \<Rightarrow> nat" where
  "frac_len s =
     (case s of [] \<Rightarrow> 0 | c # cs \<Rightarrow> if c = CHR ''.'' \<and> 0 < digits cs then Suc (digits cs) else 0)"

definition exp_len :: "string \<Rightarrow> nat" where
  "exp_len s =
     (case s of [] \<Rightarrow> 0
      | c # cs \<Rightarrow>
          (let k = sign_len {CHR ''-'', CHR ''+''} cs; m = digits (drop k cs) in
           if c \<in> {CHR ''e'', CHR ''E''} \<and> 0 < m then Suc (k + m) else 0))"

definition number_len :: "string \<Rightarrow> (nat \<times> nat) option" where
  "number_len s =
     (let a = sign_len {CHR ''-''} s; b = int_len (drop a s) in
      if b = 0 then None
      else
        (let c = frac_len (drop (a + b) s); d = exp_len (drop (a + b + c) s) in
         Some (a + b, c + d)))"

text \<open>\<open>js_float\<close> gives \<open>repr(float(s))\<close> of a numeral; \<open>js_depth\<close> is the recursion limit.\<close>

record json_env =
  js_float :: "string \<Rightarrow> string"
  js_depth :: nat

definition INT_MAX_STR_DIGITS :: nat where
  "INT_MAX_STR_DIGITS = 4300"

definition json_int :: "string \<Rightarrow> pyval pyres" where
  "json_int t =
     (let k = sign_len {CHR ''-''} t; ds = drop k t in
      if INT_MAX_STR_DIGITS < length ds
      then Inl (PyExc ValueError ''Exceeds the limit (4300 digits) for integer string conversion'')
      else Inr (PInt (if k = 0 then int (decimal ds) else - int (decimal ds))))"

definition scan_number :: "json_env \<Rightarrow> string \<Rightarrow> (pyval \<times> nat) pyres" where
  "scan_number js s =
     (case number_len s of
        None \<Rightarrow> json_error ''Expecting value''
      | Some (i, 0) \<Rightarrow> rmap (\<lambda>v. (v, i)) (json_int (take i s))
      | Some (i, f) \<Rightarrow> Inr (PFloat (js_float js (take (i + f) s)), i + f))"

subsection \<open>Arrays and objects\<close>

lemma drop_Cons_shorter: "drop w s = c # cs \<Longrightarrow> length cs < length s"
  by (metis diff_le_self length_Cons length_drop less_eq_Suc_le)

text \<open>
  One or more items with commas between them, up to and with the closing bracket; \<open>p\<close> scans one
  item.
\<close>

function scan_items :: "char \<Rightarrow> (string \<Rightarrow> ('a \<times> nat) pyres) \<Rightarrow> string \<Rightarrow> ('a list \<times> nat) pyres" where
  "scan_items close p s =
     (case p s of
        Inl e \<Rightarrow> Inl e
      | Inr (x, n) \<Rightarrow>
          (let w = n + ws_len (drop n s) in
           case drop w s of
             [] \<Rightarrow> json_error '',' delimiter''
           | c # cs \<Rightarrow>
               if c = close then Inr ([x], Suc w)
               else if c = CHR '','' then
                 rmap (\<lambda>(xs, m). (x # xs, Suc (w + ws_len cs + m)))
                   (scan_items close p (drop (ws_len cs) cs))
               else json_error '',' delimiter''))"
  by pat_completeness auto
termination
by (relation "measure (\<lambda>(_, _, s). length s)") (auto dest!: drop_Cons_shorter)

declare scan_items.simps [simp del]

definition scan_list :: "char \<Rightarrow> (string \<Rightarrow> ('a \<times> nat) pyres) \<Rightarrow> string \<Rightarrow> ('a list \<times> nat) pyres" where
  "scan_list close p s =
     (let w = ws_len s in
      if take 1 (drop w s) = [close] then Inr ([], Suc w)
      else rmap (\<lambda>(xs, m). (xs, w + m)) (scan_items close p (drop w s)))"

definition scan_pair ::
  "(string \<Rightarrow> (pyval \<times> nat) pyres) \<Rightarrow> string \<Rightarrow> ((string \<times> pyval) \<times> nat) pyres" where
  "scan_pair p s =
     (case s of
        [] \<Rightarrow> json_error ''Expecting property name enclosed in double quotes''
      | c # cs \<Rightarrow>
          if code c \<noteq> 34 then json_error ''Expecting property name enclosed in double quotes''
          else
            rbind (scan_string cs) (\<lambda>(k, n).
            let w = Suc (n + ws_len (drop n cs)) in
            if take 1 (drop w s) \<noteq> '':'' then json_error ''Expecting ':' delimiter''
            else
              (let v = Suc (w + ws_len (drop (Suc w) s)) in
               rmap (\<lambda>(x, m). ((k, x), v + m)) (p (drop v s)))))"

definition dict_of :: "(string \<times> pyval) list \<Rightarrow> (string \<times> pyval) list" where
  "dict_of kvs = fold (\<lambda>(k, v). upsert k v) kvs []"

subsection \<open>Values\<close>

text \<open>One value, with a scanner for the values inside it unless the recursion limit is reached.\<close>

definition recursion_error :: pyexc where
  "recursion_error = PyExc (OtherException ''RecursionError'') ''maximum recursion depth exceeded''"

definition scan_value ::
  "json_env \<Rightarrow> (string \<Rightarrow> (pyval \<times> nat) pyres) option \<Rightarrow> string \<Rightarrow> (pyval \<times> nat) pyres" where
  "scan_value js inner s =
     (case s of
        [] \<Rightarrow> json_error ''Expecting value''
      | c # cs \<Rightarrow>
          if code c = 34 then rmap (\<lambda>(t, n). (PStr t, Suc n)) (scan_string cs)
          else if c = CHR ''{'' then
            (case inner of
               None \<Rightarrow> Inl recursion_error
             | Some p \<Rightarrow> rmap (\<lambda>(kvs, n). (PDict (dict_of kvs), Suc n)) (scan_list CHR ''}'' (scan_pair p) cs))
          else if c = CHR ''['' then
            (case inner of
               None \<Rightarrow> Inl recursion_error
             | Some p \<Rightarrow> rmap (\<lambda>(xs, n). (PList xs, Suc n)) (scan_list CHR '']'' p cs))
          else if py_startswith s ''null'' then Inr (PNone, 4)
          else if py_startswith s ''true'' then Inr (PBool True, 4)
          else if py_startswith s ''false'' then Inr (PBool False, 5)
          else if py_startswith s ''NaN'' then Inr (PFloat ''nan'', 3)
          else if py_startswith s ''Infinity'' then Inr (PFloat ''inf'', 8)
          else if py_startswith s ''-Infinity'' then Inr (PFloat ''-inf'', 9)
          else scan_number js s)"

primrec scan_once :: "json_env \<Rightarrow> nat \<Rightarrow> string \<Rightarrow> (pyval \<times> nat) pyres" where
  "scan_once js 0 = scan_value js None"
| "scan_once js (Suc d) = scan_value js (Some (scan_once js d))"

section \<open>json.loads\<close>

definition BOM :: string where
  "BOM = utf8_encode 65279"

definition json_loads_str :: "json_env \<Rightarrow> string \<Rightarrow> pyval pyres" where
  "json_loads_str js s =
     (if py_startswith s BOM then json_error ''Unexpected UTF-8 BOM (decode using utf-8-sig)''
      else
        (let u = ws_len s in
         rbind (scan_once js (js_depth js) (drop u s)) (\<lambda>(v, n).
         if drop (ws_len (drop (u + n) s)) (drop (u + n) s) = [] then Inr v
         else json_error ''Extra data'')))"

text \<open>\<open>json.loads(raw.decode("utf-8"))\<close>\<close>

definition json_loads_utf8 :: "json_env \<Rightarrow> string \<Rightarrow> pyval pyres" where
  "json_loads_utf8 js raw = rbind (py_decode False raw) (json_loads_str js)"

subsection \<open>Request bodies\<close>

text \<open>\<open>json.loads(b)\<close> for bytes: the encoding is guessed from the first bytes.\<close>

datatype encoding = Utf8 | Utf8_sig | Utf16 bool | Utf32 bool

text \<open>The width of a unit, and whether the first byte is the highest one.\<close>

definition bytes_start :: "byte list \<Rightarrow> nat list \<Rightarrow> bool" where
  "bytes_start b p \<longleftrightarrow> map unat (take (length p) b) = p"

definition detect_encoding :: "byte list \<Rightarrow> encoding \<times> byte list" where
  "detect_encoding b =
     (if bytes_start b [0, 0, 254, 255] then (Utf32 True, drop 4 b)
      else if bytes_start b [255, 254, 0, 0] then (Utf32 False, drop 4 b)
      else if bytes_start b [254, 255] then (Utf16 True, drop 2 b)
      else if bytes_start b [255, 254] then (Utf16 False, drop 2 b)
      else if bytes_start b [239, 187, 191] then (Utf8_sig, drop 3 b)
      else
        (case b of
           x # y # z # w # _ \<Rightarrow>
             if x = 0 then (if y \<noteq> 0 then Utf16 True else Utf32 True, b)
             else if y = 0 then (if z \<noteq> 0 \<or> w \<noteq> 0 then Utf16 False else Utf32 False, b)
             else (Utf8, b)
         | [x, y] \<Rightarrow> if x = 0 then (Utf16 True, b) else if y = 0 then (Utf16 False, b) else (Utf8, b)
         | _ \<Rightarrow> (Utf8, b)))"

definition unit_val :: "bool \<Rightarrow> byte list \<Rightarrow> nat" where
  "unit_val big bs = foldl (\<lambda>a b. 256 * a + unat b) 0 (if big then bs else rev bs)"

fun code_units :: "nat \<Rightarrow> bool \<Rightarrow> byte list \<Rightarrow> nat list option" where
  "code_units w big [] = Some []"
| "code_units w big (b # bs) =
     (if length (b # bs) < w \<or> w = 0 then None
      else map_option ((#) (unit_val big (take w (b # bs)))) (code_units w big (drop (w - 1) bs)))"

fun join_surrogates :: "nat list \<Rightarrow> nat list" where
  "join_surrogates (h # l # us) =
     (if 55296 \<le> h \<and> h < 56320 \<and> 56320 \<le> l \<and> l < 57344
      then (65536 + (h - 55296) * 1024 + (l - 56320)) # join_surrogates us
      else h # join_surrogates (l # us))"
| "join_surrogates us = us"

definition chars_of_bytes :: "byte list \<Rightarrow> string" where
  "chars_of_bytes bs = map (\<lambda>b. char_of (unat b)) bs"

definition unicode_error :: "'a pyres" where
  "unicode_error = Inl (PyExc UnicodeDecodeError ''invalid data'')"

definition decode_bytes :: "encoding \<Rightarrow> byte list \<Rightarrow> string pyres" where
  "decode_bytes enc bs =
     (case enc of
        Utf16 big \<Rightarrow>
          (case code_units 2 big bs of
             None \<Rightarrow> unicode_error
           | Some us \<Rightarrow> Inr (concat (map utf8_encode (join_surrogates us))))
      | Utf32 big \<Rightarrow>
          (case code_units 4 big bs of
             None \<Rightarrow> unicode_error
           | Some us \<Rightarrow>
               if list_all (\<lambda>u. u < 1114112) us then Inr (concat (map utf8_encode us)) else unicode_error)
      | _ \<Rightarrow> py_decode True (chars_of_bytes bs))"

definition json_loads_bytes :: "json_env \<Rightarrow> byte list \<Rightarrow> pyval pyres" where
  "json_loads_bytes js b =
     (case detect_encoding b of (enc, bs) \<Rightarrow> rbind (decode_bytes enc bs) (json_loads_str js))"

section \<open>Errors\<close>

text \<open>What reading a text can raise: a \<open>ValueError\<close> or the end of the recursion.\<close>

definition reading_error :: "pyexc \<Rightarrow> bool" where
  "reading_error e \<longleftrightarrow> is_value_error e \<or> e = recursion_error"

lemma reading_errors [simp]:
  "raises reading_error (json_error msg)" "raises reading_error (json_int t)"
  "reading_error recursion_error" "reading_error (PyExc UnicodeDecodeError m)"
  by (simp_all add: reading_error_def json_error_def json_int_def is_value_error_def Let_def)

lemma raises_scan_string: "raises reading_error (scan_string s)"
proof (induction s rule: scan_string.induct)
  case (2 c cs)
  have "raises reading_error (scan_escape cs)"
    by (auto simp: scan_escape_def scan_unicode_def split: list.splits option.splits)
  with 2 show ?case by (cases "scan_escape cs") auto
qed simp

lemma raises_scan_items: "(\<And>t. raises reading_error (p t)) \<Longrightarrow> raises reading_error (scan_items close p s)"
proof (induction close p s rule: scan_items.induct)
  case (1 close p s)
  show ?case
  proof (cases "p s")
    case (Inl e)
    with 1(2) [of s] show ?thesis by (simp add: scan_items.simps [of close p s])
  next
    case (Inr xn)
    obtain x n where xn: "xn = (x, n)" by (cases xn)
    show ?thesis
      using 1(1) [OF Inr xn [symmetric] refl] 1(2) Inr
      by (auto simp: scan_items.simps [of close p s] xn Let_def split: list.splits)
  qed
qed

lemma raises_scan_list: "(\<And>t. raises reading_error (p t)) \<Longrightarrow> raises reading_error (scan_list close p s)"
  using raises_scan_items [of p close] by (simp add: scan_list_def Let_def)

lemma raises_scan_pair: "(\<And>t. raises reading_error (p t)) \<Longrightarrow> raises reading_error (scan_pair p s)"
  using raises_scan_string
  by (auto simp: scan_pair_def Let_def split: list.splits intro!: raises_rbind)

lemma raises_scan_value:
  "(\<And>p t. inner = Some p \<Longrightarrow> raises reading_error (p t)) \<Longrightarrow> raises reading_error (scan_value js inner s)"
  using raises_scan_string
  by (auto simp: scan_value_def scan_number_def split: list.splits option.splits nat.splits
      intro!: raises_scan_list raises_scan_pair)

lemma raises_scan_once: "raises reading_error (scan_once js d s)"
  by (induction d arbitrary: s) (auto intro: raises_scan_value)

lemma raises_json_loads: "raises reading_error (json_loads_str js s)" "raises reading_error (json_loads_utf8 js s)"
proof -
  show str: "raises reading_error (json_loads_str js s)" for s
    using raises_scan_once by (auto simp: json_loads_str_def Let_def intro!: raises_rbind)
  show "raises reading_error (json_loads_utf8 js s)"
    using str by (auto simp: json_loads_utf8_def py_decode_def intro!: raises_rbind)
qed

lemma scan_too_deep: "scan_once js d (replicate (Suc d) CHR ''['' @ s) = Inl recursion_error"
proof (induction d)
  case 0
  then show ?case by (simp add: scan_value_def code_def)
next
  case (Suc d)
  have "ws_len (CHR ''['' # t) = 0" for t by (simp add: ws_len_def json_ws_def code_def)
  then have "scan_list CHR '']'' (scan_once js d) (replicate (Suc d) CHR ''['' @ s) = Inl recursion_error"
    using Suc by (simp add: scan_list_def scan_items.simps)
  then show ?case by (simp add: scan_value_def code_def)
qed

end
