(* ===== verification/Json_Roundtrip.thy ===== *)
theory Json_Roundtrip
  imports Json_Loads
begin

text \<open>
  What \<open>json.dumps\<close> writes, \<open>json.loads\<close> reads back, for every layout the service writes
  (compact lines, indented manifests, sorted keys).  \<open>reads\<close> is the contract of a scanner on a
  text: whatever ends a value may follow.  It holds of every kind of value, by induction along the
  writer; \<open>json_norm\<close> is the value that comes back, where tuples are lists and an object is the text
  that stood for it.
\<close>

section \<open>Texts and what follows them\<close>

definition ends :: "string \<Rightarrow> bool" where
  "ends r \<longleftrightarrow> (case r of [] \<Rightarrow> True | c # _ \<Rightarrow> json_ws c \<or> c \<in> {CHR '','', CHR '']'', CHR ''}''})"

definition starts :: "string \<Rightarrow> bool" where
  "starts t \<longleftrightarrow> (case t of [] \<Rightarrow> False | c # _ \<Rightarrow> \<not> json_ws c \<and> c \<notin> {CHR '']'', CHR ''}''})"

definition reads :: "(string \<Rightarrow> ('a \<times> nat) pyres) \<Rightarrow> string \<Rightarrow> 'a \<Rightarrow> bool" where
  "reads p t x \<longleftrightarrow> starts t \<and> (\<forall>r. ends r \<longrightarrow> p (t @ r) = Inr (x, length t))"

lemma ends_simps [simp]:
  "ends []" "ends (CHR '','' # r)" "ends (CHR '']'' # r)" "ends (CHR ''}'' # r)"
  by (simp_all add: ends_def)

lemma ends_ws: "list_all json_ws w \<Longrightarrow> ends r \<Longrightarrow> ends (w @ r)"
  by (cases w) (simp_all add: ends_def)

lemma ws_len_append [simp]: "list_all json_ws w \<Longrightarrow> ws_len (w @ r) = length w + ws_len r"
  by (induction w) (auto simp: ws_len_def)

lemma ws_len_simps [simp]:
  "ws_len [] = 0" "ws_len (CHR '','' # r) = 0" "ws_len (CHR '']'' # r) = 0" "ws_len (CHR ''}'' # r) = 0"
  "ws_len (CHR '':'' # r) = 0"
  by (simp_all add: ws_len_def json_ws_def code_def)

lemma ws_len_starts: "starts t \<Longrightarrow> ws_len (t @ r) = 0"
  by (cases t) (simp_all add: starts_def ws_len_def)

section \<open>Items between brackets\<close>

lemma scan_items_join:
  assumes "list_all2 (reads p) parts xs" and "parts \<noteq> []"
    and "list_all json_ws w" and "list_all json_ws v" and "close \<in> {CHR '']'', CHR ''}''}"
  shows "scan_items close p (py_join (CHR '','' # w) parts @ v @ close # r) =
    Inr (xs, Suc (length (py_join (CHR '','' # w) parts) + length v))"
  using assms(1,2)
proof (induction parts xs rule: list_all2_induct)
  case (Cons t parts x xs)
  show ?case
  proof (cases parts)
    case Nil
    with Cons have xs: "xs = []" by simp
    have "ends (v @ close # r)" using assms(4,5) by (intro ends_ws) auto
    with Cons.hyps(1) have "p (t @ v @ close # r) = Inr (x, length t)" by (simp add: reads_def)
    moreover have "ws_len (v @ close # r) = length v" using assms(4,5) by auto
    ultimately show ?thesis using Nil xs by (subst scan_items.simps) (simp add: Let_def)
  next
    case (Cons u us)
    let ?rest = "py_join (CHR '','' # w) parts @ v @ close # r"
    have "p (t @ (CHR '','' # w) @ ?rest) = Inr (x, length t)"
      using Cons.hyps(1) by (simp add: reads_def)
    moreover have "starts u" using Cons.hyps(2) Cons by (auto simp: list_all2_Cons1 reads_def)
    then have "ws_len ?rest = 0" using Cons by (cases us) (simp_all add: ws_len_starts)
    moreover have "close \<noteq> CHR '',''" using assms(5) by auto
    moreover have "scan_items close p ?rest = Inr (xs, Suc (length (py_join (CHR '','' # w) parts) + length v))"
      using Cons.IH Cons by simp
    ultimately show ?thesis using Cons assms(3)
      by (subst scan_items.simps) (simp add: Let_def)
  qed
qed simp

section \<open>Numbers\<close>

lemma ends_no_digit: "ends r \<Longrightarrow> takeWhile is_digit r = []"
  by (cases r) (auto simp: ends_def json_ws_def is_digit_def code_def)

lemma digits_append [simp]: "ends r \<Longrightarrow> digits (s @ r) = digits s"
  by (induction s) (simp_all add: digits_def ends_no_digit)

lemma digits_ends [simp]: "ends r \<Longrightarrow> digits r = 0"
  by (simp add: digits_def ends_no_digit)

lemma digits_le: "digits s \<le> length s"
  by (simp add: digits_def length_takeWhile_le)

lemma sign_len_append: "ends r \<Longrightarrow> cs \<subseteq> {CHR ''-'', CHR ''+''} \<Longrightarrow> sign_len cs (s @ r) = sign_len cs s"
  by (cases s; cases r) (auto simp: sign_len_def ends_def json_ws_def code_def)

lemma sign_len_le: "sign_len cs s \<le> length s"
  by (cases s) (simp_all add: sign_len_def)

lemma int_len_append [simp]: "ends r \<Longrightarrow> int_len (s @ r) = int_len s"
proof (cases s)
  case Nil
  assume "ends r"
  with Nil show ?thesis
    by (cases r) (auto simp: int_len_def ends_def json_ws_def digits_def is_digit_def code_def)
next
  case (Cons c cs)
  assume "ends r"
  with Cons show ?thesis using digits_append [of r "c # cs"] by (simp add: int_len_def)
qed

lemma int_len_le: "int_len s \<le> length s"
  using digits_le [of s] by (cases s) (auto simp: int_len_def)

lemma frac_len_append: "ends r \<Longrightarrow> frac_len (s @ r) = frac_len s"
  by (cases s; cases r) (auto simp: frac_len_def ends_def json_ws_def code_def)

lemma frac_len_le: "frac_len s \<le> length s"
  by (cases s) (auto simp: frac_len_def digits_le)

lemma exp_len_append: "ends r \<Longrightarrow> exp_len (s @ r) = exp_len s"
proof (cases s)
  case Nil
  assume "ends r"
  with Nil show ?thesis by (cases r) (auto simp: exp_len_def ends_def json_ws_def Let_def code_def)
next
  case (Cons c cs)
  assume "ends r"
  with Cons sign_len_le [of "{CHR ''-'', CHR ''+''}" cs] show ?thesis
    by (simp add: exp_len_def sign_len_append Let_def)
qed

lemma number_len_append: 
  assumes "ends r"
  shows "number_len (s @ r) = number_len s"
proof -
  let ?a = "sign_len {CHR ''-''} s"
  have a: "sign_len {CHR ''-''} (s @ r) = ?a" "?a \<le> length s"
    using assms by (simp_all add: sign_len_append sign_len_le)
  let ?b = "int_len (drop ?a s)"
  have b: "?a + ?b \<le> length s" using int_len_le [of "drop ?a s"] a(2) by simp
  let ?c = "frac_len (drop (?a + ?b) s)"
  have c: "?a + ?b + ?c \<le> length s" using frac_len_le [of "drop (?a + ?b) s"] b by simp
  show ?thesis
    using assms a b c by (simp add: number_len_def Let_def frac_len_append exp_len_append)
qed

text \<open>The text of an integer.\<close>

lemma py_str_nat_digit: "list_all is_digit (py_str_nat n)"
  by (auto simp: list_all_iff is_digit_def dest!: py_str_nat_digits)

lemma nat_digits_hd: "nat_digits n \<noteq> [] \<and> (hd (nat_digits n) = 0 \<longrightarrow> n = 0)"
proof (induction n rule: nat_digits.induct)
  case (1 n)
  then show ?case by (subst (1 2) nat_digits.simps) auto
qed

lemma nat_digits_0: "nat_digits 0 = [0]"
  by (simp add: nat_digits.simps)

lemma py_str_nat_shape:
  obtains c cs where "py_str_nat n = c # cs" "is_digit c" "c = CHR ''0'' \<longrightarrow> cs = []"
proof -
  obtain d ds where ds: "nat_digits n = d # ds" using nat_digits_hd by (cases "nat_digits n") auto
  then have d: "d < 10" using nat_digits_lt [of d n] by simp
  have "d = 0 \<longrightarrow> ds = []"
    using nat_digits_hd [of n] ds nat_digits_0 by auto
  moreover have "digit_char d = CHR ''0'' \<longleftrightarrow> d = 0"
  proof -
    have "digit_char d = CHR ''0'' \<longleftrightarrow> code (digit_char d) = code (CHR ''0'')" by (metis code_inj)
    then show ?thesis by (simp add: code_digit_char [OF d] code_def [of "CHR ''0''"])
  qed
  ultimately show thesis
    using that [of "digit_char d" "map digit_char ds"] ds py_str_nat_digit [of n]
    by (simp add: py_str_nat_def)
qed

lemma int_len_py_str_nat: "int_len (py_str_nat n) = length (py_str_nat n)"
proof -
  obtain c cs where s: "py_str_nat n = c # cs" "is_digit c" "c = CHR ''0'' \<longrightarrow> cs = []"
    by (rule py_str_nat_shape)
  have "digits (py_str_nat n) = length (py_str_nat n)"
    using py_str_nat_digit [of n] by (simp add: digits_def takeWhile_eq_all_conv [THEN iffD2] list_all_iff)
  with s show ?thesis by (simp add: int_len_def)
qed

lemma py_str_nat_no_sign: "sign_len {CHR ''-''} (py_str_nat n) = 0"
proof -
  obtain c cs where s: "py_str_nat n = c # cs" "is_digit c"
    by (rule py_str_nat_shape)
  then show ?thesis by (auto simp: sign_len_def is_digit_def code_def)
qed

lemma number_len_py_str_int: "number_len (py_str_int i) = Some (length (py_str_int i), 0)"
proof -
  have nonempty: "py_str_nat n \<noteq> []" for n
    using py_str_nat_shape [of n] by fastforce
  show ?thesis
    by (simp add: number_len_def py_str_int_def Let_def py_str_nat_no_sign int_len_py_str_nat nonempty
        sign_len_def [of _ "_ # _"] frac_len_def exp_len_def)
qed

lemma decimal_py_str_nat: "decimal (py_str_nat n) = n"
proof -
  have "map digit_val (py_str_nat n) = nat_digits n"
    unfolding py_str_nat_def map_map
    by (rule map_idI) (simp add: digit_val_def code_digit_char nat_digits_lt)
  then show ?thesis by (simp add: decimal_def digits_val_nat_digits)
qed

definition int_readable :: "int \<Rightarrow> bool" where
  "int_readable i \<longleftrightarrow> length (py_str_nat (nat \<bar>i\<bar>)) \<le> INT_MAX_STR_DIGITS"

lemma json_int_py_str_int: "int_readable i \<Longrightarrow> json_int (py_str_int i) = Inr (PInt i)"
  by (auto simp: json_int_def py_str_int_def int_readable_def Let_def py_str_nat_no_sign
      decimal_py_str_nat sign_len_def [of _ "_ # _"])

text \<open>The text of a float: what \<open>repr\<close> gives of one.\<close>

definition float_readable :: "json_env \<Rightarrow> string \<Rightarrow> bool" where
  "float_readable js r \<longleftrightarrow>
     r \<in> {''nan'', ''inf'', ''-inf''} \<or>
     (js_float js r = r \<and> printable r \<and> (case number_len r of None \<Rightarrow> False | Some (i, f) \<Rightarrow> 0 < f \<and> i + f = length r))"

lemma float_readable_scan:
  assumes "float_readable js r" and "r \<notin> {''nan'', ''inf'', ''-inf''}" and "ends u"
  shows "scan_number js (r @ u) = Inr (PFloat r, length r)"
proof -
  from assms obtain i f where f: "number_len r = Some (i, f)" "0 < f" "i + f = length r" "js_float js r = r"
    by (auto simp: float_readable_def split: option.splits)
  then obtain k where "f = Suc k" by (cases f) auto
  with f assms(3) show ?thesis by (simp add: scan_number_def number_len_append)
qed

lemma number_starts:
  assumes "number_len r = Some (i, f)"
  obtains c cs where "r = c # cs" "is_digit c"
    | c cs where "r = CHR ''-'' # c # cs" "is_digit c"
proof -
  let ?a = "sign_len {CHR ''-''} r"
  have "int_len (drop ?a r) \<noteq> 0" using assms by (auto simp: number_len_def Let_def split: if_splits)
  then obtain c cs where d: "drop ?a r = c # cs" "is_digit c"
    by (cases "drop ?a r") (auto simp: int_len_def digits_def is_digit_def code_def split: if_splits)
  show thesis
    using d that by (cases r) (auto simp: sign_len_def split: if_splits)
qed

section \<open>Strings\<close>

lemma hex4_hex4_val: "n < 65536 \<Longrightarrow> hex4_val (hex4 n) = Some n"
proof -
  assume n: "n < 65536"
  then have "n div 256 < 256" by (simp add: less_mult_imp_div_less)
  moreover have "n = ((n div 256 div 16 * 16 + n div 256 mod 16) * 16 + n mod 256 div 16) * 16 + n mod 256 mod 16"
    by (simp add: div_mult_mod_eq)
  ultimately show ?thesis
    by (simp add: hex4_val_def hex4_def hex2_def hex_val_digit less_mult_imp_div_less)
qed

lemma length_hex4 [simp]: "length (hex4 n) = 4"
  by (simp add: hex4_def hex2_def)

lemma BS_code [simp]: "code BS = 92"
  by (simp add: BS_def)

lemma scan_unicode_bmp:
  assumes "n < 65536" and "\<not> is_surrogate n"
  shows "scan_unicode (hex4 n @ s) = Inr (utf8_encode n, 4)"
  using assms by (auto simp: scan_unicode_def hex4_hex4_val is_surrogate_def)

lemma scan_unicode_pair:
  assumes "65536 \<le> n" and "n < 1114112"
  shows "scan_unicode (hex4 (55296 + (n - 65536) div 1024) @ u_escape (56320 + (n - 65536) mod 1024) @ s)
    = Inr (utf8_encode n, 10)"
proof -
  have "(n - 65536) div 1024 < 1024" using assms by (simp add: less_mult_imp_div_less)
  moreover have "(n - 65536) mod 1024 < 1024" by simp
  moreover have "65536 + (n - 65536) div 1024 * 1024 + (n - 65536) mod 1024 = n"
    using assms(1) by (simp add: add.assoc)
  ultimately show ?thesis
    by (simp add: scan_unicode_def hex4_hex4_val u_escape_def BS_def)
qed

lemma scan_string_escape:
  "scan_escape cs = Inr (t, n) \<Longrightarrow>
   scan_string (BS # cs) = rmap (\<lambda>(u, m). (t @ u, Suc (n + m))) (scan_string (drop n cs))"
  by simp

lemma scan_escape_simple:
  "simple_escape e = Some d \<Longrightarrow> e \<noteq> CHR ''u'' \<Longrightarrow> scan_escape (e # s) = Inr ([d], 1)"
  by (simp add: scan_escape_def)

lemma simple_escapes:
  "simple_escape (char_of (34::nat)) = Some (char_of (34::nat))"
  "simple_escape (char_of (92::nat)) = Some (char_of (92::nat))"
  "simple_escape CHR ''n'' = Some (char_of (10::nat))" "simple_escape CHR ''r'' = Some (char_of (13::nat))"
  "simple_escape CHR ''t'' = Some (char_of (9::nat))" "simple_escape CHR ''b'' = Some (char_of (8::nat))"
  "simple_escape CHR ''f'' = Some (char_of (12::nat))"
  by (simp_all add: simple_escape_def code_def)

lemma char_of_eq: "n < 256 \<Longrightarrow> char_of (n::nat) = c \<longleftrightarrow> code c = n"
  by (metis code_char_of code_inj)

lemma char_of_not_u: "n \<noteq> 117 \<Longrightarrow> n < 256 \<Longrightarrow> char_of (n::nat) \<noteq> CHR ''u''"
  by (simp add: char_of_eq code_def)

lemma starts_quote: "starts (char_of (34::nat) # r)"
  by (simp add: starts_def json_ws_def char_of_eq) (simp add: code_def)

lemma json_char_simple:
  assumes "code_point ch \<in> {34, 92, 10, 13, 9, 8, 12}"
  obtains e where "json_char ch = [BS, e]" "simple_escape e = Some (char_of (code_point ch))"
    "e \<noteq> CHR ''u''"
proof -
  from assms consider "code_point ch = 34" | "code_point ch = 92" | "code_point ch = 10"
    | "code_point ch = 13" | "code_point ch = 9" | "code_point ch = 8" | "code_point ch = 12" by auto
  then show thesis
  proof cases
    case 1
    then show thesis
      by (intro that [of "char_of (34::nat)"]) (simp_all add: json_char_def BS_def simple_escapes char_of_not_u)
  next
    case 2
    then show thesis
      by (intro that [of "char_of (92::nat)"]) (simp_all add: json_char_def BS_def simple_escapes char_of_not_u)
  next
    case 3
    then show thesis
      by (intro that [of "CHR ''n''"]) (simp_all add: json_char_def BS_def simple_escapes char_of_not_u)
  next
    case 4
    then show thesis
      by (intro that [of "CHR ''r''"]) (simp_all add: json_char_def BS_def simple_escapes char_of_not_u)
  next
    case 5
    then show thesis
      by (intro that [of "CHR ''t''"]) (simp_all add: json_char_def BS_def simple_escapes char_of_not_u)
  next
    case 6
    then show thesis
      by (intro that [of "CHR ''b''"]) (simp_all add: json_char_def BS_def simple_escapes char_of_not_u)
  next
    case 7
    then show thesis
      by (intro that [of "CHR ''f''"]) (simp_all add: json_char_def BS_def simple_escapes char_of_not_u)
  qed
qed

text \<open>One character of the text and its escape.\<close>

lemma scan_string_json_char:
  assumes "utf8_char False ch"
  shows "scan_string (json_char ch @ s) =
    rmap (\<lambda>(u, m). (ch @ u, length (json_char ch) + m)) (scan_string s)"
proof -
  let ?n = "code_point ch"
  have ch: "?n < 1114112" "ch = utf8_encode ?n" "\<not> is_surrogate ?n"
    using assms by (auto simp: utf8_char_def Let_def)
  have low: "ch = [char_of ?n]" if "?n < 128" using ch(2) that by (simp add: utf8_encode_def)
  consider "?n \<in> {34, 92, 10, 13, 9, 8, 12}" | "32 \<le> ?n" "?n < 127" "?n \<notin> {34, 92}"
    | "?n < 65536" "\<not> (32 \<le> ?n \<and> ?n < 127)" "?n \<notin> {8, 9, 10, 12, 13}"
    | "65536 \<le> ?n" by fastforce
  then show ?thesis
  proof cases
    case 1
    then obtain e where e: "json_char ch = [BS, e]" "simple_escape e = Some (char_of ?n)" "e \<noteq> CHR ''u''"
      by (rule json_char_simple)
    with 1 low scan_string_escape [OF scan_escape_simple [OF e(2,3)]] show ?thesis by auto
  next
    case 2
    define c where "c = char_of ?n"
    with 2 low have c: "ch = [c]" "code c = ?n" by simp_all
    from 2 have "json_char ch = [c]" by (auto simp: json_char_def c_def)
    with 2 c show ?thesis by simp
  next
    case 3
    then have "json_char ch = BS # CHR ''u'' # hex4 ?n"
      using ch(3) by (auto simp: json_char_def u_escape_def BS_def)
    moreover have "scan_escape (CHR ''u'' # hex4 ?n @ s) = Inr (ch, 5)"
      using 3 ch scan_unicode_bmp [of ?n s] by (simp add: scan_escape_def)
    ultimately show ?thesis by (simp add: scan_string_escape)
  next
    case 4
    let ?h = "55296 + (?n - 65536) div 1024" and ?l = "56320 + (?n - 65536) mod 1024"
    have "json_char ch = BS # CHR ''u'' # hex4 ?h @ u_escape ?l"
      using 4 by (simp add: json_char_def u_escape_def BS_def Let_def)
    moreover have "scan_escape (CHR ''u'' # hex4 ?h @ u_escape ?l @ s) = Inr (ch, 11)"
      using 4 ch scan_unicode_pair [of ?n s] by (simp add: scan_escape_def)
    ultimately show ?thesis by (simp add: scan_string_escape u_escape_def)
  qed
qed

lemma scan_string_json_chars:
  "list_all (utf8_char False) chs \<Longrightarrow>
   scan_string (concat (map json_char chs) @ char_of (34::nat) # r) =
     Inr (concat chs, Suc (length (concat (map json_char chs))))"
  by (induction chs) (simp_all add: scan_string_json_char)

lemma scan_string_json_str:
  assumes "utf8 False s"
  obtains q where "json_str s = char_of (34::nat) # q" "\<And>r. scan_string (q @ r) = Inr (s, length q)"
  using scan_string_json_chars [of "py_chars s"] assms that
    [of "concat (map json_char (py_chars s)) @ [char_of (34::nat)]"]
  by (simp add: json_str_def utf8_def)

section \<open>Values\<close>

fun json_norm :: "json_opts \<Rightarrow> pyval \<Rightarrow> pyval" where
  "json_norm opts (PList xs) = PList (map (json_norm opts) xs)"
| "json_norm opts (PTuple xs) = PList (map (json_norm opts) xs)"
| "json_norm opts (PDict kvs) = PDict (map (\<lambda>(k, v). (k, json_norm opts v)) (sort_items opts kvs))"
| "json_norm opts (PObj s d) = PStr s"
| "json_norm opts v = v"

text \<open>
  The values that come back: well-formed text, different keys, floats as \<open>repr\<close> writes them, and
  no more nesting or digits than the interpreter reads.
\<close>

fun readable :: "json_env \<Rightarrow> nat \<Rightarrow> pyval \<Rightarrow> bool" where
  "readable js d (PInt i) = int_readable i"
| "readable js d (PFloat r) = float_readable js r"
| "readable js d (PStr s) = utf8 False s"
| "readable js d (PObj s _) = utf8 False s"
| "readable js d (PList xs) = (0 < d \<and> list_all (readable js (d - 1)) xs)"
| "readable js d (PTuple xs) = (0 < d \<and> list_all (readable js (d - 1)) xs)"
| "readable js d (PDict kvs) =
     (0 < d \<and> distinct (map fst kvs) \<and>
      list_all (\<lambda>kv. utf8 False (fst kv) \<and> readable js (d - 1) (snd kv)) kvs)"
| "readable js d v = True"

definition layout :: "json_opts \<Rightarrow> bool" where
  "layout opts \<longleftrightarrow>
     take 1 (item_sep opts) = '','' \<and> list_all json_ws (tl (item_sep opts)) \<and>
     take 1 (key_sep opts) = '':'' \<and> list_all json_ws (tl (key_sep opts))"

lemma layout_compact: "layout json_compact" "layout (json_indented b)"
  by (simp_all add: layout_def json_compact_def json_indented_def json_ws_def code_def)

lemma take1: "take (Suc 0) s = [c] \<longleftrightarrow> s = c # tl s"
  by (cases s) auto

lemma rmapM_all2: "rmapM f xs = Inr ys \<Longrightarrow> list_all2 (\<lambda>x y. f x = Inr y) xs ys"
  by (induction xs arbitrary: ys) (auto simp: rbind_eq_Inr rmap_eq_Inr)

lemma starts_take1: "starts s \<Longrightarrow> close \<in> {CHR '']'', CHR ''}''} \<Longrightarrow> take (Suc 0) s \<noteq> [close]"
  by (cases s) (auto simp: starts_def)

text \<open>The scanner on a bracketed list, in one line or indented.\<close>

lemma scan_list_brackets:
  assumes "list_all2 (reads p) parts xs" and "layout opts" and "close \<in> {CHR '']'', CHR ''}''}"
  shows "scan_list close p (tl (json_brackets opts lvl l close parts) @ r) =
    Inr (xs, length (tl (json_brackets opts lvl l close parts)))"
proof (cases "parts = []")
  case True
  with assms(1,3) show ?thesis by (auto simp: json_brackets_def scan_list_def Let_def)
next
  case False
  let ?nl = "\<lambda>k. case indent opts of None \<Rightarrow> [] | Some w \<Rightarrow> char_of (10::nat) # replicate (w * k) CHR '' ''"
  let ?sep = "item_sep opts @ ?nl (Suc lvl)"
  have ws: "list_all json_ws (?nl k)" for k
    by (auto simp: json_ws_def list_all_iff code_def split: option.splits)
  have body: "tl (json_brackets opts lvl l close parts) = ?nl (Suc lvl) @ py_join ?sep parts @ ?nl lvl @ [close]"
    using False by (simp add: json_brackets_def Let_def split: option.splits)
  have "item_sep opts = CHR '','' # tl (item_sep opts)" using assms(2) by (simp add: layout_def flip: take1)
  then have sep: "?sep = CHR '','' # (tl (item_sep opts) @ ?nl (Suc lvl))"
    by (metis append_Cons)
  have items: "scan_items close p (py_join ?sep parts @ ?nl lvl @ close # r) =
      Inr (xs, Suc (length (py_join ?sep parts) + length (?nl lvl)))"
    unfolding sep using assms(2) ws by (intro scan_items_join assms(1,3) False) (auto simp: layout_def)
  obtain t ts x where "parts = t # ts" "reads p t x" using assms(1) False by (cases parts) (auto simp: list_all2_Cons1)
  then have st: "starts (py_join ?sep parts @ u)" for u
    by (cases ts; cases t) (auto simp: reads_def starts_def)
  let ?body = "py_join ?sep parts @ ?nl lvl @ close # r"
  have "ws_len (?nl (Suc lvl) @ ?body) = length (?nl (Suc lvl))"
    using ws_len_append [OF ws, of "Suc lvl" ?body] ws_len_starts [OF st [of "?nl lvl @ close # r"], of "[]"]
    by simp
  moreover have "take 1 ?body \<noteq> [close]"
    using starts_take1 [OF st [of "?nl lvl @ close # r"] assms(3)] by simp
  ultimately show ?thesis
    using items by (simp add: body scan_list_def Let_def)
qed

lemma scan_pair_reads:
  assumes "utf8 False k" and "layout opts" and "reads p u x"
  shows "reads (scan_pair p) (json_str k @ key_sep opts @ u) (k, x)"
proof -
  obtain q where k: "json_str k = char_of (34::nat) # q" "\<And>r. scan_string (q @ r) = Inr (k, length q)"
    by (rule scan_string_json_str [OF assms(1)]) blast
  obtain w where key: "key_sep opts = CHR '':'' # w" "list_all json_ws w"
    using assms(2) by (auto simp: layout_def dest: take1 [THEN iffD1])
  have "scan_pair p ((json_str k @ key_sep opts @ u) @ r) = Inr ((k, x), length (json_str k @ key_sep opts @ u))"
    if "ends r" for r
  proof -
    have "p (u @ r) = Inr (x, length u)" "starts u" using assms(3) that by (auto simp: reads_def)
    then show ?thesis
      using k(2) [of "CHR '':'' # w @ u @ r"] key(2)
      by (simp add: k(1) key(1) scan_pair_def Let_def ws_len_starts)
  qed
  moreover have "starts (json_str k @ key_sep opts @ u)"
    by (simp add: k starts_quote)
  ultimately show ?thesis by (simp add: reads_def)
qed

lemma fold_upsert_distinct:
  "distinct (map fst (acc @ kvs)) \<Longrightarrow> fold (\<lambda>(k, v). upsert k v) kvs acc = acc @ kvs"
proof (induction kvs arbitrary: acc)
  case (Cons kv kvs)
  obtain k v where kv: "kv = (k, v)" by (cases kv)
  have "upsert k v acc = acc @ [(k, v)]" if "k \<notin> fst ` set acc" for acc :: "(string \<times> 'a) list"
    using that by (induction acc) auto
  with Cons.prems kv have "upsert k v acc = acc @ [kv]" by auto
  with Cons.IH [of "acc @ [kv]"] Cons.prems kv show ?case by simp
qed simp

lemma dict_of_distinct: "distinct (map fst kvs) \<Longrightarrow> dict_of kvs = kvs"
  using fold_upsert_distinct [of "[]" kvs] by (simp add: dict_of_def)

lemma distinct_sort_items: "distinct (map fst kvs) \<Longrightarrow> distinct (map fst (sort_items opts kvs))"
  by (simp add: sort_items_def distinct_map)

text \<open>A value of each kind at the start of a text.\<close>

lemmas scan_value_simps = scan_value_def py_startswith_def starts_def json_ws_def code_def

lemma digit_not:
  "is_digit c \<Longrightarrow> c \<notin> {CHR ''{'', CHR ''['', CHR '']'', CHR ''}'', CHR ''n'', CHR ''t'', CHR ''f'', CHR ''N'',
     CHR ''I'', CHR ''-''} \<and> code c \<notin> {34, 32, 9, 10, 13}"
  by (auto simp: is_digit_def code_def)

lemma scan_value_number:
  assumes "number_len r = Some (i, f)"
  shows "starts r \<and> scan_value js inner (r @ u) = scan_number js (r @ u)"
  using assms
proof (rule number_starts)
  fix c cs assume "r = c # cs" and "is_digit c"
  with digit_not [of c] show ?thesis by (simp add: scan_value_def py_startswith_def starts_def json_ws_def)
next
  fix c cs assume "r = CHR ''-'' # c # cs" and "is_digit c"
  with digit_not [of c] show ?thesis by (simp add: scan_value_simps)
qed

lemma reads_float:
  assumes "float_readable js r"
  shows "reads (scan_value js inner) (json_float r) (PFloat r)"
proof (cases "r \<in> {''nan'', ''inf'', ''-inf''}")
  case True
  then show ?thesis by (auto simp: reads_def json_float_def scan_value_simps)
next
  case False
  with assms obtain i f where "number_len r = Some (i, f)" by (auto simp: float_readable_def split: option.splits)
  with False assms show ?thesis
    by (auto simp: reads_def json_float_def scan_value_number float_readable_scan)
qed

lemma reads_int: "int_readable i \<Longrightarrow> reads (scan_value js inner) (py_str_int i) (PInt i)"
  by (simp add: reads_def scan_value_number [OF number_len_py_str_int] scan_number_def
      number_len_append number_len_py_str_int json_int_py_str_int)

lemma reads_str:
  assumes "utf8 False s"
  shows "reads (scan_value js inner) (json_str s) (PStr s)"
proof -
  obtain q where "json_str s = char_of (34::nat) # q" "\<And>r. scan_string (q @ r) = Inr (s, length q)"
    by (rule scan_string_json_str [OF assms]) blast
  then show ?thesis by (simp add: reads_def scan_value_def starts_quote)
qed

lemma reads_const:
  "reads (scan_value js inner) ''null'' PNone"
  "reads (scan_value js inner) ''true'' (PBool True)" "reads (scan_value js inner) ''false'' (PBool False)"
  by (auto simp: reads_def scan_value_simps)

lemma json_brackets_hd: "json_brackets opts lvl l close parts = l # tl (json_brackets opts lvl l close parts)"
  by (simp add: json_brackets_def Let_def split: option.splits)

lemma reads_list:
  assumes "list_all2 (reads p) parts xs" and "layout opts"
  shows "reads (scan_value js (Some p)) (json_brackets opts lvl CHR ''['' CHR '']'' parts) (PList xs)"
proof -
  let ?b = "json_brackets opts lvl CHR ''['' CHR '']'' parts"
  have "scan_value js (Some p) (?b @ r) = Inr (PList xs, length ?b)" for r
    using scan_list_brackets [OF assms, of "CHR '']''" lvl "CHR ''[''" r]
    by (subst (1 2) json_brackets_hd) (simp add: scan_value_def code_def)
  moreover have "starts ?b" by (subst json_brackets_hd) (simp add: starts_def json_ws_def code_def)
  ultimately show ?thesis by (simp add: reads_def)
qed

lemma reads_dict:
  assumes "list_all2 (reads (scan_pair p)) parts kvs" and "layout opts" and "distinct (map fst kvs)"
  shows "reads (scan_value js (Some p)) (json_brackets opts lvl CHR ''{'' CHR ''}'' parts) (PDict kvs)"
proof -
  let ?b = "json_brackets opts lvl CHR ''{'' CHR ''}'' parts"
  have "scan_value js (Some p) (?b @ r) = Inr (PDict kvs, length ?b)" for r
    using scan_list_brackets [OF assms(1,2), of "CHR ''}''" lvl "CHR ''{''" r]
    by (subst (1 2) json_brackets_hd) (simp add: scan_value_def code_def dict_of_distinct [OF assms(3)])
  moreover have "starts ?b" by (subst json_brackets_hd) (simp add: starts_def json_ws_def code_def)
  ultimately show ?thesis by (simp add: reads_def)
qed

text \<open>The round trip at any place of a text.\<close>

lemma scan_once_value: "scan_once js d = scan_value js (if d = 0 then None else Some (scan_once js (d - 1)))"
  by (cases d) simp_all

lemma reads_once: "(\<And>inner. reads (scan_value js inner) t x) \<Longrightarrow> reads (scan_once js d) t x"
  by (subst scan_once_value)

lemmas reads_atom = reads_float reads_int reads_str reads_const

lemma rmapM_reads:
  assumes "rmapM f xs = Inr ts" and "\<And>x t. x \<in> set xs \<Longrightarrow> f x = Inr t \<Longrightarrow> reads p t (g x)"
  shows "list_all2 (reads p) ts (map g xs)"
  using assms
proof (induction xs arbitrary: ts)
  case (Cons x xs)
  then show ?case by (auto simp: rbind_eq_Inr rmap_eq_Inr)
qed simp

lemma scan_json_dumps:
  "json_dumps opts lvl v = Inr t \<Longrightarrow> layout opts \<Longrightarrow> readable js d v \<Longrightarrow>
   reads (scan_once js d) t (json_norm opts v)"
proof (induction opts lvl v arbitrary: t d rule: json_dumps.induct)
  case (6 opts lvl xs)
  then obtain ts where ts: "rmapM (json_dumps opts (Suc lvl)) xs = Inr ts"
    and t: "t = json_brackets opts lvl CHR ''['' CHR '']'' ts" by (auto simp: rmap_eq_Inr)
  have "list_all2 (reads (scan_once js (d - 1))) ts (map (json_norm opts) xs)"
    by (rule rmapM_reads [OF ts]) (use 6 in \<open>auto simp: list_all_iff\<close>)
  with 6 t show ?case by (simp add: scan_once_value [of js d] reads_list)
next
  case (7 opts lvl xs)
  then obtain ts where ts: "rmapM (json_dumps opts (Suc lvl)) xs = Inr ts"
    and t: "t = json_brackets opts lvl CHR ''['' CHR '']'' ts" by (auto simp: rmap_eq_Inr)
  have "list_all2 (reads (scan_once js (d - 1))) ts (map (json_norm opts) xs)"
    by (rule rmapM_reads [OF ts]) (use 7 in \<open>auto simp: list_all_iff\<close>)
  with 7 t show ?case by (simp add: scan_once_value [of js d] reads_list)
next
  case (8 opts lvl kvs)
  let ?g = "\<lambda>(k, v). (k, json_norm opts v)"
  from 8 obtain ts where ts: "rmapM (\<lambda>(k, v). rmap (\<lambda>t. json_str k @ key_sep opts @ t)
        (json_dumps opts (Suc lvl) v)) (sort_items opts kvs) = Inr ts"
    and t: "t = json_brackets opts lvl CHR ''{'' CHR ''}'' ts" by (auto simp: rmap_eq_Inr)
  have "list_all2 (reads (scan_pair (scan_once js (d - 1)))) ts (map ?g (sort_items opts kvs))"
  proof (rule rmapM_reads [OF ts], goal_cases)
    case (1 kv u)
    obtain k v where kv: "kv = (k, v)" by (cases kv)
    with 1 obtain w where w: "json_dumps opts (Suc lvl) v = Inr w" "u = json_str k @ key_sep opts @ w"
      by (auto simp: rmap_eq_Inr)
    from 1 kv 8(4) have "utf8 False k" "readable js (d - 1) v" by (auto simp: list_all_iff)
    with "8.IH" [OF 1(1) [unfolded kv] refl w(1) "8.prems"(2)] w kv "8.prems"(2) show ?case
      by (simp add: scan_pair_reads)
  qed
  moreover have "map fst (map ?g (sort_items opts kvs)) = map fst (sort_items opts kvs)" by auto
  with 8(4) have "distinct (map fst (map ?g (sort_items opts kvs)))"
    by (metis distinct_sort_items readable.simps(7))
  ultimately show ?case using 8 t by (simp add: scan_once_value [of js d] reads_dict)
qed (auto intro!: reads_once reads_atom split: if_splits)

section \<open>Whole texts\<close>

lemma scan_value_nonascii:
  assumes "128 \<le> code c"
  shows "scan_value js inner (c # cs) = json_error ''Expecting value''"
proof -
  have "c \<notin> {CHR ''{'', CHR ''['', CHR ''n'', CHR ''t'', CHR ''f'', CHR ''N'', CHR ''I'', CHR ''-'', CHR ''0''}"
    and "code c \<noteq> 34" and "\<not> is_digit c"
    using assms by (auto simp: code_def is_digit_def)
  then show ?thesis
    by (simp add: scan_value_def py_startswith_def scan_number_def number_len_def sign_len_def int_len_def digits_def)
qed

lemma reads_no_BOM: "reads (scan_once js d) t x \<Longrightarrow> \<not> py_startswith t BOM"
proof
  assume r: "reads (scan_once js d) t x" and "py_startswith t BOM"
  then obtain s where "t = BOM @ s" by (auto simp: py_startswith_iff)
  then have "\<exists>c cs. t = c # cs \<and> 128 \<le> code c" by (simp add: BOM_def utf8_encode_def)
  then have "scan_once js d t = json_error ''Expecting value''"
    by (auto simp: scan_once_value [of js d] scan_value_nonascii)
  moreover have "scan_once js d t = Inr (x, length t)" using r by (auto simp: reads_def dest: spec [of _ "[]"])
  ultimately show False by (simp add: json_error_def)
qed

theorem json_loads_dumps:
  assumes "json_dumps opts lvl v = Inr t" and "layout opts" and "readable js (js_depth js) v"
  shows "json_loads_str js t = Inr (json_norm opts v)"
proof -
  have r: "reads (scan_once js (js_depth js)) t (json_norm opts v)"
    using assms by (rule scan_json_dumps)
  then have "scan_once js (js_depth js) t = Inr (json_norm opts v, length t)"
    by (auto simp: reads_def dest: spec [of _ "[]"])
  moreover have "ws_len t = 0" using r ws_len_starts [of t "[]"] by (simp add: reads_def)
  ultimately show ?thesis using reads_no_BOM [OF r] by (simp add: json_loads_str_def)
qed

lemma utf8_char_ascii: "code c < 128 \<Longrightarrow> utf8_char b [c]"
  by (simp add: utf8_char_def code_point_def utf8_encode_def is_surrogate_def) (simp add: code_def)

lemma utf8_ascii: "is_ascii s \<Longrightarrow> utf8 b s"
  by (simp add: utf8_def py_chars_ascii is_ascii_def list_all_iff utf8_char_ascii)

lemma printable_ascii: "printable s \<Longrightarrow> is_ascii s"
  by (auto simp: printable_def is_ascii_def list_all_iff)

lemma json_loads_utf8_dumps:
  assumes "json_dumps opts lvl v = Inr t" and "layout opts" and "readable js (js_depth js) v" and "printable t"
  shows "json_loads_utf8 js t = Inr (json_norm opts v)"
  using json_loads_dumps [OF assms(1-3)] assms(4)
  by (simp add: json_loads_utf8_def py_decode_def utf8_ascii printable_ascii)

text \<open>What is read back is what was written, but for tuples and objects.\<close>

fun json_value :: "pyval \<Rightarrow> bool" where
  "json_value (PList xs) = list_all json_value xs"
| "json_value (PTuple xs) = False"
| "json_value (PObj s d) = False"
| "json_value (PDict kvs) = list_all (\<lambda>kv. json_value (snd kv)) kvs"
| "json_value v = True"

lemma json_norm_id: "json_value v \<Longrightarrow> \<not> sort_keys opts \<Longrightarrow> json_norm opts v = v"
proof (induction opts v rule: json_norm.induct)
  case (3 opts kvs)
  then have "map (\<lambda>(k, v). (k, json_norm opts v)) kvs = kvs"
    by (intro map_idI) (auto simp: sort_items_def list_all_iff)
  with 3 show ?case by (simp add: sort_items_def)
qed (auto simp: list_all_iff intro: map_idI)

lemma readable_printable_floats: "readable js d v \<Longrightarrow> printable_floats v"
proof (induction js d v rule: readable.induct)
  case (2 js d r)
  then show ?case by (auto simp: float_readable_def code_def)
qed (auto simp: list_all_iff)

section \<open>Cutting well-formed text\<close>

lemma is_cont_char_of: "m < 256 \<Longrightarrow> is_cont (char_of (m::nat)) \<longleftrightarrow> 128 \<le> m \<and> m < 192"
  by (simp add: is_cont_def)

text \<open>An encoded code point is a leading byte with its continuation bytes.\<close>

lemma utf8_encode_shape:
  assumes "n < 1114112"
  obtains c cs where "utf8_encode n = c # cs" "\<not> is_cont c" "list_all is_cont cs"
proof -
  have cont: "is_cont (char_of (128 + m mod 64))" for m :: nat
  proof -
    have "m mod 64 < 64" by simp
    then show ?thesis by (subst is_cont_char_of) linarith+
  qed
  have lead: "\<not> is_cont (char_of (a + m))" if "192 \<le> a" "a + m < 256" for a m :: nat
    using that by (subst is_cont_char_of) linarith+
  consider "n < 128" | "128 \<le> n" "n < 2048" | "2048 \<le> n" "n < 65536" | "65536 \<le> n" by linarith
  then show thesis
  proof cases
    case 1
    with that [of "char_of n" "[]"] show thesis by (simp add: utf8_encode_def is_cont_char_of)
  next
    case 2
    then have "192 + n div 64 < 256" by (simp add: less_mult_imp_div_less)
    with 2 that show thesis by (simp add: utf8_encode_def cont lead)
  next
    case 3
    then have "224 + n div 4096 < 256" by (simp add: less_mult_imp_div_less)
    with 3 that show thesis by (simp add: utf8_encode_def cont lead)
  next
    case 4
    then have "240 + n div 262144 < 256" using assms by (simp add: less_mult_imp_div_less)
    with 4 that show thesis by (simp add: utf8_encode_def cont lead)
  qed
qed

lemma utf8_char_shape:
  assumes "utf8_char b ch"
  obtains c cs where "ch = c # cs" "\<not> is_cont c" "list_all is_cont cs"
proof -
  from assms have "code_point ch < 1114112" "utf8_encode (code_point ch) = ch"
    by (simp_all add: utf8_char_def Let_def)
  with utf8_encode_shape [OF this(1)] that show thesis by metis
qed

lemma py_chars_utf8: "list_all (utf8_char b) chs \<Longrightarrow> py_chars (concat chs) = chs"
proof (induction chs)
  case (Cons ch chs)
  from Cons.prems have "utf8_char b ch" by simp
  then obtain c cs where ch: "ch = c # cs" "\<not> is_cont c" "list_all is_cont cs" by (rule utf8_char_shape)
  have rest: "takeWhile is_cont (concat chs) = []"
  proof (cases chs)
    case (Cons u us)
    with Cons.prems have "utf8_char b u" by simp
    then obtain d ds where "u = d # ds" "\<not> is_cont d" by (rule utf8_char_shape) blast
    with Cons show ?thesis by simp
  qed simp
  then have "dropWhile is_cont (concat chs) = concat chs" by (metis append_Nil takeWhile_dropWhile_id)
  with ch rest have "takeWhile is_cont (cs @ concat chs) = cs" "dropWhile is_cont (cs @ concat chs) = concat chs"
    by (simp_all add: list_all_iff takeWhile_append2 dropWhile_append2)
  with Cons ch show ?case by simp
qed simp

lemma utf8_concat: "list_all (utf8_char b) chs \<Longrightarrow> utf8 b (concat chs)"
  by (simp add: utf8_def py_chars_utf8)

section \<open>Request bodies\<close>

lemma unat_utf8_byte: "unat (word_of_nat (code c) :: byte) = code c"
proof -
  have "code c < 256" by (simp add: code_def)
  then show ?thesis by (simp add: unat_of_nat take_bit_eq_mod)
qed

lemma chars_of_utf8_bytes [simp]: "chars_of_bytes (utf8_bytes s) = s"
  by (simp add: chars_of_bytes_def utf8_bytes_def comp_def unat_utf8_byte) (simp add: code_def)

lemma bytes_start_ascii:
  assumes "is_ascii s" and "p \<noteq> []" and "128 \<le> hd p \<or> (length p = 4 \<and> hd p = 0)" and "list_all (\<lambda>c. code c \<noteq> 0) s"
  shows "\<not> bytes_start (utf8_bytes s) p"
  using assms by (cases s; cases p) (auto simp: bytes_start_def utf8_bytes_def is_ascii_def unat_utf8_byte)

lemma detect_ascii:
  assumes "is_ascii s" and "list_all (\<lambda>c. code c \<noteq> 0) s"
  shows "detect_encoding (utf8_bytes s) = (Utf8, utf8_bytes s)"
proof -
  have "word_of_nat (code c) \<noteq> (0 :: byte)" if "code c \<noteq> 0" for c
    using that unat_utf8_byte [of c] by force
  with assms(2) have "\<forall>b \<in> set (utf8_bytes s). b \<noteq> 0" by (auto simp: utf8_bytes_def list_all_iff)
  moreover have "\<not> bytes_start (utf8_bytes s) p" if "p \<noteq> []" "128 \<le> hd p \<or> (length p = 4 \<and> hd p = 0)" for p
    using bytes_start_ascii [OF assms(1) that assms(2)] .
  ultimately show ?thesis
    by (auto simp: detect_encoding_def split: list.splits)
qed

lemma json_loads_bytes_dumps:
  assumes "json_dumps opts lvl v = Inr t" and "layout opts" and "readable js (js_depth js) v" and "printable t"
  shows "json_loads_bytes js (utf8_bytes t) = Inr (json_norm opts v)"
proof -
  have "is_ascii t" using assms(4) by (rule printable_ascii)
  moreover have "list_all (\<lambda>c. code c \<noteq> 0) t" using assms(4) by (auto simp: printable_def list_all_iff)
  ultimately show ?thesis
    using json_loads_dumps [OF assms(1-3)]
    by (simp add: json_loads_bytes_def detect_ascii decode_bytes_def py_decode_def utf8_ascii)
qed

end
