(* ===== verification/Event_Log.thy ===== *)
theory Event_Log
  imports Trace_Log Json_Roundtrip
begin

text \<open>
  \<open>event_log.py\<close>: the durable tail of the event store below the trace root.  \<open>event_log\<close> is
  the object \<open>EventLog\<close> with its remembered size of the global file; its operations act on the
  file system of theory \<open>File_System\<close> under an arbitrary plan of faults.  Lines are decoded
  and parsed by the \<open>json.loads\<close> of theory \<open>Json_Loads\<close>; the \<open>repr\<close> of a time stamp is a parameter.
\<close>

section \<open>Run ids\<close>

definition segment_char :: "char \<Rightarrow> bool" where
  "segment_char c \<longleftrightarrow> alnum [c] \<or> c \<in> {CHR ''.'', CHR ''_'', CHR ''-''}"

definition RUN_SEGMENT :: "string \<Rightarrow> bool" where
  "RUN_SEGMENT s \<longleftrightarrow>
     (case s of [] \<Rightarrow> False
      | c # cs \<Rightarrow> alnum [c] \<and> length cs \<le> 63 \<and> list_all segment_char cs)"

definition run_id_of :: "data \<Rightarrow> string option" where
  "run_id_of d =
     (case py_or (dict_get d ''run_id'' PNone) (dict_get d ''id'' PNone) of
        PStr rid \<Rightarrow> if rid \<notin> {''.'', ''..''} \<and> RUN_SEGMENT rid then Some rid else None
      | _ \<Rightarrow> None)"

section \<open>Appending\<close>

fun redact_value :: "pyval \<Rightarrow> pyval" where
  "redact_value (PStr s) = PStr (redact s)"
| "redact_value (PList xs) = PList (map redact_value xs)"
| "redact_value (PDict kvs) = PDict (map (\<lambda>(k, v). (k, redact_value v)) kvs)"
| "redact_value v = v"

record event_log =
  el_keep_runs :: int
  el_max_bytes :: int
  el_global_size :: "int option"

definition EventLog :: "int \<Rightarrow> int \<Rightarrow> event_log" where
  "EventLog keep_runs max_bytes =
     \<lparr>el_keep_runs = keep_runs, el_max_bytes = max_bytes, el_global_size = None\<rparr>"

definition DEFAULT_MAX_BYTES :: int where
  "DEFAULT_MAX_BYTES = 5 * 1024 * 1024"

definition EVENTS :: string where
  "EVENTS = ''events.jsonl''"

definition EVENTS_1 :: string where
  "EVENTS_1 = ''events.jsonl.1''"

definition json_line :: json_opts where
  "json_line = \<lparr>item_sep = '','', key_sep = '':'', indent = None, sort_keys = False,
     default_str = True\<rparr>"

text \<open>The item the sink receives, and what is written of it.\<close>

definition event_item :: "(rat \<Rightarrow> string) \<Rightarrow> event \<Rightarrow> data" where
  "event_item float_repr e =
     [(''id'', PStr (ev_id e)), (''type'', PStr (ev_type e)),
      (''ts'', PFloat (float_repr (ev_ts e))), (''data'', PDict (ev_data e))]"

definition persisted :: "data \<Rightarrow> data" where
  "persisted item =
     upsert ''data'' (redact_value (py_or (dict_get item ''data'' PNone) (PDict []))) item"

definition event_line :: "data \<Rightarrow> string pyres" where
  "event_line item = rmap (\<lambda>t. t @ [newline]) (json_dumps json_line 0 (PDict (persisted item)))"

type_synonym 'a logged = "event_log \<Rightarrow> fs \<Rightarrow> 'a pyres \<times> event_log \<times> fs"

definition global_size :: "event_log \<Rightarrow> int io" where
  "global_size el =
     (case el_global_size el of
        Some n \<Rightarrow> io_return n
      | None \<Rightarrow> io_catch (io_bind (stat_size EVENTS) (\<lambda>n. io_return (int n))) (io_return 0))"

definition rotate :: "event_log \<Rightarrow> int \<Rightarrow> int io" where
  "rotate el n =
     (if n \<ge> el_max_bytes el
      then io_catch (io_bind (replace_file EVENTS EVENTS_1) (\<lambda>_. io_return 0)) (io_return n)
      else io_return n)"

text \<open>The size is remembered as soon as it is known, also when the write then fails.\<close>

definition append_global :: "string \<Rightarrow> unit logged" where
  "append_global line el s =
     (case io_bind (global_size el) (rotate el) s of
        (Inl e, t) \<Rightarrow> (Inl e, el, t)
      | (Inr n, t) \<Rightarrow>
          (case io_bind mkdir_root (\<lambda>_. append_file EVENTS line) t of
             (Inl e, u) \<Rightarrow> (Inl e, el\<lparr>el_global_size := Some n\<rparr>, u)
           | (Inr _, u) \<Rightarrow> (Inr (), el\<lparr>el_global_size := Some (n + int (length line))\<rparr>, u)))"

definition append_run :: "event_log \<Rightarrow> string \<Rightarrow> string \<Rightarrow> unit io" where
  "append_run el rid line =
     io_bind (path_exists rid) (\<lambda>exists.
     io_bind (mkdir_run rid) (\<lambda>_.
     io_bind (open_run_file False rid EVENTS) (\<lambda>_.
     io_bind (write_run_file rid EVENTS line) (\<lambda>_.
     if \<not> exists then prune_runs (el_keep_runs el) (Some rid) else io_return ()))))"

definition event_data :: "data \<Rightarrow> data" where
  "event_data item = (case dict_get item ''data'' PNone of PDict kvs \<Rightarrow> kvs | _ \<Rightarrow> [])"

definition append_event :: "data \<Rightarrow> unit logged" where
  "append_event item el s =
     (case event_line item of
        Inl e \<Rightarrow> (if is_os_error e then Inr () else Inl e, el, s)
      | Inr line \<Rightarrow>
          (case (case run_id_of (event_data item) of
                   None \<Rightarrow> append_global line el s
                 | Some rid \<Rightarrow> (case append_run el rid line s of (r, t) \<Rightarrow> (r, el, t))) of
             (Inl e, el1, t) \<Rightarrow> (if is_os_error e then Inr () else Inl e, el1, t)
           | (Inr _, el1, t) \<Rightarrow> (Inr (), el1, t)))"

section \<open>Reading back\<close>

text \<open>\<open>bytes.splitlines\<close>: lines end in a line feed, a carriage return or both.\<close>

fun splitlines_acc :: "bool \<Rightarrow> string \<Rightarrow> string \<Rightarrow> string list" where
  "splitlines_acc cr acc [] = (if acc = [] then [] else [rev acc])"
| "splitlines_acc cr acc (c # cs) =
     (if code c = 10 then (if cr then splitlines_acc False [] cs else rev acc # splitlines_acc False [] cs)
      else if code c = 13 then rev acc # splitlines_acc True [] cs
      else splitlines_acc False (c # acc) cs)"

definition splitlines :: "string \<Rightarrow> string list" where
  "splitlines s = splitlines_acc False [] s"

fun parse_lines :: "json_env \<Rightarrow> string list \<Rightarrow> data list pyres" where
  "parse_lines js [] = Inr []"
| "parse_lines js (l # ls) =
     (case json_loads_utf8 js l of
        Inl e \<Rightarrow> if is_value_error e then parse_lines js ls else Inl e
      | Inr (PDict kvs) \<Rightarrow> rmap ((#) kvs) (parse_lines js ls)
      | Inr _ \<Rightarrow> parse_lines js ls)"

fun read_tail_pair :: "json_env \<Rightarrow> string io list \<Rightarrow> data list io" where
  "read_tail_pair js [] = io_return []"
| "read_tail_pair js (rd # rds) =
     io_bind (io_catch (io_bind rd (\<lambda>raw. io_return (Some raw))) (io_return None)) (\<lambda>raw.
     io_bind (case raw of None \<Rightarrow> io_return []
              | Some c \<Rightarrow> io_lift (parse_lines js (splitlines c))) (\<lambda>es.
     io_bind (read_tail_pair js rds) (\<lambda>rest. io_return (es @ rest))))"

definition too_deep :: "json_env \<Rightarrow> string" where
  "too_deep js = replicate (Suc (js_depth js)) CHR ''[''"

lemma loads_too_deep: "json_loads_utf8 js (too_deep js) = Inl recursion_error"
proof -
  have "is_ascii (too_deep js)" by (auto simp: too_deep_def is_ascii_def list_all_iff code_def)
  then have "py_decode False (too_deep js) = Inr (too_deep js)" by (simp add: py_decode_def utf8_ascii)
  moreover have "CHR ''['' \<noteq> char_of (239::nat)" by code_simp
  then have "\<not> py_startswith (too_deep js) BOM" "ws_len (too_deep js) = 0"
    by (simp_all add: too_deep_def BOM_def utf8_encode_def py_startswith_def ws_len_def json_ws_def code_def)
  ultimately show ?thesis
    using scan_too_deep [of js "js_depth js" "[]"]
    by (simp add: json_loads_utf8_def json_loads_str_def too_deep_def)
qed

text \<open>
  C38: corrupt content of the log is skipped, with one exception.  Reading the lines of a file skips
  every line that is not UTF-8 or not JSON and every value that is not an object, and the only
  exception it lets through is the \<open>RecursionError\<close> of a line nested deeper than the interpreter's
  recursion limit, which is no \<open>ValueError\<close>: such a line, wherever it stands, makes the whole read
  fail instead of being skipped.
\<close>

theorem reading_tolerates_all_but_depth:
  "(case parse_lines js ls of Inl e \<Rightarrow> e = recursion_error | Inr _ \<Rightarrow> True) \<and>
   parse_lines js (ls @ too_deep js # ls') = Inl recursion_error"
proof (induction ls)
  case Nil
  then show ?case by (simp add: loads_too_deep recursion_error_def is_value_error_def)
next
  case (Cons l ls)
  show ?case
  proof (cases "json_loads_utf8 js l")
    case (Inl e)
    with raises_json_loads(2) [of js l] Cons show ?thesis by (auto simp: reading_error_def is_value_error_def recursion_error_def)
  next
    case (Inr v)
    with Cons show ?thesis by (cases v) (auto split: sum.splits)
  qed
qed

definition read_global_tail :: "(string \<Rightarrow> string option) \<Rightarrow> json_env \<Rightarrow> string \<Rightarrow> data list io" where
  "read_global_tail homes js trace_root =
     io_bind (io_lift (resolve_trace_root homes trace_root)) (\<lambda>_.
     read_tail_pair js [read_file EVENTS_1, read_file EVENTS])"

definition read_run_events ::
  "(string \<Rightarrow> string option) \<Rightarrow> json_env \<Rightarrow> string \<Rightarrow> string \<Rightarrow> data list option io" where
  "read_run_events homes js trace_root run_id =
     (if run_id \<in> {''.'', ''..''} \<or> \<not> RUN_SEGMENT run_id then io_return None
      else
        io_bind (io_lift (resolve_trace_root homes trace_root)) (\<lambda>_.
        io_bind (run_is_file run_id EVENTS) (\<lambda>found.
        if \<not> found then io_return None
        else io_bind (read_tail_pair js [read_run_file run_id EVENTS]) (\<lambda>es. io_return (Some es)))))"

section \<open>The run index\<close>

record run_entry =
  re_run_id :: string
  re_events_bytes :: nat
  re_modified_at :: rat
  re_manifest :: "pyval option"

text \<open>
  A run directory is a candidate when it holds an events file; the listing asks for the kind of
  every entry and for the file, in one snapshot.
\<close>

definition has_events :: "string \<times> node \<Rightarrow> bool" where
  "has_events entry =
     (case snd entry of Dir _ files \<Rightarrow> map_of files EVENTS \<noteq> None | File _ \<Rightarrow> False)"

definition list_candidates :: "string list option io" where
  "list_candidates =
     io_catch (io_bind list_root (\<lambda>es. io_return (Some (map fst (filter has_events es)))))
       (io_return None)"

definition read_manifest :: "json_env \<Rightarrow> string \<Rightarrow> pyval option io" where
  "read_manifest js d s =
     (case io_bind (read_run_file d MANIFEST_NAME) (\<lambda>raw. io_lift (json_loads_utf8 js raw)) s of
        (Inl e, t) \<Rightarrow> if is_os_error e \<or> is_value_error e then (Inr None, t) else (Inl e, t)
      | (Inr v, t) \<Rightarrow> (Inr (Some v), t))"

definition index_entry :: "json_env \<Rightarrow> string \<Rightarrow> run_entry option io" where
  "index_entry js d =
     io_bind (io_catch
        (io_bind (stat_run_size d EVENTS) (\<lambda>n. io_bind (stat_mtime d) (\<lambda>m. io_return (Some (n, m)))))
        (io_return None)) (\<lambda>st.
     case st of
       None \<Rightarrow> io_return None
     | Some (n, m) \<Rightarrow>
         io_bind (run_is_file d MANIFEST_NAME) (\<lambda>found.
         io_bind (if found then read_manifest js d else io_return None) (\<lambda>man.
         io_return (Some \<lparr>re_run_id = d, re_events_bytes = n, re_modified_at = m,
                          re_manifest = man\<rparr>))))"

fun index_entries :: "json_env \<Rightarrow> string list \<Rightarrow> run_entry list io" where
  "index_entries js [] = io_return []"
| "index_entries js (d # ds) =
     io_bind (index_entry js d) (\<lambda>e. io_bind (index_entries js ds) (\<lambda>es.
       io_return (case e of None \<Rightarrow> es | Some x \<Rightarrow> x # es)))"

text \<open>\<open>sort(key=..., reverse=True)\<close> keeps the order of entries with the same time.\<close>

definition newest_first :: "run_entry list \<Rightarrow> run_entry list" where
  "newest_first es = sort_key (\<lambda>e. - re_modified_at e) es"

definition list_runs :: "(string \<Rightarrow> string option) \<Rightarrow> json_env \<Rightarrow> string \<Rightarrow> run_entry list io" where
  "list_runs homes js trace_root =
     io_bind (io_lift (resolve_trace_root homes trace_root)) (\<lambda>_.
     io_bind list_candidates (\<lambda>listing.
     case listing of
       None \<Rightarrow> io_return []
     | Some candidates \<Rightarrow>
         io_bind (index_entries js candidates) (\<lambda>es. io_return (newest_first es))))"

section \<open>Appending never fails\<close>

lemma event_line_ok: "\<exists>line. event_line item = Inr (line @ [newline])"
  using json_dumps_plain [of "PDict (persisted item)" json_line 0]
  by (auto simp: event_line_def is_ok_iff json_line_def)

lemma os_only_global: "os_only (io_bind (global_size el) (rotate el))"
  unfolding global_size_def rotate_def
  by (intro os_only_bind)
    (auto split: option.splits intro!: os_only_catch os_only_bind os_only_return os_only_calls)

lemma os_only_append_file: "os_only (append_file n line)"
  unfolding append_file_def by (intro os_only_bind os_only_calls)

lemma os_only_append_run: "os_only (append_run el rid line)"
  unfolding append_run_def
  by (intro os_only_bind os_only_calls os_only_if os_only_return os_only_prune_runs)

lemma append_global_os: "append_global line el s = (Inl e, el1, t) \<Longrightarrow> is_os_error e"
  unfolding append_global_def
  by (auto dest: os_onlyD [OF os_only_global]
      os_onlyD [OF os_only_bind [OF os_only_calls(1) os_only_append_file]]
      split: prod.splits sum.splits)

lemma append_event_total: "fst (append_event item el s) = Inr ()"
proof -
  obtain line where line: "event_line item = Inr (line @ [newline])" using event_line_ok by blast
  show ?thesis
    using os_onlyD [OF os_only_append_run] append_global_os
    by (auto simp: append_event_def line split: option.splits prod.splits sum.splits)
qed

section \<open>What appending touches\<close>

lemma nodes_open_append: "n \<notin> N \<Longrightarrow> keeps (same_nodes N) (open_append n)"
  unfolding open_append_def
  by (rule nodes.keeps_plain_call)
    (auto simp: keeps_def same_nodes_put_node split: option.splits node.splits)

lemma nodes_write_text: "n \<notin> N \<Longrightarrow> keeps (same_nodes N) (write_text n c)"
  unfolding write_text_def
  by (rule nodes.keeps_syscall) (auto simp: keeps_def add_text_def same_nodes_put_node)

lemma nodes_mkdir_root: "keeps (same_nodes N) mkdir_root"
  unfolding mkdir_root_def by (rule nodes.keeps_plain_call) (auto simp: keeps_def same_nodes_def)

lemma nodes_replace_file: "a \<notin> N \<Longrightarrow> b \<notin> N \<Longrightarrow> keeps (same_nodes N) (replace_file a b)"
  unfolding replace_file_def
  by (rule nodes.keeps_plain_call)
    (auto simp: keeps_def same_nodes_def put_node_def split: option.splits node.splits)

lemma nodes_mkdir_run: "d \<notin> N \<Longrightarrow> keeps (same_nodes N) (mkdir_run d)"
  unfolding mkdir_run_def
  by (rule nodes.keeps_plain_call)
    (auto simp: keeps_def same_nodes_def put_node_def split: option.splits node.splits)

lemma same_nodes_put_run: "d \<notin> N \<Longrightarrow> same_nodes N s (put_run_file d n c s)"
  by (auto simp: put_run_file_def same_nodes_put_node split: option.splits node.splits)

lemma nodes_open_run_file: "d \<notin> N \<Longrightarrow> keeps (same_nodes N) (open_run_file tr d n)"
  unfolding open_run_file_def
  by (rule nodes.keeps_plain_call) (auto simp: keeps_def same_nodes_put_run)

lemma nodes_write_run_file: "d \<notin> N \<Longrightarrow> keeps (same_nodes N) (write_run_file d n c)"
  unfolding write_run_file_def
  by (rule nodes.keeps_syscall) (auto simp: keeps_def add_run_text_def same_nodes_put_run)

lemma nodes_prune_runs: "\<not> is_run_id n \<or> p = Some n \<Longrightarrow> keeps (same_nodes {n}) (prune_runs k p)"
proof (rule keepsI)
  fix s assume n: "\<not> is_run_id n \<or> p = Some n"
  have "n \<in> set (stale_runs k s) \<Longrightarrow> is_run_id n"
    by (auto simp: stale_runs_def run_dirs_def run_entries_def dest!: in_set_takeD)
  with n prune_runs_spares [of k p s "fst (prune_runs k p s)" "snd (prune_runs k p s)" n]
  show "same_nodes {n} s (snd (prune_runs k p s))" by (auto simp: same_nodes_def)
qed

lemmas nodes_calls =
  nodes_open_append nodes_write_text nodes_mkdir_root nodes_replace_file nodes_mkdir_run
  nodes_open_run_file nodes_write_run_file nodes_prune_runs

lemma nodes_append_file: "a \<notin> N \<Longrightarrow> keeps (same_nodes N) (append_file a line)"
  unfolding append_file_def by (intro nodes.keeps_bind nodes_calls)

lemma nodes_append_global:
  assumes "append_global line el s = (r, el1, t)" and "EVENTS \<notin> N" and "EVENTS_1 \<notin> N"
  shows "same_nodes N s t"
proof -
  have 1: "keeps (same_nodes N) (io_bind (global_size el) (rotate el))"
    unfolding global_size_def rotate_def using assms(2,3)
    by (intro nodes.keeps_bind)
      (auto split: option.splits intro!: nodes.keeps_catch nodes.keeps_bind nodes.keeps_reads nodes_calls)
  have 2: "keeps (same_nodes N) (io_bind mkdir_root (\<lambda>_. append_file EVENTS line))"
    using assms(2) by (intro nodes.keeps_bind nodes_calls nodes_append_file)
  show ?thesis
    using assms(1) keepsD [OF 1] keepsD [OF 2]
    by (fastforce simp: append_global_def split: prod.splits sum.splits intro: nodes.trans)
qed

lemma nodes_append_run:
  "n \<noteq> rid \<Longrightarrow> \<not> is_run_id n \<Longrightarrow> keeps (same_nodes {n}) (append_run el rid line)"
  unfolding append_run_def
  by (intro nodes.keeps_bind nodes.keeps_reads nodes.keeps_if nodes.keeps_return nodes_calls) auto

lemma segment_no_slash: "RUN_SEGMENT rid \<Longrightarrow> CHR ''/'' \<notin> set rid"
  by (auto simp: RUN_SEGMENT_def segment_char_def list_all_iff alnum_def in_ranges_def code_def
      split: list.splits)

text \<open>
  C27: appending an event to the durable log raises nothing, whichever calls fail, so an emit
  survives every failure of the sink.  What it may touch is bounded: an event of no run changes
  the two global files only; an event of a run changes the entry of that run, whose name has no
  path separator, and at most removes directories that are named like runs.  (Python's recursion
  limit, which data nested some hundred levels deep would meet, is not modelled here.)
\<close>

theorem append_event_best_effort:
  assumes "append_event item el s = (r, el2, t)"
  shows "r = Inr () \<and>
    (\<forall>n. map_of (fs_nodes t) n \<noteq> map_of (fs_nodes s) n \<longrightarrow>
       (case run_id_of (event_data item) of
          None \<Rightarrow> n \<in> {EVENTS, EVENTS_1}
        | Some rid \<Rightarrow> CHR ''/'' \<notin> set rid \<and> (n = rid \<or> is_run_id n)))"
proof -
  obtain line where line: "event_line item = Inr (line @ [newline])" using event_line_ok by blast
  show ?thesis
  proof (cases "run_id_of (event_data item)")
    case None
    obtain r1 el1 u where ap: "append_global (line @ [newline]) el s = (r1, el1, u)" by (metis prod_cases3)
    with assms None line have "u = t"
      by (auto simp: append_event_def split: sum.splits)
    with nodes_append_global [OF ap, of "- {EVENTS, EVENTS_1}"] None append_event_total [of item el s] assms
    show ?thesis by (auto simp: same_nodes_def)
  next
    case (Some rid)
    obtain r1 u where ap: "append_run el rid (line @ [newline]) s = (r1, u)" by fastforce
    with assms Some line have "u = t"
      by (auto simp: append_event_def split: sum.splits)
    moreover have "RUN_SEGMENT rid" using Some
      by (auto simp: run_id_of_def split: pyval.splits if_splits)
    moreover have "map_of (fs_nodes u) n = map_of (fs_nodes s) n" if "n \<noteq> rid" "\<not> is_run_id n" for n
      using keepsD [OF nodes_append_run [OF that] ap] by (simp add: same_nodes_def)
    ultimately show ?thesis
      using Some segment_no_slash append_event_total [of item el s] assms by auto
  qed
qed

section \<open>Lines written and read back\<close>

lemma splitlines_line:
  "printable l \<Longrightarrow> splitlines_acc False acc (l @ newline # rest) = (rev acc @ l) # splitlines rest"
  by (induction l arbitrary: acc) (auto simp: splitlines_def newline_def)

definition lines_text :: "string list \<Rightarrow> string" where
  "lines_text ls = concat (map (\<lambda>l. l @ [newline]) ls)"

lemma lines_text_simps [simp]:
  "lines_text [] = ''''" "lines_text (l # ls) = l @ newline # lines_text ls"
  "lines_text (xs @ ys) = lines_text xs @ lines_text ys"
  by (simp_all add: lines_text_def)

lemma splitlines_text: "\<forall>l \<in> set ls. printable l \<Longrightarrow> splitlines (lines_text ls) = ls"
proof (induction ls)
  case (Cons l ls)
  then show ?case using splitlines_line [of l "[]" "lines_text ls"] by (simp add: splitlines_def)
qed (simp add: splitlines_def)

text \<open>The text of an item without its line end.\<close>

definition item_text :: "data \<Rightarrow> string" where
  "item_text item = (case json_dumps json_line 0 (PDict (persisted item)) of Inr t \<Rightarrow> t | Inl _ \<Rightarrow> [])"

lemma event_line_text: "event_line item = Inr (item_text item @ [newline])"
  using json_dumps_plain [of "PDict (persisted item)" json_line 0]
  by (auto simp: event_line_def item_text_def is_ok_iff json_line_def)

lemma printable_floats_redact: "printable_floats v \<Longrightarrow> printable_floats (redact_value v)"
  by (induction v rule: redact_value.induct) (auto simp: list_all_iff)

lemma printable_item_text:
  assumes "printable_floats (PDict item)"
  shows "printable (item_text item)"
proof -
  obtain t where t: "json_dumps json_line 0 (PDict (persisted item)) = Inr t"
    using json_dumps_plain [of "PDict (persisted item)" json_line 0] by (auto simp: is_ok_iff json_line_def)
  have "printable_floats (dict_get item ''data'' PNone)"
    using assms by (auto simp: dict_get_def list_all_iff dest!: map_of_SomeD split: option.splits)
  then have "printable_floats (PDict (persisted item))"
    using assms by (auto simp: persisted_def py_or_def simp flip: list_all_iff
        intro!: list_all_upsert printable_floats_redact)
  with printable_json_dumps [OF t] t show ?thesis
    by (simp add: item_text_def json_line_def code_def)
qed

text \<open>
  What can be read back: an item of well-formed text and floats, nested less deeply than the
  recursion limit.  Redaction keeps text well-formed, since it works on whole characters.
\<close>

definition storable :: "json_env \<Rightarrow> data \<Rightarrow> bool" where
  "storable js item \<longleftrightarrow> 1 < js_depth js \<and> readable js (js_depth js) (PDict item)"

text \<open>What comes back of an item: tuples as lists, objects as their text.\<close>

definition read_back :: "data \<Rightarrow> data" where
  "read_back item = map (\<lambda>(k, v). (k, json_norm json_line v)) (persisted item)"

lemma set_redact_chars: "set (redact_chars s) \<subseteq> set s \<union> set BARE_MARK \<union> set KV_MARK"
proof -
  have "set (fold (\<lambda>rx. sub_all (bare_matcher rx BARE_MARK)) rxs s) \<subseteq> set s \<union> set BARE_MARK" for rxs
  proof (induction rxs arbitrary: s)
    case (Cons rx rxs)
    then show ?case using set_sub_all [OF marks_bare, of rx BARE_MARK s] by (simp add: subset_iff) blast
  qed simp
  then show ?thesis
    using set_sub_all [OF marks_kv] unfolding redact_chars_def by (meson Un_mono order_refl order_trans)
qed

lemma utf8_redact: "utf8 False s \<Longrightarrow> utf8 False (redact s)"
proof -
  assume s: "utf8 False s"
  have "\<forall>ch \<in> set BARE_MARK \<union> set KV_MARK. utf8_char False ch"
    by (simp add: BARE_MARK_def KV_MARK_def utf8_char_ascii code_def)
  moreover have "\<forall>ch \<in> set (py_chars s). utf8_char False ch" using s by (simp add: utf8_def list_all_iff)
  ultimately have "list_all (utf8_char False) (redact_chars (py_chars s))"
    unfolding list_all_iff using set_redact_chars [of "py_chars s"] by blast
  then show ?thesis unfolding redact_def by (rule utf8_concat)
qed

lemma readable_redact: "readable js d v \<Longrightarrow> readable js d (redact_value v)"
proof (induction js d v rule: readable.induct)
  case (7 js d kvs)
  have keys: "map (fst \<circ> (\<lambda>(k, v). (k, redact_value v))) kvs = map fst kvs" by auto
  show ?case using 7 by (auto simp: list_all_iff keys)
qed (auto simp: list_all_iff utf8_redact)

lemma storable_persisted:
  assumes "storable js item"
  shows "readable js (js_depth js) (PDict (persisted item))"
proof -
  let ?d = "js_depth js - 1"
  let ?v = "redact_value (py_or (dict_get item ''data'' PNone) (PDict []))"
  have item: "list_all (\<lambda>kv. utf8 False (fst kv) \<and> readable js ?d (snd kv)) item" "distinct (map fst item)" "0 < ?d"
    using assms by (auto simp: storable_def)
  then have "readable js ?d (dict_get item ''data'' PNone)"
    by (auto simp: dict_get_def list_all_iff dest!: map_of_SomeD split: option.splits)
  with item have v: "readable js ?d ?v" by (intro readable_redact) (simp add: py_or_def)
  have "utf8 False ''data''" by (simp add: utf8_ascii is_ascii_def code_def)
  with v have "list_all (\<lambda>kv. utf8 False (fst kv) \<and> readable js ?d (snd kv)) (upsert ''data'' ?v item)"
    by (intro list_all_upsert item) simp
  with item show ?thesis by (auto simp: persisted_def distinct_upsert)
qed

lemma storable_printable: "storable js item \<Longrightarrow> printable_floats (PDict item)"
  unfolding storable_def by (blast dest: readable_printable_floats)

lemma layout_json_line: "layout json_line"
  by (simp add: layout_def json_line_def json_ws_def)

text \<open>One line of the log is read back.\<close>

lemma storable_loads:
  assumes "storable js item"
  shows "json_loads_utf8 js (item_text item) = Inr (PDict (read_back item))"
proof -
  obtain t where t: "json_dumps json_line 0 (PDict (persisted item)) = Inr t"
    using json_dumps_plain [of "PDict (persisted item)" json_line 0] by (auto simp: is_ok_iff json_line_def)
  then have "item_text item = t" by (simp add: item_text_def)
  moreover have "printable t"
    using printable_item_text [OF storable_printable [OF assms]] calculation by simp
  ultimately show ?thesis
    using json_loads_utf8_dumps [OF t layout_json_line storable_persisted [OF assms]]
    by (simp add: read_back_def sort_items_def json_line_def)
qed

lemma parse_lines_text:
  "\<forall>item \<in> set items. storable js item \<Longrightarrow>
   parse_lines js (map item_text items) = Inr (map read_back items)"
  by (induction items) (auto simp: storable_loads)

section \<open>The history of a run\<close>

lemma faultless_syscall: "faultless s \<Longrightarrow> syscall p act s = act (s\<lparr>fs_tick := Suc (fs_tick s)\<rparr>)"
  by (simp add: syscall_def Let_def faultless_def)

lemma faultless_frames [simp]:
  "faultless (s\<lparr>fs_tick := k\<rparr>) = faultless s"
  "faultless (put_node d nd s) = faultless s"
  "faultless (s\<lparr>fs_root := b\<rparr>) = faultless s"
  "faultless (put_run_file d n c s) = faultless s"
  by (auto simp: faultless_def put_node_def put_run_file_def split: option.splits node.splits)

definition run_log :: "string \<Rightarrow> fs \<Rightarrow> string" where
  "run_log rid s = (case run_file rid EVENTS s of Some c \<Rightarrow> c | None \<Rightarrow> [])"

lemma plan_prune_runs: "keeps same_plan (prune_runs k p)"
proof -
  have "keeps same_plan (stat_all ds)" for ds
    by (induction ds) (auto intro!: plan.keeps_bind plan.keeps_reads)
  moreover have "keeps same_plan (rm_stale p ds)" for ds
    by (induction ds) (auto intro!: plan.keeps_bind plan.keeps_catch plan_rmtree)
  moreover have "keeps same_plan list_siblings"
    unfolding list_siblings_def by (intro plan.keeps_catch plan.keeps_bind plan.keeps_reads plan.keeps_return)
  ultimately show ?thesis
    unfolding prune_runs_def Let_def
    by (intro plan.keeps_bind) (auto split: option.splits)
qed

lemma append_run_faultless:
  assumes "faultless s" and "map_of (fs_nodes s) rid = None \<or> is_run_dir rid s"
    and "append_run el rid line s = (r, t)"
  shows "faultless t \<and> is_run_dir rid t \<and> run_file rid EVENTS t = Some (run_log rid s @ line)"
proof -
  let ?k = "fs_tick s"
  define s2 where "s2 = (if is_run_dir rid s then s\<lparr>fs_tick := Suc (Suc ?k)\<rparr>
    else put_node rid (Dir (fs_clock s (Suc (Suc ?k))) []) (s\<lparr>fs_tick := Suc (Suc ?k), fs_root := True\<rparr>))"
  define u where "u = add_run_text rid EVENTS line
    ((put_run_file rid EVENTS (run_log rid s2) (s2\<lparr>fs_tick := Suc (fs_tick s2)\<rparr>))
       \<lparr>fs_tick := Suc (Suc (fs_tick s2))\<rparr>)"
  have s2: "faultless s2" "is_run_dir rid s2" "run_log rid s2 = run_log rid s"
    using assms(1,2) by (auto simp: s2_def is_run_dir_def run_log_def run_file_def run_files_def
        put_node_def faultless_def split: option.splits node.splits)
  then have u: "faultless u" "is_run_dir rid u" "run_file rid EVENTS u = Some (run_log rid s @ line)"
    by (simp_all add: u_def add_run_text_def)
  have tick: "fs_tick (put_run_file d n c v) = fs_tick v" for d n c v
    by (simp add: put_run_file_def put_node_def split: option.splits node.splits)
  have "append_run el rid line s =
      (if map_of (fs_nodes s) rid = None then prune_runs (el_keep_runs el) (Some rid) else io_return ()) u"
    using assms(1,2) s2(1,2) tick
    by (auto simp: append_run_def io_bind_def path_exists_def mkdir_run_def open_run_file_def
        write_run_file_def faultless_syscall u_def s2_def is_run_dir_def run_log_def
        split: option.splits node.splits)
  with assms(3) have t: "t = u \<or> prune_runs (el_keep_runs el) (Some rid) u = (r, t)"
    by (auto simp: io_return_def split: if_splits)
  then show ?thesis
  proof
    assume prune: "prune_runs (el_keep_runs el) (Some rid) u = (r, t)"
    have "map_of (fs_nodes t) rid = map_of (fs_nodes u) rid"
      by (rule prune_runs_spares [OF prune]) simp
    with u keepsD [OF plan_prune_runs prune] show ?thesis
      by (simp add: is_run_dir_def run_file_def run_files_def same_plan_def faultless_def)
  qed (use u in simp)
qed

fun append_events :: "data list \<Rightarrow> event_log \<Rightarrow> fs \<Rightarrow> event_log \<times> fs" where
  "append_events [] el s = (el, s)"
| "append_events (item # items) el s =
     (case append_event item el s of (_, el1, t) \<Rightarrow> append_events items el1 t)"

abbreviation of_run :: "string \<Rightarrow> data \<Rightarrow> bool" where
  "of_run rid item \<equiv> run_id_of (event_data item) = Some rid"

lemma plan_append_file: "keeps same_plan (append_file a line)"
  unfolding append_file_def open_append_def write_text_def
  by (intro plan.keeps_bind plan.keeps_plain_call plan.keeps_syscall)
    (auto simp: keeps_def add_text_def split: option.splits node.splits)

lemma plan_append_global:
  assumes "append_global line el s = (r, el1, t)"
  shows "same_plan s t"
proof -
  have 0: "keeps same_plan mkdir_root" "keeps same_plan (replace_file a b)" for a b
    unfolding mkdir_root_def replace_file_def
    by (rule plan.keeps_plain_call;
        auto simp: keeps_def same_plan_def put_node_def wf_fs_def distinct_upsert distinct_remove_key
          split: option.splits node.splits)+
  have 1: "keeps same_plan (io_bind (global_size el) (rotate el))"
    unfolding global_size_def rotate_def
    by (intro plan.keeps_bind)
      (auto split: option.splits intro!: plan.keeps_catch plan.keeps_bind plan.keeps_reads 0)
  have 2: "keeps same_plan (io_bind mkdir_root (\<lambda>_. append_file EVENTS line))"
    by (intro plan.keeps_bind 0 plan_append_file)
  show ?thesis
    using assms keepsD [OF 1] keepsD [OF 2]
    by (fastforce simp: append_global_def split: prod.splits sum.splits intro: plan.trans)
qed

definition run_state :: "string \<Rightarrow> string list \<Rightarrow> fs \<Rightarrow> bool" where
  "run_state rid ls s \<longleftrightarrow> faultless s \<and>
     (if ls = [] then map_of (fs_nodes s) rid = None
      else is_run_dir rid s \<and> run_file rid EVENTS s = Some (lines_text ls))"

lemma run_state_append:
  assumes "run_state rid ls s" and "rid \<notin> {EVENTS, EVENTS_1}"
    and "run_id_of (event_data item) \<in> {None, Some rid}" and "append_event item el s = (r, el1, t)"
  shows "run_state rid (if of_run rid item then ls @ [item_text item] else ls) t"
proof (cases "of_run rid item")
  case True
  obtain r1 u where ap: "append_run el rid (item_text item @ [newline]) s = (r1, u)" by fastforce
  with assms(4) True have "u = t"
    by (auto simp: append_event_def event_line_text split: sum.splits)
  moreover have "map_of (fs_nodes s) rid = None \<or> is_run_dir rid s" "run_log rid s = lines_text ls"
    using assms(1)
    by (auto simp: run_state_def run_log_def run_file_def run_files_def split: if_splits)
  ultimately show ?thesis
    using append_run_faultless [OF _ _ ap] assms(1) True by (simp add: run_state_def)
next
  case False
  with assms(3) have None: "run_id_of (event_data item) = None" by auto
  obtain r1 el2 u where ap: "append_global (item_text item @ [newline]) el s = (r1, el2, u)"
    by (metis prod_cases3)
  with assms(4) None have "u = t"
    by (auto simp: append_event_def event_line_text split: sum.splits)
  with nodes_append_global [OF ap, of "{rid}"] plan_append_global [OF ap] assms(1,2) False
  show ?thesis
    by (auto simp: run_state_def same_nodes_def same_plan_def faultless_def is_run_dir_def
        run_file_def run_files_def)
qed

lemma run_state_appends:
  assumes "run_state rid ls s" and "rid \<notin> {EVENTS, EVENTS_1}"
    and "\<forall>item \<in> set items. run_id_of (event_data item) \<in> {None, Some rid}"
    and "append_events items el s = (el1, t)"
  shows "run_state rid (ls @ map item_text (filter (of_run rid) items)) t"
  using assms
proof (induction items arbitrary: ls el s)
  case (Cons item items)
  obtain r el2 u where ap: "append_event item el s = (r, el2, u)" by (metis prod_cases3)
  have "run_state rid (if of_run rid item then ls @ [item_text item] else ls) u"
    using Cons.prems by (intro run_state_append [OF _ _ _ ap]) auto
  from Cons.IH [OF this, of el2] Cons.prems ap show ?case by (auto split: if_splits)
qed simp

text \<open>
  Other runs come and go beside it.  They take the history of a run away only when the retention
  prunes it, which it does not as long as the root has no more run directories than it keeps.
\<close>

definition retained :: "int \<Rightarrow> string set \<Rightarrow> fs \<Rightarrow> bool" where
  "retained keep R s \<longleftrightarrow>
     wf_fs s \<and> finite R \<and> card {r \<in> R. is_run_id r} \<le> nat (max 1 keep) \<and> set (run_dirs s) \<subseteq> R"

lemma retained_not_stale: "retained keep R s \<Longrightarrow> stale_runs keep s = []"
proof -
  assume s: "retained keep R s"
  then have "length (run_dirs s) = card (set (run_dirs s))"
    by (simp add: retained_def distinct_card distinct_run_dirs)
  also have "\<dots> \<le> card {r \<in> R. is_run_id r}"
    using s by (intro card_mono) (auto simp: retained_def run_dirs_iff)
  also have "\<dots> \<le> nat (max 1 keep)" using s by (simp add: retained_def)
  finally show ?thesis by (simp add: stale_runs_def)
qed

lemma retained_frame:
  assumes "retained keep R s" and "wf_fs t"
    and "\<And>n. n \<notin> R \<Longrightarrow> is_run_id n \<Longrightarrow> map_of (fs_nodes t) n = map_of (fs_nodes s) n"
  shows "retained keep R t"
proof -
  have "n \<in> R" if "n \<in> set (run_dirs t)" for n
  proof (rule ccontr)
    assume "n \<notin> R"
    with assms that have "n \<in> set (run_dirs s)"
      by (auto simp: retained_def run_dirs_iff is_run_dir_def)
    with assms(1) \<open>n \<notin> R\<close> show False by (auto simp: retained_def)
  qed
  with assms(1,2) show ?thesis by (auto simp: retained_def)
qed

lemma plan_mkdir_run: "keeps same_plan (mkdir_run d)"
  unfolding mkdir_run_def
  by (rule plan.keeps_plain_call)
    (auto simp: keeps_def same_plan_def put_node_def wf_fs_def distinct_upsert split: option.splits node.splits)

lemma append_run_frame:
  assumes "append_run el r line s = (x, t)" and "retained (el_keep_runs el) R s" and "r \<in> R"
  shows "same_nodes (- {r}) s t \<and> same_plan s t \<and> retained (el_keep_runs el) R t"
proof -
  define pre where "pre = io_bind (path_exists r) (\<lambda>e. io_bind (mkdir_run r) (\<lambda>_.
    io_bind (open_run_file False r EVENTS) (\<lambda>_. io_bind (write_run_file r EVENTS line) (\<lambda>_. io_return e))))"
  have split: "append_run el r line s =
      io_bind pre (\<lambda>e. if \<not> e then prune_runs (el_keep_runs el) (Some r) else io_return ()) s"
    by (simp add: append_run_def pre_def io_bind_def io_return_def split: prod.split sum.split)
  obtain y u where pre: "pre s = (y, u)" by fastforce
  have keep: "keeps (same_nodes (- {r})) pre" "keeps same_plan pre"
    unfolding pre_def
    by (intro nodes.keeps_bind nodes.keeps_reads nodes.keeps_return nodes_calls; simp)
      (intro plan.keeps_bind plan.keeps_reads plan.keeps_return plan_mkdir_run plan_run_file)
  note nodes = keepsD [OF keep(1) pre] and plan = keepsD [OF keep(2) pre]
  have u: "retained (el_keep_runs el) R u"
    by (rule retained_frame [OF assms(2)])
      (use nodes plan assms(2,3) in \<open>auto simp: same_nodes_def same_plan_def retained_def\<close>)
  have "t = u \<or> (\<exists>z. prune_runs (el_keep_runs el) (Some r) u = (z, t))"
    using assms(1) pre by (auto simp: split io_bind_def io_return_def split: sum.splits if_splits)
  then show ?thesis
  proof
    assume "\<exists>z. prune_runs (el_keep_runs el) (Some r) u = (z, t)"
    then obtain z where z: "prune_runs (el_keep_runs el) (Some r) u = (z, t)" by blast
    have same: "map_of (fs_nodes t) n = map_of (fs_nodes u) n" for n
      by (rule prune_runs_spares [OF z]) (simp add: retained_not_stale [OF u])
    have pt: "same_plan u t" by (rule keepsD [OF plan_prune_runs z])
    then have "retained (el_keep_runs el) R t"
      using u same by (intro retained_frame [OF u]) (auto simp: same_plan_def retained_def)
    with same nodes plan pt show ?thesis by (auto simp: same_nodes_def intro: plan.trans)
  qed (use nodes plan u in simp)
qed

lemma append_global_keep: "append_global line el s = (r, el1, t) \<Longrightarrow> el_keep_runs el1 = el_keep_runs el"
  by (auto simp: append_global_def split: prod.splits sum.splits)

lemma events_not_runs [simp]: "\<not> is_run_id EVENTS" "\<not> is_run_id EVENTS_1"
  by code_simp+

lemma append_event_retained:
  assumes "append_event item el s = (x, el1, t)" and "retained (el_keep_runs el) R s"
    and "run_id_of (event_data item) \<in> insert None (Some ` R)"
  shows "retained (el_keep_runs el) R t \<and> same_plan s t \<and> el_keep_runs el1 = el_keep_runs el \<and>
    (case run_id_of (event_data item) of
       None \<Rightarrow> same_nodes (- {EVENTS, EVENTS_1}) s t
     | Some r \<Rightarrow> same_nodes (- {r}) s t)"
proof (cases "run_id_of (event_data item)")
  case None
  obtain r1 u where ap: "append_global (item_text item @ [newline]) el s = (r1, el1, u)" and "u = t"
    using assms(1) None by (auto simp: append_event_def event_line_text split: prod.splits sum.splits)
  have nodes: "same_nodes (- {EVENTS, EVENTS_1}) s t"
    using nodes_append_global [OF ap] \<open>u = t\<close> by simp
  moreover have plan: "same_plan s t" using plan_append_global [OF ap] \<open>u = t\<close> by simp
  moreover have "retained (el_keep_runs el) R t"
    by (rule retained_frame [OF assms(2)])
      (use nodes plan assms(2) events_not_runs in \<open>auto simp: same_nodes_def same_plan_def retained_def\<close>)
  ultimately show ?thesis using None append_global_keep [OF ap] by simp
next
  case (Some r)
  obtain y where ap: "append_run el r (item_text item @ [newline]) s = (y, t)" and "el1 = el"
    using assms(1) Some by (auto simp: append_event_def event_line_text split: prod.splits sum.splits)
  with append_run_frame [OF ap assms(2)] assms(3) Some show ?thesis by auto
qed

lemma run_state_same:
  "run_state rid ls s \<Longrightarrow> same_plan s t \<Longrightarrow> map_of (fs_nodes t) rid = map_of (fs_nodes s) rid \<Longrightarrow> run_state rid ls t"
  by (auto simp: run_state_def same_plan_def faultless_def is_run_dir_def run_file_def run_files_def)

lemma run_state_append_retained:
  assumes "run_state rid ls s" and "rid \<notin> {EVENTS, EVENTS_1}" and "append_event item el s = (x, el1, t)"
    and "retained (el_keep_runs el) R s" and "run_id_of (event_data item) \<in> insert None (Some ` R)"
  shows "run_state rid (if of_run rid item then ls @ [item_text item] else ls) t"
proof (cases "of_run rid item")
  case True
  with run_state_append [OF assms(1,2) _ assms(3)] show ?thesis by simp
next
  case False
  have "map_of (fs_nodes t) rid = map_of (fs_nodes s) rid"
    using append_event_retained [OF assms(3-5)] assms(2) False
    by (cases "run_id_of (event_data item)") (auto simp: same_nodes_def)
  with append_event_retained [OF assms(3-5)] assms(1) False show ?thesis
    by (auto intro: run_state_same)
qed

lemma run_state_appends_retained:
  assumes "run_state rid ls s" and "rid \<notin> {EVENTS, EVENTS_1}" and "append_events items el s = (el1, t)"
    and "retained (el_keep_runs el) R s"
    and "\<forall>item \<in> set items. run_id_of (event_data item) \<in> insert None (Some ` R)"
  shows "run_state rid (ls @ map item_text (filter (of_run rid) items)) t"
  using assms
proof (induction items arbitrary: ls el s)
  case (Cons item items)
  obtain x el2 u where ap: "append_event item el s = (x, el2, u)" by (metis prod_cases3)
  have run: "run_id_of (event_data item) \<in> insert None (Some ` R)" using Cons.prems(5) by simp
  note step = run_state_append_retained [OF Cons.prems(1,2) ap Cons.prems(4) run]
  have "retained (el_keep_runs el2) R u" using append_event_retained [OF ap Cons.prems(4) run] by simp
  from Cons.IH [OF step Cons.prems(2) _ this] Cons.prems(3,5) ap show ?case by (auto split: if_splits)
qed simp

text \<open>
  The events are of one run or of none, or the retention keeps every run there is: those that
  already have a directory and those the events are of.
\<close>

definition runs_involved :: "data list \<Rightarrow> fs \<Rightarrow> string set" where
  "runs_involved items s =
     set (run_dirs s) \<union> (\<Union>item \<in> set items. set_option (run_id_of (event_data item)))"

definition nothing_pruned :: "string \<Rightarrow> data list \<Rightarrow> int \<Rightarrow> fs \<Rightarrow> bool" where
  "nothing_pruned rid items keep s \<longleftrightarrow>
     (\<forall>item \<in> set items. run_id_of (event_data item) \<in> {None, Some rid}) \<or>
     wf_fs s \<and> card {r \<in> runs_involved items s. is_run_id r} \<le> nat (max 1 keep)"

lemma run_state_history:
  assumes "run_state rid [] s" and "rid \<notin> {EVENTS, EVENTS_1}" and "append_events items el s = (el1, t)"
    and "nothing_pruned rid items (el_keep_runs el) s"
  shows "run_state rid (map item_text (filter (of_run rid) items)) t"
proof (cases "\<forall>item \<in> set items. run_id_of (event_data item) \<in> {None, Some rid}")
  case True
  with run_state_appends [OF assms(1,2) _ assms(3)] show ?thesis by simp
next
  case False
  with assms(4) have "retained (el_keep_runs el) (runs_involved items s) s"
    by (auto simp: nothing_pruned_def retained_def runs_involved_def)
  moreover have "run_id_of (event_data item) \<in> insert None (Some ` runs_involved items s)" if "item \<in> set items" for item
    using that by (cases "run_id_of (event_data item)") (force simp: runs_involved_def)+
  ultimately show ?thesis using run_state_appends_retained [OF assms(1-3)] by simp
qed

text \<open>
  A run's history survives.  After any sequence of events, appended without faults to a trace root
  that has no directory of the run yet, reading the history of the run gives its events, redacted,
  each once and in the order they were emitted, or nothing if there was none; global events,
  rotation and other runs do not matter as long as the retention keeps every run.  The items need
  well-formed text.
\<close>

theorem run_history_roundtrip:
  assumes "faultless s" and "map_of (fs_nodes s) rid = None"
    and "RUN_SEGMENT rid" and "rid \<notin> {''.'', ''..'', EVENTS, EVENTS_1}"
    and "\<forall>item \<in> set items. storable js item" and "nothing_pruned rid items (el_keep_runs el) s"
    and "resolve_trace_root homes trace_root = Inr path"
    and "append_events items el s = (el2, t)"
  shows "fst (read_run_events homes js trace_root rid t) =
    (let mine = filter (of_run rid) items in
     Inr (if mine = [] then None else Some (map read_back mine)))"
proof -
  let ?mine = "filter (of_run rid) items"
  have "run_state rid (map item_text ?mine) t"
    using assms by (intro run_state_history [OF _ _ assms(8)]) (auto simp: run_state_def)
  then have state: "faultless t" "if ?mine = [] then map_of (fs_nodes t) rid = None
      else is_run_dir rid t \<and> run_file rid EVENTS t = Some (lines_text (map item_text ?mine))"
    by (auto simp: run_state_def filter_empty_conv)
  have read: "splitlines (lines_text (map item_text ?mine)) = map item_text ?mine"
    "parse_lines js (map item_text ?mine) = Inr (map read_back ?mine)"
    using assms(5) by (auto intro!: splitlines_text parse_lines_text printable_item_text storable_printable)
  show ?thesis
  proof (cases "?mine = []")
    case True
    with state assms(3,4,7) show ?thesis
      by (simp add: read_run_events_def io_bind_def io_lift_def io_return_def run_is_file_def
          faultless_syscall run_file_def run_files_def)
  next
    case False
    with state read assms(3,4,7) show ?thesis
      by (simp add: read_run_events_def io_bind_def io_lift_def io_return_def run_is_file_def
          read_run_file_def io_catch_def faultless_syscall Let_def)
  qed
qed

section \<open>The global tail\<close>

text \<open>
  The state of the pair of global files after the lines \<open>ls\<close>: the older lines are gone, the
  previous generation holds the lines \<open>p\<close>, the current file the lines \<open>c\<close>; lines are dropped
  only when the previous generation is full, and neither file exceeds the limit by more than one
  line of at most \<open>B\<close> bytes.
\<close>

definition held_file :: "string list \<Rightarrow> node option" where
  "held_file ls = (if ls = [] then None else Some (File (lines_text ls)))"

definition tail_state :: "int \<Rightarrow> int \<Rightarrow> string list \<Rightarrow> string list \<Rightarrow> string list \<Rightarrow> event_log \<Rightarrow> fs \<Rightarrow> bool"
where
  "tail_state M B pre p c el s \<longleftrightarrow>
     faultless s \<and> el_max_bytes el = M \<and>
     map_of (fs_nodes s) EVENTS_1 = held_file p \<and> map_of (fs_nodes s) EVENTS = held_file c \<and>
     el_global_size el = (if c = [] then None else Some (int (length (lines_text c)))) \<and>
     (c = [] \<longrightarrow> p = []) \<and> (pre \<noteq> [] \<longrightarrow> M \<le> int (length (lines_text p))) \<and>
     int (length (lines_text p)) \<le> max 0 M + B \<and> int (length (lines_text c)) \<le> max 0 M + B"

lemma names_differ [simp]: "EVENTS \<noteq> EVENTS_1" "EVENTS_1 \<noteq> EVENTS"
  by (simp_all add: EVENTS_def EVENTS_1_def)

lemma append_file_faultless:
  "faultless s \<Longrightarrow> map_of (fs_nodes s) EVENTS = held_file c \<Longrightarrow>
   \<exists>t. io_bind mkdir_root (\<lambda>_. append_file EVENTS (l @ [newline])) s = (Inr (), t) \<and> faultless t \<and>
     map_of (fs_nodes t) EVENTS = held_file (c @ [l]) \<and>
     map_of (fs_nodes t) EVENTS_1 = map_of (fs_nodes s) EVENTS_1"
  by (auto simp: io_bind_def mkdir_root_def append_file_def open_append_def write_text_def
      faultless_syscall add_text_def put_node_def file_content_def held_file_def faultless_def)

text \<open>Before the write: the size of the current file, or a rotation.\<close>

lemma rotate_faultless:
  assumes "tail_state M B pre p c el s"
  shows "\<exists>t p2 c2. io_bind (global_size el) (rotate el) s = (Inr (int (length (lines_text c2))), t) \<and>
    faultless t \<and> map_of (fs_nodes t) EVENTS_1 = held_file p2 \<and>
    map_of (fs_nodes t) EVENTS = held_file c2 \<and>
    (p2 = p \<and> c2 = c \<and> int (length (lines_text c)) < max 1 M \<or>
     p2 = c \<and> c2 = [] \<and> c \<noteq> [] \<and> M \<le> int (length (lines_text c)))"
proof (cases "c = []")
  case True
  define t where "t = (if 0 \<ge> M then s\<lparr>fs_tick := Suc (Suc (fs_tick s))\<rparr> else s\<lparr>fs_tick := Suc (fs_tick s)\<rparr>)"
  have "io_bind (global_size el) (rotate el) s = (Inr 0, t)"
    using True assms
    by (auto simp: tail_state_def io_bind_def global_size_def rotate_def io_catch_def stat_size_def
        replace_file_def io_return_def faultless_syscall held_file_def t_def)
  with True assms show ?thesis
    by (intro exI [of _ t] exI [of _ p] exI [of _ c])
      (auto simp: tail_state_def t_def faultless_def)
next
  case False
  let ?n = "int (length (lines_text c))"
  have size: "global_size el s = (Inr ?n, s)"
    using False assms by (simp add: tail_state_def global_size_def io_return_def)
  show ?thesis
  proof (cases "M \<le> ?n")
    case True
    let ?t = "put_node EVENTS_1 (File (lines_text c))
      (s\<lparr>fs_tick := Suc (fs_tick s), fs_nodes := remove_key EVENTS (fs_nodes s)\<rparr>)"
    have "rotate el ?n s = (Inr 0, ?t)"
      using False True assms
      by (auto simp: tail_state_def io_bind_def rotate_def io_catch_def replace_file_def io_return_def
          faultless_syscall held_file_def split: option.splits node.splits)
    with size have "io_bind (global_size el) (rotate el) s = (Inr (int (length (lines_text []))), ?t)"
      by (simp add: io_bind_def)
    moreover have "faultless ?t \<and> map_of (fs_nodes ?t) EVENTS_1 = held_file c \<and>
        map_of (fs_nodes ?t) EVENTS = held_file []"
      using assms False by (auto simp: tail_state_def faultless_def put_node_def held_file_def)
    ultimately show ?thesis using False True by blast
  next
    case room: False
    have "rotate el ?n s = (Inr ?n, s)"
      using room assms by (simp add: tail_state_def rotate_def io_return_def)
    with size room assms show ?thesis
      by (intro exI [of _ s] exI [of _ p] exI [of _ c]) (auto simp: tail_state_def io_bind_def)
  qed
qed

lemma tail_state_append:
  assumes "tail_state M B pre p c el s" and "int (length l) + 1 \<le> B"
    and "append_global (l @ [newline]) el s = (r, el1, t)"
  shows "\<exists>pre2 p2 c2. pre2 @ p2 @ c2 = pre @ p @ c @ [l] \<and> tail_state M B pre2 p2 c2 el1 t"
proof -
  from rotate_faultless [OF assms(1)] obtain u p2 c2 where
    rot: "io_bind (global_size el) (rotate el) s = (Inr (int (length (lines_text c2))), u)"
    and u: "faultless u" "map_of (fs_nodes u) EVENTS_1 = held_file p2"
      "map_of (fs_nodes u) EVENTS = held_file c2"
    and which: "p2 = p \<and> c2 = c \<and> int (length (lines_text c)) < max 1 M \<or>
      p2 = c \<and> c2 = [] \<and> c \<noteq> [] \<and> M \<le> int (length (lines_text c))"
    by blast
  from append_file_faultless [OF u(1,3), of l] obtain v where
    ap: "io_bind mkdir_root (\<lambda>_. append_file EVENTS (l @ [newline])) u = (Inr (), v)"
    and v: "faultless v" "map_of (fs_nodes v) EVENTS = held_file (c2 @ [l])"
      "map_of (fs_nodes v) EVENTS_1 = held_file p2" using u(2) by auto
  have "v = t" and el1: "el1 = el\<lparr>el_global_size := Some (int (length (lines_text (c2 @ [l]))))\<rparr>"
    using assms(3) rot ap by (auto simp: append_global_def)
  have bounds: "int (length (lines_text p2)) \<le> max 0 M + B"
    "int (length (lines_text (c2 @ [l]))) \<le> max 0 M + B"
    using which assms(1,2) by (auto simp: tail_state_def)
  from which show ?thesis
  proof
    assume "p2 = p \<and> c2 = c \<and> int (length (lines_text c)) < max 1 M"
    with bounds v \<open>v = t\<close> el1 assms(1) show ?thesis
      by (intro exI [of _ pre] exI [of _ p] exI [of _ "c @ [l]"]) (simp add: tail_state_def)
  next
    assume rotated: "p2 = c \<and> c2 = [] \<and> c \<noteq> [] \<and> M \<le> int (length (lines_text c))"
    with bounds v \<open>v = t\<close> el1 assms(1) show ?thesis
      by (intro exI [of _ "pre @ p"] exI [of _ c] exI [of _ "[l]"]) (simp add: tail_state_def)
  qed
qed

text \<open>Events of runs go to their own files, and leave the pair alone.\<close>

abbreviation of_no_run :: "data \<Rightarrow> bool" where
  "of_no_run item \<equiv> run_id_of (event_data item) = None"

lemma nodes_append_run_pair:
  "rid \<notin> {EVENTS, EVENTS_1} \<Longrightarrow> append_run el rid line s = (r, t) \<Longrightarrow>
   map_of (fs_nodes t) EVENTS = map_of (fs_nodes s) EVENTS \<and>
   map_of (fs_nodes t) EVENTS_1 = map_of (fs_nodes s) EVENTS_1"
  using keepsD [OF nodes_append_run [of EVENTS rid]] keepsD [OF nodes_append_run [of EVENTS_1 rid]]
  by (fastforce simp: same_nodes_def)

lemma plan_append_run: "keeps same_plan (append_run el rid line)"
  unfolding append_run_def
  by (intro plan.keeps_bind plan.keeps_reads plan.keeps_if plan.keeps_return plan_mkdir_run
      plan_run_file plan_prune_runs)

lemma tail_state_run:
  assumes "tail_state M B pre p c el s" and "run_id_of (event_data item) = Some rid"
    and "rid \<notin> {EVENTS, EVENTS_1}" and "append_event item el s = (r, el1, t)"
  shows "tail_state M B pre p c el1 t"
proof -
  obtain y where ap: "append_run el rid (item_text item @ [newline]) s = (y, t)" and "el1 = el"
    using assms(2,4) by (auto simp: append_event_def event_line_text split: prod.splits sum.splits)
  with nodes_append_run_pair [OF assms(3) ap] keepsD [OF plan_append_run ap] assms(1) show ?thesis
    by (auto simp: tail_state_def intro: faultless_plan)
qed

lemma tail_state_event:
  assumes "tail_state M B pre p c el s" and "append_event item el s = (r, el1, t)"
    and "run_id_of (event_data item) \<notin> {Some EVENTS, Some EVENTS_1}"
    and "of_no_run item \<longrightarrow> int (length (item_text item)) + 1 \<le> B"
  shows "\<exists>pre2 p2 c2. pre2 @ p2 @ c2 = pre @ p @ c @ (if of_no_run item then [item_text item] else []) \<and>
    tail_state M B pre2 p2 c2 el1 t"
proof (cases "run_id_of (event_data item)")
  case None
  with assms(2) obtain x where ap: "append_global (item_text item @ [newline]) el s = (x, el1, t)"
    by (auto simp: append_event_def event_line_text split: prod.splits sum.splits)
  from tail_state_append [OF assms(1) _ this] assms(4) None show ?thesis by simp
next
  case (Some rid)
  with tail_state_run [OF assms(1) Some _ assms(2)] assms(3) show ?thesis
    by (intro exI [of _ pre] exI [of _ p] exI [of _ c]) auto
qed

lemma tail_state_appends:
  assumes "tail_state M B pre p c el s"
    and "\<forall>item \<in> set items. run_id_of (event_data item) \<notin> {Some EVENTS, Some EVENTS_1} \<and>
      (of_no_run item \<longrightarrow> int (length (item_text item)) + 1 \<le> B)"
    and "append_events items el s = (el1, t)"
  shows "\<exists>pre2 p2 c2. pre2 @ p2 @ c2 = pre @ p @ c @ map item_text (filter of_no_run items) \<and>
    tail_state M B pre2 p2 c2 el1 t"
  using assms
proof (induction items arbitrary: pre p c el s)
  case Nil
  then show ?case by auto
next
  case (Cons item items)
  obtain r el2 u where ap: "append_event item el s = (r, el2, u)" by (metis prod_cases3)
  from tail_state_event [OF Cons.prems(1) ap] Cons.prems(2) obtain pre2 p2 c2 where
    step: "pre2 @ p2 @ c2 = pre @ p @ c @ (if of_no_run item then [item_text item] else [])"
      "tail_state M B pre2 p2 c2 el2 u" by auto
  have "append_events items el2 u = (el1, t)" using Cons.prems(3) ap by simp
  from Cons.IH [OF step(2) _ this] Cons.prems(2) obtain pre3 p3 c3 where
    rest: "pre3 @ p3 @ c3 = (pre2 @ p2 @ c2) @ map item_text (filter of_no_run items)"
      "tail_state M B pre3 p3 c3 el1 t"
    by auto
  have "pre3 @ p3 @ c3 = pre @ p @ c @ map item_text (filter of_no_run (item # items))"
    unfolding rest(1) step(1) by simp
  with rest(2) show ?case by blast
qed

text \<open>
  C29: the global tail keeps the newest events in bounded space.  After any sequence of events, of
  runs or of none, appended without faults to a trace root that has no global file yet, the two
  files hold exactly the newest lines of the events of no run, and reading the tail gives these
  events, redacted and in order; older ones are missing only if the previous generation alone has
  reached \<open>max_bytes\<close>; and neither file exceeds \<open>max_bytes\<close> by more than one line.  (No run may
  have the name of one of the two files, and the items need well-formed text.)
\<close>

theorem global_tail_newest:
  assumes "faultless s" and "map_of (fs_nodes s) EVENTS = None" and "map_of (fs_nodes s) EVENTS_1 = None"
    and "\<forall>item \<in> set all_items. run_id_of (event_data item) \<notin> {Some EVENTS, Some EVENTS_1} \<and>
      (of_no_run item \<longrightarrow> int (length (item_text item)) + 1 \<le> B \<and> storable js item)"
    and "0 \<le> B" and "resolve_trace_root homes trace_root = Inr path"
    and "append_events all_items (EventLog keep M) s = (el2, t)"
    and "items = filter of_no_run all_items"
  shows "\<exists>k. fst (read_global_tail homes js trace_root t) = Inr (drop k (map read_back items)) \<and>
    file_content EVENTS_1 t @ file_content EVENTS t = lines_text (drop k (map item_text items)) \<and>
    (0 < k \<longrightarrow> M \<le> int (length (file_content EVENTS_1 t))) \<and>
    int (length (file_content EVENTS_1 t)) \<le> max 0 M + B \<and>
    int (length (file_content EVENTS t)) \<le> max 0 M + B"
proof -
  have "tail_state M B [] [] [] (EventLog keep M) s"
    using assms(1-3,5) by (simp add: tail_state_def held_file_def EventLog_def)
  from tail_state_appends [OF this _ assms(7)] assms(4) obtain pre p c where
    ls: "pre @ p @ c = map item_text items" and st: "tail_state M B pre p c el2 t"
    unfolding assms(8) by auto
  have storable: "\<forall>item \<in> set items. storable js item" using assms(4,8) by auto
  define k where "k = length pre"
  define ip where "ip = take (length p) (drop k items)"
  define ic where "ic = drop (length p) (drop k items)"
  have "take (length p) (drop k (map item_text items)) = p" "drop (length p) (drop k (map item_text items)) = c"
    unfolding ls [symmetric] k_def by simp_all
  then have pc: "p = map item_text ip" "c = map item_text ic"
    unfolding ip_def ic_def by (simp_all add: drop_map take_map)
  have sub: "set ip \<subseteq> set items" "set ic \<subseteq> set items"
    unfolding ip_def ic_def by (meson order_trans set_drop_subset set_take_subset)+
  have held: "io_catch (io_bind (read_file n) (\<lambda>raw. io_return (Some raw))) (io_return None) u =
      (Inr (if xs = [] then None else Some (lines_text xs)), u\<lparr>fs_tick := Suc (fs_tick u)\<rparr>)"
    if "faultless u" "map_of (fs_nodes u) n = held_file xs" for n u xs
    using that by (auto simp: io_catch_def io_bind_def io_return_def read_file_def faultless_syscall
        held_file_def)
  have parse: "parse_lines js (splitlines (lines_text (map item_text ks))) = Inr (map read_back ks)"
    if "set ks \<subseteq> set items" for ks
  proof -
    have "splitlines (lines_text (map item_text ks)) = map item_text ks"
      using that storable by (intro splitlines_text) (auto intro!: printable_item_text storable_printable)
    with that storable show ?thesis by (auto intro!: parse_lines_text)
  qed
  have "fst (read_global_tail homes js trace_root t) = Inr (map read_back ip @ map read_back ic)"
    using st assms(6) held [of t EVENTS_1 p] held [of "t\<lparr>fs_tick := Suc (fs_tick t)\<rparr>" EVENTS c]
      parse [OF sub(1)] parse [OF sub(2)] pc
    by (auto simp: tail_state_def read_global_tail_def io_bind_def io_lift_def io_return_def)
  also have "map read_back ip @ map read_back ic = drop k (map read_back items)"
    unfolding ip_def ic_def map_append [symmetric] append_take_drop_id by (simp add: drop_map)
  finally have "fst (read_global_tail homes js trace_root t) = Inr (drop k (map read_back items))" .
  moreover have "file_content EVENTS_1 t = lines_text p" "file_content EVENTS t = lines_text c"
    using st by (auto simp: tail_state_def file_content_def held_file_def)
  moreover have "p @ c = drop k (map item_text items)" unfolding ls [symmetric] k_def by simp
  moreover have "lines_text (p @ c) = lines_text p @ lines_text c" by (simp add: lines_text_def)
  ultimately show ?thesis
    using st by (intro exI [of _ k]) (auto simp: tail_state_def k_def)
qed

section \<open>The index lists every run once, newest first\<close>

lemma index_entry_id: "index_entry js d s = (Inr (Some e), t) \<Longrightarrow> re_run_id e = d"
  by (auto simp: index_entry_def io_bind_def io_return_def split: prod.splits sum.splits option.splits)

lemma index_entries_ids:
  "index_entries js ds s = (Inr es, t) \<Longrightarrow> distinct ds \<Longrightarrow>
   distinct (map re_run_id es) \<and> set (map re_run_id es) \<subseteq> set ds"
proof (induction ds arbitrary: s es)
  case Nil
  then show ?case by (simp add: io_return_def)
next
  case (Cons d ds)
  from Cons.prems(1) obtain x u xs where x: "index_entry js d s = (Inr x, u)"
    and xs: "index_entries js ds u = (Inr xs, t)" and es: "es = (case x of None \<Rightarrow> xs | Some e \<Rightarrow> e # xs)"
    by (auto simp: io_bind_def io_return_def split: prod.splits sum.splits)
  from Cons.IH [OF xs] Cons.prems(2) x es show ?case
    by (cases x) (auto dest!: index_entry_id)
qed

lemma list_runs_sorted:
  assumes "wf_fs s" and "list_runs homes js trace_root s = (Inr es, t)"
  shows "sorted (map (\<lambda>e. - re_modified_at e) es) \<and> distinct (map re_run_id es) \<and>
    (\<forall>e \<in> set es. run_file (re_run_id e) EVENTS s \<noteq> None)"
proof -
  from assms(2) obtain u l where l: "list_candidates s = (Inr l, u)"
    and rest: "(case l of None \<Rightarrow> io_return [] | Some cs \<Rightarrow>
      io_bind (index_entries js cs) (\<lambda>es. io_return (newest_first es))) u = (Inr es, t)"
    by (auto simp: list_runs_def io_bind_def io_lift_def split: prod.splits sum.splits)
  show ?thesis
  proof (cases l)
    case None
    with rest show ?thesis by (simp add: io_return_def)
  next
    case (Some cs)
    with l have cs: "cs = map fst (filter has_events (fs_nodes s))"
      by (auto simp: list_candidates_def io_catch_def io_bind_def io_return_def list_root_def
          syscall_def Let_def split: fault.splits if_splits)
    from rest Some obtain xs where xs: "index_entries js cs u = (Inr xs, t)" "es = newest_first xs"
      by (auto simp: io_bind_def io_return_def split: prod.splits sum.splits)
    have "distinct cs" using assms(1) by (simp add: cs wf_fs_def distinct_map_filter)
    from index_entries_ids [OF xs(1) this] have ids: "distinct (map re_run_id xs)"
      "set (map re_run_id xs) \<subseteq> set cs" by auto
    have "run_file d EVENTS s \<noteq> None" if d: "d \<in> set cs" for d
    proof -
      from d obtain nd where "(d, nd) \<in> set (fs_nodes s)" "has_events (d, nd)" by (auto simp: cs)
      moreover from this(1) assms(1) have "map_of (fs_nodes s) d = Some nd" by (simp add: wf_fs_def)
      ultimately show ?thesis
        by (auto simp: has_events_def run_file_def run_files_def split: node.splits)
    qed
    with ids xs(2) show ?thesis
      by (auto simp: newest_first_def distinct_map)
  qed
qed

section \<open>Redaction of the payload\<close>

fun leaf_strings :: "pyval \<Rightarrow> string list" where
  "leaf_strings (PStr s) = [s]"
| "leaf_strings (PList xs) = concat (map leaf_strings xs)"
| "leaf_strings (PDict kvs) = concat (map (\<lambda>kv. leaf_strings (snd kv)) kvs)"
| "leaf_strings v = []"

text \<open>
  Every string in the lists and dictionaries of a payload is redacted before it is written; the
  keys, and the strings inside tuples and opaque objects, are not.
\<close>

lemma leaf_strings_redacted: "leaf_strings (redact_value v) = map redact (leaf_strings v)"
proof (induction v rule: redact_value.induct)
  case (2 xs)
  then show ?case by (auto simp: map_concat intro!: arg_cong [of _ _ concat])
next
  case (3 kvs)
  have "map (\<lambda>kv. leaf_strings (snd ((\<lambda>(k, v). (k, redact_value v)) kv))) kvs =
      map (\<lambda>kv. map redact (leaf_strings (snd kv))) kvs"
    using 3 by (auto intro!: map_cong)
  then show ?case by (simp add: map_concat comp_def cong: map_cong)
qed simp_all

lemma object_not_redacted:
  "redact_value (PObj s d) = PObj s d" "redact_value (PTuple xs) = PTuple xs"
  by simp_all

section \<open>Instances\<close>

definition sample_item :: "string \<Rightarrow> data" where
  "sample_item run =
     [(''id'', PStr ''7-ab-1''), (''type'', PStr ''agent_usage''), (''ts'', PFloat ''1.5''),
      (''data'', PDict [(''run_id'', PStr run)])]"

definition empty_root :: fs where
  "empty_root = \<lparr>fs_root = False, fs_nodes = [], fs_clock = of_nat, fs_faults = (\<lambda>_. Fine), fs_tick = 0\<rparr>"

definition sample_json :: json_env where
  "sample_json = \<lparr>js_float = (\<lambda>s. s), js_depth = 100\<rparr>"

lemma sample_facts:
  "of_run ''r1'' (sample_item ''r1'')" "run_id_of (event_data (sample_item '''')) = None"
  "RUN_SEGMENT ''r1''" "''r1'' \<notin> {''.'', ''..'', EVENTS, EVENTS_1}"
  by code_simp+

lemma sample_float: "float_readable sample_json ''1.5''"
  by (simp add: float_readable_def sample_json_def number_len_def sign_len_def int_len_def frac_len_def
      exp_len_def digits_def is_digit_def code_def)

lemma sample_storable:
  assumes "utf8 False r"
  shows "storable sample_json (sample_item r)"
proof -
  have "utf8 False ''id''" "utf8 False ''type''" "utf8 False ''ts''" "utf8 False ''data''" "utf8 False ''run_id''"
    "utf8 False ''7-ab-1''" "utf8 False ''agent_usage''"
    by (simp_all add: utf8_ascii is_ascii_def code_def)
  with sample_float show ?thesis using assms by (simp add: storable_def sample_item_def sample_json_def)
qed

lemma sample_utf8: "utf8 False ''r1''" "utf8 False ''''"
  by (simp_all add: utf8_ascii is_ascii_def code_def)

lemma sample_env:
  "printable_floats (PDict (sample_item r))" "faultless empty_root" "fs_nodes empty_root = []"
  "resolve_trace_root homes '''' = Inr ''logs/runs''"
  by (simp_all add: faultless_def empty_root_def resolve_trace_root_def sample_item_def code_def)

theorem append_event_best_effort_witness:
  "map_of (fs_nodes (snd (snd (append_event (sample_item ''r1'') (EventLog 1 1) (two_runs (\<lambda>n. Broken n))))))
     EVENTS = map_of (fs_nodes (two_runs (\<lambda>n. Broken n))) EVENTS"
proof -
  obtain r el2 t where run: "append_event (sample_item ''r1'') (EventLog 1 1) (two_runs (\<lambda>n. Broken n)) = (r, el2, t)"
    by (metis prod_cases3)
  have "EVENTS \<noteq> ''r1''" "\<not> is_run_id EVENTS" by code_simp+
  with append_event_best_effort [OF run] run sample_facts(1) show ?thesis by auto
qed

theorem run_history_roundtrip_witness:
  "fst (read_run_events (\<lambda>_. None) sample_json '''' ''r1''
     (snd (append_events [sample_item ''r1''] (EventLog 1 1) empty_root))) =
   Inr (Some [read_back (sample_item ''r1'')])"
proof -
  obtain el2 t where run: "append_events [sample_item ''r1''] (EventLog 1 1) empty_root = (el2, t)"
    by fastforce
  have "map_of (fs_nodes empty_root) ''r1'' = None" by (simp add: empty_root_def)
  moreover have "nothing_pruned ''r1'' [sample_item ''r1''] (el_keep_runs (EventLog 1 1)) empty_root"
    using sample_facts(1) by (simp add: nothing_pruned_def)
  ultimately show ?thesis
    using run_history_roundtrip [OF sample_env(2) _ sample_facts(3,4) _ _ sample_env(4) run, of sample_json]
      sample_facts(1) sample_storable [OF sample_utf8(1)] run
    by (simp add: Let_def)
qed

text \<open>Two global events around one of a run, in a log with room for both.\<close>

theorem global_tail_newest_witness:
  "\<exists>M. fst (read_global_tail (\<lambda>_. None) sample_json ''''
      (snd (append_events [sample_item '''', sample_item ''r1'', sample_item ''''] (EventLog 1 M) empty_root))) =
    Inr [read_back (sample_item ''''), read_back (sample_item '''')]"
proof -
  let ?g = "sample_item ''''" and ?all = "[sample_item '''', sample_item ''r1'', sample_item '''']"
  let ?B = "int (length (item_text ?g)) + 1" and ?M = "int (length (lines_text [item_text ?g, item_text ?g])) + 1"
  obtain el2 t where run: "append_events ?all (EventLog 1 ?M) empty_root = (el2, t)" by fastforce
  have names: "''r1'' \<noteq> EVENTS" "''r1'' \<noteq> EVENTS_1" by code_simp+
  have items: "[?g, ?g] = filter of_no_run ?all" using sample_facts(1,2) by simp
  have "\<forall>item \<in> set ?all. run_id_of (event_data item) \<notin> {Some EVENTS, Some EVENTS_1} \<and>
      (of_no_run item \<longrightarrow> int (length (item_text item)) + 1 \<le> ?B \<and> storable sample_json item)"
    using sample_facts(1,2) names sample_storable [OF sample_utf8(2)] by simp
  from global_tail_newest [OF sample_env(2) _ _ this _ sample_env(4) run items] obtain k where
      k: "fst (read_global_tail (\<lambda>_. None) sample_json '''' t) = Inr (drop k (map read_back [?g, ?g]))"
        "file_content EVENTS_1 t @ file_content EVENTS t = lines_text (drop k (map item_text [?g, ?g]))"
        "0 < k \<longrightarrow> ?M \<le> int (length (file_content EVENTS_1 t))"
    by (auto simp: empty_root_def)
  have "length (lines_text (drop k (map item_text [?g, ?g]))) \<le> length (lines_text [item_text ?g, item_text ?g])"
    by (cases k; cases "k - 1") (auto simp: drop_Cons')
  then have "length (file_content EVENTS_1 t) \<le> length (lines_text [item_text ?g, item_text ?g])"
    unfolding k(2) [symmetric] by simp
  with k(3) have "k = 0" by linarith
  with k(1) run show ?thesis by (intro exI [of _ ?M]) simp
qed

end
