(* ===== verification/Event_Table.thy ===== *)
theory Event_Table
  imports Event_Store
begin

text \<open>
  The dashboard contract: the table of stable event names in the header of \<open>app.py\<close>, with the keys
  of the data of each type.  Two types have two forms.
\<close>

definition EVENT_TABLE :: "(string \<times> string list list) list" where
  "EVENT_TABLE =
     [(''webhook_received'', [[''delivery_id'', ''event'', ''action'', ''repo'']]),
      (''webhook_filtered'', [[''delivery_id'', ''event'', ''action'', ''reason'']]),
      (''webhook_accepted'', [[''delivery_id'', ''event'', ''action'', ''repo'', ''sender'', ''label'']]),
      (''prompt_queued'', [[''id'', ''delivery_id'', ''repo'', ''event'', ''action'', ''label'']]),
      (''prompt_consumed'',
        [[''id'', ''delivery_id'', ''ok'', ''repo'', ''event'', ''action'', ''label'', ''session_id'', ''stop_reason''],
         [''id'', ''delivery_id'', ''ok'', ''error'']]),
      (''webhook_duplicate'', [[''delivery_id'', ''event'', ''action'']]),
      (''sandbox_provisioned'', [[''run_id'', ''sandbox_id'', ''container_name'', ''workspace'']]),
      (''sandbox_released'', [[''run_id'', ''sandbox_id'', ''ok'']]),
      (''user_message_chunk'', [[''run_id'', ''text'']]),
      (''agent_session_started'', [[''run_id'', ''session_id'', ''protocol_version'']]),
      (''agent_message_chunk'', [[''run_id'', ''text'']]),
      (''agent_thought_chunk'', [[''run_id'', ''text'']]),
      (''agent_tool_call'', [[''run_id'', ''tool_call_id'', ''title'', ''kind'', ''status'']]),
      (''agent_plan'', [[''run_id'', ''entries'']]),
      (''agent_plan_update'', [[''run_id'', ''plan'']]),
      (''agent_plan_removed'', [[''run_id'', ''plan_id'']]),
      (''agent_commands_update'', [[''run_id'', ''commands'']]),
      (''agent_mode_update'', [[''run_id'', ''mode_id'']]),
      (''agent_session_info'', [[''run_id'', ''title'', ''updated_at'']]),
      (''agent_config_update'', [[''run_id'', ''options'']]),
      (''agent_update'', [[''run_id'', ''kind'', ''payload'']]),
      (''agent_usage'', [[''run_id'', ''used'', ''size'', ''cost'']]),
      (''agent_permission'', [[''run_id'', ''title'', ''action'', ''reason'']]),
      (''agent_finished'',
        [[''run_id'', ''session_id'', ''stop_reason'', ''ok''],
         [''run_id'', ''session_id'', ''stop_reason'', ''ok'', ''error'']])]"

definition documented :: "string \<times> data \<Rightarrow> bool" where
  "documented ev \<longleftrightarrow>
     (case map_of EVENT_TABLE (fst ev) of
        None \<Rightarrow> False
      | Some forms \<Rightarrow> \<exists>keys \<in> set forms. distinct (map fst (snd ev)) \<and> set (map fst (snd ev)) = set keys)"

text \<open>The forms of each type.\<close>

lemma event_forms:
  "map_of EVENT_TABLE ''webhook_received'' = Some [[''delivery_id'', ''event'', ''action'', ''repo'']]"
  "map_of EVENT_TABLE ''webhook_filtered'' = Some [[''delivery_id'', ''event'', ''action'', ''reason'']]"
  "map_of EVENT_TABLE ''webhook_accepted'' =
    Some [[''delivery_id'', ''event'', ''action'', ''repo'', ''sender'', ''label'']]"
  "map_of EVENT_TABLE ''prompt_queued'' =
    Some [[''id'', ''delivery_id'', ''repo'', ''event'', ''action'', ''label'']]"
  "map_of EVENT_TABLE ''prompt_consumed'' =
    Some [[''id'', ''delivery_id'', ''ok'', ''repo'', ''event'', ''action'', ''label'', ''session_id'', ''stop_reason''], [''id'', ''delivery_id'', ''ok'', ''error'']]"
  "map_of EVENT_TABLE ''webhook_duplicate'' = Some [[''delivery_id'', ''event'', ''action'']]"
  "map_of EVENT_TABLE ''sandbox_provisioned'' =
    Some [[''run_id'', ''sandbox_id'', ''container_name'', ''workspace'']]"
  "map_of EVENT_TABLE ''sandbox_released'' = Some [[''run_id'', ''sandbox_id'', ''ok'']]"
  "map_of EVENT_TABLE ''user_message_chunk'' = Some [[''run_id'', ''text'']]"
  "map_of EVENT_TABLE ''agent_session_started'' = Some [[''run_id'', ''session_id'', ''protocol_version'']]"
  "map_of EVENT_TABLE ''agent_message_chunk'' = Some [[''run_id'', ''text'']]"
  "map_of EVENT_TABLE ''agent_thought_chunk'' = Some [[''run_id'', ''text'']]"
  "map_of EVENT_TABLE ''agent_tool_call'' =
    Some [[''run_id'', ''tool_call_id'', ''title'', ''kind'', ''status'']]"
  "map_of EVENT_TABLE ''agent_plan'' = Some [[''run_id'', ''entries'']]"
  "map_of EVENT_TABLE ''agent_plan_update'' = Some [[''run_id'', ''plan'']]"
  "map_of EVENT_TABLE ''agent_plan_removed'' = Some [[''run_id'', ''plan_id'']]"
  "map_of EVENT_TABLE ''agent_commands_update'' = Some [[''run_id'', ''commands'']]"
  "map_of EVENT_TABLE ''agent_mode_update'' = Some [[''run_id'', ''mode_id'']]"
  "map_of EVENT_TABLE ''agent_session_info'' = Some [[''run_id'', ''title'', ''updated_at'']]"
  "map_of EVENT_TABLE ''agent_config_update'' = Some [[''run_id'', ''options'']]"
  "map_of EVENT_TABLE ''agent_update'' = Some [[''run_id'', ''kind'', ''payload'']]"
  "map_of EVENT_TABLE ''agent_usage'' = Some [[''run_id'', ''used'', ''size'', ''cost'']]"
  "map_of EVENT_TABLE ''agent_permission'' = Some [[''run_id'', ''title'', ''action'', ''reason'']]"
  "map_of EVENT_TABLE ''agent_finished'' =
    Some [[''run_id'', ''session_id'', ''stop_reason'', ''ok''], [''run_id'', ''session_id'', ''stop_reason'', ''ok'', ''error'']]"
  by (simp_all add: EVENT_TABLE_def)

lemmas documented_simps = documented_def event_forms

end
