(* ===== verification/Acp_Session.thy ===== *)
theory Acp_Session
  imports Acp_Client Event_Log Event_Table
begin

text \<open>
  \<open>AcpHost.run\<close>: one cold session from the resolution of the binary to the result.  What reaches
  the host while a session runs is a list of happenings in any order (updates, permission
  requests, lines of the harness, answers of the handshake, the end of the race, a shutdown), so
  a statement for all lists is one for all interleavings.  The state extends that of the sandbox
  bridge by the trace root, the trace, the heartbeat, the agent process and the task that drains
  its standard error.
\<close>

section \<open>State and environment\<close>

datatype proc = No_Process | Running | Exited

datatype drain = Not_Started | Draining | Ended

text \<open>How the agent is started: \<open>opencode acp\<close> with its arguments, environment and directory.\<close>

record command =
  cm_bin :: string
  cm_args :: "string list"
  cm_environ :: "(string \<times> string) list"
  cm_cwd :: string

record 'w session = "'w bridge_state" +
  ss_command :: "command option"
  ss_fs :: fs
  ss_trace :: "run_trace option"
  ss_last :: rat
  ss_proc :: proc
  ss_drain :: drain
  ss_sid :: "string option"

record host_env =
  he_bridge :: bridge_env
  he_which :: "string option"
  he_home :: string
  he_is_file :: "string \<Rightarrow> bool"
  he_workspace :: workspace_env
  he_own_config :: "string \<Rightarrow> bool pyres"
  he_write_config :: "string \<Rightarrow> string \<Rightarrow> unit pyres"
  he_homes :: "string \<Rightarrow> string option"
  he_environ :: "(string \<times> string) list"
  he_utc :: "nat \<Rightarrow> string"
  he_now :: rat
  he_regex :: regex_engine
  he_leave :: "pyexc option"    \<comment> \<open>what leaving the library's context manager raises\<close>
  he_reaped :: bool             \<comment> \<open>whether it has ended the process\<close>
  he_wait :: "unit pyres"       \<comment> \<open>waiting for the killed process\<close>
  he_drain :: "unit pyres"      \<comment> \<open>waiting for the cancelled drainer\<close>

datatype happening =
    Spawn "unit pyres"
  | Initialized "pyval pyres"
  | Opened rat "string pyres"
  | Notified rat update
  | Asked tool_call "permission_option list"
  | Stderr_Line rat string
  | Process_Exit
  | Race "string option task" "unit task"
  | Shutdown

datatype phase = Spawning | Handshake | Opening pyval | Prompting

section \<open>The session\<close>

definition record_event :: "string \<times> data \<Rightarrow> ('w, 'z) bridge_state_scheme \<Rightarrow> ('w, 'z) bridge_state_scheme" where
  "record_event ev s = s\<lparr>br_store := emit (fst ev) (snd ev) (br_store s)\<rparr>"

definition started_event :: "prompt_info \<Rightarrow> string \<Rightarrow> pyval \<Rightarrow> string \<times> data" where
  "started_event info sid version =
     (''agent_session_started'',
      [(''run_id'', PStr (pi_id info)), (''session_id'', PStr sid), (''protocol_version'', version)])"

text \<open>One line of the harness: the task that drains them ends when the trace cannot be written.\<close>

definition drain_line :: "rat \<Rightarrow> string \<Rightarrow> 'w session \<Rightarrow> 'w session" where
  "drain_line now line s =
     (if ss_drain s \<noteq> Draining then s
      else
        (let s1 = s\<lparr>ss_last := now\<rparr>; txt = redact (py_rstrip line) in
         case ss_trace s1 of
           None \<Rightarrow> s1
         | Some tr \<Rightarrow>
             (case trace_write txt tr (ss_fs s1) of
                (r, tr1, fs1) \<Rightarrow>
                  s1\<lparr>ss_trace := Some tr1, ss_fs := fs1,
                     ss_drain := (if is_ok r then Draining else Ended)\<rparr>)))"

definition happen ::
  "host_env \<Rightarrow> settings \<Rightarrow> command \<Rightarrow> prompt_info \<Rightarrow> phase \<Rightarrow> happening \<Rightarrow> 'w session \<Rightarrow>
   (phase + string option pyres) \<times> 'w session"
where
  "happen env st cmd info ph h s =
     (case h of
        Shutdown \<Rightarrow> (Inr (Inl (PyExc CancelledError '''')), s)
      | Spawn r \<Rightarrow>
          if ph \<noteq> Spawning then (Inl ph, s)
          else (case r of
                  Inl e \<Rightarrow> (Inr (Inl e), s)
                | Inr _ \<Rightarrow> (Inl Handshake, s\<lparr>ss_command := Some cmd, ss_proc := Running, ss_drain := Draining\<rparr>))
      | Initialized r \<Rightarrow>
          if ph \<noteq> Handshake then (Inl ph, s)
          else (case r of Inl e \<Rightarrow> (Inr (Inl e), s) | Inr version \<Rightarrow> (Inl (Opening version), s))
      | Opened now r \<Rightarrow>
          (case ph of
             Opening version \<Rightarrow>
               (case r of
                  Inl e \<Rightarrow> (Inr (Inl e), s)
                | Inr sid \<Rightarrow>
                    (Inl Prompting,
                     (record_event (started_event info sid version) (s\<lparr>ss_sid := Some sid\<rparr>))
                       \<lparr>ss_last := now\<rparr>))
           | _ \<Rightarrow> (Inl ph, s))
      | Race p w \<Rightarrow>
          if ph \<noteq> Prompting \<or> (p = Pending \<and> w = Pending) then (Inl ph, s)
          else (Inr (resolve_prompt_race p w), s)
      | Notified now u \<Rightarrow>
          if ph = Spawning then (Inl ph, s)
          else (Inl ph, (record_event (update_event (pi_id info) u) s)\<lparr>ss_last := now\<rparr>)
      | Asked tc opts \<Rightarrow>
          if ph = Spawning then (Inl ph, s)
          else (Inl ph, record_event
                 (permission_event (pi_id info) tc (decide (he_regex env) tc st)) s)
      | Stderr_Line now line \<Rightarrow> (Inl ph, drain_line now line s)
      | Process_Exit \<Rightarrow>
          (Inl ph, if ss_proc s = Running then s\<lparr>ss_proc := Exited\<rparr> else s))"

text \<open>The body of the \<open>try\<close>; \<open>None\<close>: it is still waiting when the happenings end.\<close>

fun drive ::
  "host_env \<Rightarrow> settings \<Rightarrow> command \<Rightarrow> prompt_info \<Rightarrow> phase \<Rightarrow> happening list \<Rightarrow> 'w session \<Rightarrow>
   (string option pyres \<times> 'w session) option"
where
  "drive env st cmd info ph [] s = None"
| "drive env st cmd info ph (h # hs) s =
     (case happen env st cmd info ph h s of
        (Inl ph1, s1) \<Rightarrow> drive env st cmd info ph1 hs s1
      | (Inr r, s1) \<Rightarrow> Some (r, s1))"

text \<open>Leaving \<open>async with spawn_agent_process\<close>.\<close>

definition leave :: "host_env \<Rightarrow> string option pyres \<Rightarrow> 'w session \<Rightarrow> string option pyres \<times> 'w session" where
  "leave env r s =
     (if ss_proc s = No_Process then (r, s)
      else (case he_leave env of None \<Rightarrow> r | Some e \<Rightarrow> Inl e,
            if he_reaped env then s\<lparr>ss_proc := Exited\<rparr> else s))"

section \<open>The end of a session\<close>

definition run_error :: "settings \<Rightarrow> pyexc \<Rightarrow> string" where
  "run_error st e =
     (if is_timeout e
      then (if exc_str e \<noteq> '''' then exc_str e
            else ''acp handshake step timed out (limit '' @ fmt0 (st_acp_step_timeout st) @ ''s)'')
      else exc_name (exc_of e) @ '': '' @ exc_str e)"

definition failed_event :: "prompt_info \<Rightarrow> string option \<Rightarrow> string \<Rightarrow> string \<times> data" where
  "failed_event info sid error =
     (''agent_finished'',
      [(''run_id'', PStr (pi_id info)), (''session_id'', option_str sid), (''stop_reason'', PNone),
       (''ok'', PBool False), (''error'', PStr error)])"

definition succeeded_event :: "prompt_info \<Rightarrow> string option \<Rightarrow> string option \<Rightarrow> string \<times> data" where
  "succeeded_event info sid stop =
     (''agent_finished'',
      [(''run_id'', PStr (pi_id info)), (''session_id'', option_str sid),
       (''stop_reason'', option_str stop), (''ok'', PBool True)])"

definition finish_trace :: "host_env \<Rightarrow> data \<Rightarrow> ('w session, unit) action" where
  "finish_trace env kvs s =
     (case ss_trace s of
        None \<Rightarrow> (Inr (), s)
      | Some tr \<Rightarrow>
          (case trace_finish kvs (he_utc env 1) tr (ss_fs s) of
             (r, tr1, fs1) \<Rightarrow> (r, s\<lparr>ss_trace := Some tr1, ss_fs := fs1\<rparr>)))"

text \<open>The two \<open>except\<close> clauses.\<close>

definition settle ::
  "host_env \<Rightarrow> settings \<Rightarrow> prompt_info \<Rightarrow> string option pyres \<Rightarrow> 'w session \<Rightarrow> string option pyres \<times> 'w session"
where
  "settle env st info r s =
     (case r of
        Inr stop \<Rightarrow> (Inr stop, s)
      | Inl e \<Rightarrow>
          if \<not> is_exception e then (Inl e, s)
          else
            (let err = run_error st e in
             case finish_trace env
                    [(''ok'', PBool False), (''error'', PStr err), (''session_id'', option_str (ss_sid s))]
                    (record_event (failed_event info (ss_sid s) err) s) of
               (Inl e2, t) \<Rightarrow> (Inl e2, t)
             | (Inr _, t) \<Rightarrow>
                 (host_error (''acp session failed for delivery '' @ pi_delivery_id info @ '': '' @ err), t)))"

definition close_trace :: "('w session, unit) action" where
  "close_trace s =
     (case ss_trace s of
        None \<Rightarrow> (Inr (), s)
      | Some tr \<Rightarrow>
          (case trace_close tr (ss_fs s) of
             (r, tr1, fs1) \<Rightarrow> (r, s\<lparr>ss_trace := Some tr1, ss_fs := fs1\<rparr>)))"

definition kill_process :: "host_env \<Rightarrow> ('w session, unit) action" where
  "kill_process env s =
     (if ss_proc s \<noteq> Running then (Inr (), s)
      else (case he_wait env of
              Inl e \<Rightarrow> if is_exception e then Inr () else Inl e
            | Inr _ \<Rightarrow> Inr (), s\<lparr>ss_proc := Exited\<rparr>))"

definition release_sandbox :: "host_env \<Rightarrow> sandbox_workspace option \<Rightarrow> ('w session, unit) action" where
  "release_sandbox env sandbox s =
     (case sandbox of
        None \<Rightarrow> (Inr (), s)
      | Some w \<Rightarrow>
          (case release (he_bridge env) w s of
             (Inl e, t) \<Rightarrow> (if is_exception e then Inr () else Inl e, t)
           | (Inr _, t) \<Rightarrow> (Inr (), t)))"

text \<open>
  The drainer is cancelled and waited for.  Its own outcome is collected, but the wait is a point
  where a shutdown can cancel the session.
\<close>

definition stop_drainer :: "host_env \<Rightarrow> ('w session, unit) action" where
  "stop_drainer env s =
     (if ss_drain s \<noteq> Draining then (Inr (), s) else (he_drain env, s\<lparr>ss_drain := Ended\<rparr>))"

text \<open>The \<open>finally\<close> block: an exception in it skips the rest and replaces the outcome.\<close>

definition cleanup :: "host_env \<Rightarrow> sandbox_workspace option \<Rightarrow> ('w session, unit) action" where
  "cleanup env sandbox s =
     io_bind (stop_drainer env) (\<lambda>_. io_bind close_trace (\<lambda>_.
       io_bind (kill_process env) (\<lambda>_. release_sandbox env sandbox))) s"

text \<open>After the \<open>try\<close> statement: the success is recorded and the manifest completed.\<close>

definition conclude ::
  "host_env \<Rightarrow> prompt_info \<Rightarrow> string \<Rightarrow> string option \<Rightarrow> ('w session, acp_run_result) action"
where
  "conclude env info workspace stop s =
     (case finish_trace env
             [(''ok'', PBool True), (''stop_reason'', PStr (text_or stop '''')),
              (''session_id'', option_str (ss_sid s))]
             (record_event (succeeded_event info (ss_sid s) stop) s) of
        (Inl e, t) \<Rightarrow> (Inl e, t)
      | (Inr _, t) \<Rightarrow>
          (Inr \<lparr>rr_session_id = text_or (ss_sid s) '''', rr_stop_reason = text_or stop '''',
                rr_workspace = workspace\<rparr>, t))"

text \<open>
  The agent gets the whole environment of the service but for the secret of the webhook.
\<close>

definition agent_command :: "host_env \<Rightarrow> settings \<Rightarrow> string \<Rightarrow> string \<Rightarrow> command" where
  "agent_command env st bin workspace =
     \<lparr>cm_bin = bin,
      cm_args = ''acp'' # (if st_acp_trace_enabled st
        then [''--print-logs'', ''--log-level'', py_lower (st_acp_harness_log_level st)] else []),
      cm_environ = filter (\<lambda>(k, _). k \<noteq> ''OS_WEBHOOK_SECRET'') (he_environ env),
      cm_cwd = workspace\<rparr>"

definition run_session ::
  "host_env \<Rightarrow> settings \<Rightarrow> prompt_info \<Rightarrow> string \<Rightarrow> string \<Rightarrow> sandbox_workspace option \<Rightarrow> happening list \<Rightarrow>
   'w session \<Rightarrow> (acp_run_result pyres \<times> 'w session) option"
where
  "run_session env st info bin workspace sandbox script s =
     (case drive env st (agent_command env st bin workspace) info Spawning script s of
        None \<Rightarrow> None
      | Some (r, s1) \<Rightarrow>
          (case leave env r s1 of (r2, s2) \<Rightarrow>
          (case settle env st info r2 s2 of (r3, s3) \<Rightarrow>
          (case cleanup env sandbox s3 of
             (Inl e, t) \<Rightarrow> Some (Inl e, t)
           | (Inr _, t) \<Rightarrow>
               Some (case r3 of Inl e \<Rightarrow> (Inl e, t) | Inr stop \<Rightarrow> conclude env info workspace stop t)))))"

section \<open>The run\<close>

definition fresh_session :: "host_env \<Rightarrow> run_trace option \<Rightarrow> fs \<Rightarrow> 'w session \<Rightarrow> 'w session" where
  "fresh_session env trace f s =
     s\<lparr>ss_fs := f, ss_trace := trace, ss_last := he_now env, ss_proc := No_Process,
       ss_drain := Not_Started, ss_sid := None, ss_command := None\<rparr>"

definition run_in_workspace ::
  "host_env \<Rightarrow> settings \<Rightarrow> prompt_info \<Rightarrow> string \<Rightarrow> string \<Rightarrow> sandbox_workspace option \<Rightarrow> happening list \<Rightarrow>
   'w session \<Rightarrow> (acp_run_result pyres \<times> 'w session) option"
where
  "run_in_workspace env st info bin workspace sandbox script s =
     (case write_deny_config st (he_own_config env workspace) (he_write_config env workspace) of
        Inl e \<Rightarrow> Some (Inl e, s)
      | Inr _ \<Rightarrow>
          if \<not> st_acp_trace_enabled st
          then run_session env st info bin workspace sandbox script (fresh_session env None (ss_fs s) s)
          else
            (case open_run_trace (he_homes env) (he_utc env 0) (st_acp_trace_root st)
                    (st_acp_trace_keep_runs st) info workspace (ss_fs s) of
               (Inl e, f) \<Rightarrow> Some (Inl e, s\<lparr>ss_fs := f\<rparr>)
             | (Inr trace, f) \<Rightarrow>
                 run_session env st info bin workspace sandbox script (fresh_session env trace f s)))"

definition run ::
  "host_env \<Rightarrow> settings \<Rightarrow> bool \<Rightarrow> prompt_info \<Rightarrow> happening list \<Rightarrow> 'w session \<Rightarrow>
   (acp_run_result pyres \<times> 'w session) option"
where
  "run env st bridged info script s =
     (case resolve_opencode_bin st (he_which env) (he_home env) (he_is_file env) of
        Inl e \<Rightarrow> Some (Inl e, s)
      | Inr bin \<Rightarrow>
          if bridged then
            (case prepare (he_bridge env) st info s of
               None \<Rightarrow> None
             | Some (Inl e, t) \<Rightarrow>
                 Some (if is_exception e
                       then host_error (''sandbox workspace failed for delivery '' @ pi_delivery_id info
                              @ '': '' @ exc_str e)
                       else Inl e, t)
             | Some (Inr w, t) \<Rightarrow> run_in_workspace env st info bin (sw_path w) (Some w) script t)
          else
            (case prepare_workspace (he_workspace env) st info of
               Inl e \<Rightarrow> Some (Inl e, s)
             | Inr workspace \<Rightarrow> run_in_workspace env st info bin workspace None script s))"

section \<open>What a run records\<close>

text \<open>An operation that acts on the store by emitting events of which all satisfy \<open>P\<close>.\<close>

definition logs :: "(string \<times> data \<Rightarrow> bool) \<Rightarrow> ('w, 'z) bridge_state_scheme \<Rightarrow> ('w, 'y) bridge_state_scheme \<Rightarrow> bool" where
  "logs P s t \<longleftrightarrow> (\<exists>evs. br_store t = emits evs (br_store s) \<and> (\<forall>ev \<in> set evs. P ev))"

text \<open>
  The events of a session: in the table, never those of the routes or the queue, and with the
  run's id.
\<close>

definition SERVICE_EVENTS :: "string set" where
  "SERVICE_EVENTS = {''webhook_received'', ''webhook_filtered'', ''webhook_accepted'',
     ''webhook_duplicate'', ''prompt_queued'', ''prompt_consumed''}"

definition session_event :: "prompt_info \<Rightarrow> string \<times> data \<Rightarrow> bool" where
  "session_event info ev \<longleftrightarrow>
     fst ev \<notin> SERVICE_EVENTS \<and> documented ev \<and> map_of (snd ev) ''run_id'' = Some (PStr (pi_id info))"

definition quiet :: "prompt_info \<Rightarrow> string \<times> data \<Rightarrow> bool" where
  "quiet info ev \<longleftrightarrow> session_event info ev \<and> fst ev \<noteq> ''agent_finished''"

lemmas quiet_defs = quiet_def session_event_def SERVICE_EVENTS_def documented_simps

lemma logs_same: "br_store t = br_store s \<Longrightarrow> logs P s t"
  by (auto simp: logs_def intro: exI [of _ "[]"])

lemma logs_trans: "logs P s t \<Longrightarrow> logs P t u \<Longrightarrow> logs P s u"
  unfolding logs_def by (metis Un_iff emits_append set_append)

lemma logs_one: "br_store t = emit ty d (br_store s) \<Longrightarrow> P (ty, d) \<Longrightarrow> logs P s t"
  unfolding logs_def by (rule exI [of _ "[(ty, d)]"]) simp

lemma record_event_frame [simp]:
  "br_store (record_event ev s) = emit (fst ev) (snd ev) (br_store s)"
  "br_calls (record_event ev s) = br_calls s" "br_step (record_event ev s) = br_step s"
  "ss_proc (record_event ev s') = ss_proc s'" "ss_drain (record_event ev s') = ss_drain s'"
  "ss_trace (record_event ev s') = ss_trace s'" "ss_fs (record_event ev s') = ss_fs s'"
  "ss_sid (record_event ev s') = ss_sid s'"
  by (simp_all add: record_event_def)

lemma update_event_quiet: "quiet info (update_event (pi_id info) u)"
  by (auto simp: update_event_def passthrough_def Let_def CHUNK_KINDS_def quiet_defs split: pyval.split)

lemma drain_line_frame [simp]:
  "br_store (drain_line now line s) = br_store s" "br_calls (drain_line now line s) = br_calls s"
  "ss_proc (drain_line now line s) = ss_proc s"
  by (simp_all add: drain_line_def Let_def split: option.split prod.split)

lemma logs_record: "quiet info ev \<Longrightarrow> logs (quiet info) s ((record_event ev s)\<lparr>ss_last := now\<rparr>)"
  "quiet info ev \<Longrightarrow> logs (quiet info) s (record_event ev (s\<lparr>ss_sid := x\<rparr>))"
  "quiet info ev \<Longrightarrow> logs (quiet info) s ((record_event ev (s\<lparr>ss_sid := x\<rparr>))\<lparr>ss_last := now\<rparr>)"
  "quiet info ev \<Longrightarrow> logs (quiet info) s (record_event ev s)"
  by (rule logs_one [of _ "fst ev" "snd ev"]; simp)+

lemma logs_unchanged [simp]: "logs P s s" "logs P s (s\<lparr>ss_command := c, ss_proc := p, ss_drain := d\<rparr>)"
  "logs P s (drain_line now line s)" "logs P s (s\<lparr>ss_proc := p\<rparr>)"
  by (rule logs_same; simp)+

lemma session_quiet:
  "quiet info (started_event info sid version)" "quiet info (permission_event (pi_id info) tc dec)"
  by (simp_all add: started_event_def permission_event_def quiet_defs)

lemma happen_quiet: "happen env st cmd info ph h s = (x, t) \<Longrightarrow> logs (quiet info) s t"
  using update_event_quiet
  by (cases h) (auto simp: happen_def intro!: logs_record session_quiet
      split: if_splits sum.splits phase.splits)

lemma drive_quiet: "drive env st cmd info ph hs s = Some (r, t) \<Longrightarrow> logs (quiet info) s t"
proof (induction hs arbitrary: ph s)
  case (Cons h hs)
  obtain x u where h: "happen env st cmd info ph h s = (x, u)" by fastforce
  from Cons h happen_quiet [OF h] show ?case by (auto split: sum.splits intro: logs_trans)
qed simp

lemma leave_frame [simp]:
  "br_store (snd (leave env r s)) = br_store s" "br_calls (snd (leave env r s)) = br_calls s"
  "ss_trace (snd (leave env r s)) = ss_trace s" "ss_fs (snd (leave env r s)) = ss_fs s"
  by (simp_all add: leave_def)

lemma finish_trace_frame:
  "finish_trace env kvs s = (r, t) \<Longrightarrow>
   br_store t = br_store s \<and> br_calls t = br_calls s \<and> ss_proc t = ss_proc s \<and> ss_drain t = ss_drain s"
  by (auto simp: finish_trace_def split: option.splits prod.splits)

lemma settle_store:
  "settle env st info r s = (r2, t) \<Longrightarrow>
   br_store t = (case r of
       Inr _ \<Rightarrow> br_store s
     | Inl e \<Rightarrow> if is_exception e
         then emit ''agent_finished'' (snd (failed_event info (ss_sid s) (run_error st e))) (br_store s)
         else br_store s) \<and>
   is_ok r2 = is_ok r \<and> br_calls t = br_calls s"
  by (auto simp: settle_def Let_def host_error_def failed_event_def dest!: finish_trace_frame
      split: sum.splits prod.splits if_splits)

lemma close_trace_frame:
  "close_trace s = (r, t) \<Longrightarrow>
   br_store t = br_store s \<and> br_calls t = br_calls s \<and> ss_proc t = ss_proc s \<and> ss_drain t = ss_drain s"
  by (auto simp: close_trace_def split: option.splits prod.splits)

lemma stop_drainer_frame:
  "stop_drainer env s = (r, t) \<Longrightarrow>
   t = s\<lparr>ss_drain := ss_drain t\<rparr> \<and> ss_drain t \<noteq> Draining \<and> (\<forall>e. r = Inl e \<longrightarrow> he_drain env = Inl e)"
  by (auto simp: stop_drainer_def split: if_splits)

lemma kill_process_frame:
  "kill_process env s = (r, t) \<Longrightarrow>
   br_store t = br_store s \<and> br_calls t = br_calls s \<and> ss_trace t = ss_trace s \<and> ss_drain t = ss_drain s \<and>
   ss_proc t \<noteq> Running \<and> (\<forall>e. r = Inl e \<longrightarrow> he_wait env = Inl e \<and> \<not> is_exception e)"
  by (auto simp: kill_process_def split: sum.splits if_splits)

definition own_sandbox :: "prompt_info \<Rightarrow> sandbox_workspace option \<Rightarrow> bool" where
  "own_sandbox info sandbox \<longleftrightarrow> (case sandbox of None \<Rightarrow> True | Some w \<Rightarrow> sw_run_id w = pi_id info)"

lemma release_quiet:
  assumes "release_sandbox env sandbox s = (r, t)" and "own_sandbox info sandbox"
  shows "logs (quiet info) s t"
proof (cases sandbox)
  case None
  with assms show ?thesis by (auto simp: release_sandbox_def intro: logs_same)
next
  case (Some w)
  with assms obtain x where "release (he_bridge env) w s = (x, t)"
    by (auto simp: release_sandbox_def split: prod.splits sum.splits)
  from release_result [OF this] assms(2) Some show ?thesis
    by (cases x) (auto simp: own_sandbox_def quiet_defs intro: logs_same logs_one)
qed

lemma cleanup_quiet:
  assumes "cleanup env sandbox s = (r, t)" and own: "own_sandbox info sandbox"
  shows "logs (quiet info) s t"
proof -
  obtain r0 s0 where 0: "stop_drainer env s = (r0, s0)" by fastforce
  obtain r1 s1 where 1: "close_trace s0 = (r1, s1)" by fastforce
  obtain r2 s2 where 2: "kill_process env s1 = (r2, s2)" by fastforce
  obtain r3 s3 where 3: "release_sandbox env sandbox s2 = (r3, s3)" by fastforce
  have "br_store s0 = br_store s" by (subst stop_drainer_frame [OF 0, THEN conjunct1]) simp
  then have "logs (quiet info) s s0" "logs (quiet info) s s1"
    using close_trace_frame [OF 1] by (auto intro: logs_same)
  moreover have "logs (quiet info) s1 s2" using kill_process_frame [OF 2] by (auto intro: logs_same)
  moreover note release_quiet [OF 3 own]
  ultimately have "logs (quiet info) s s0" "logs (quiet info) s s1" "logs (quiet info) s s2" "logs (quiet info) s s3"
    by (blast intro: logs_trans)+
  with assms(1) 0 1 2 3 show ?thesis by (auto simp: cleanup_def io_bind_def split: sum.splits)
qed

definition outcome_recorded ::
  "prompt_info \<Rightarrow> 'a pyres \<Rightarrow> ('w, 'z) bridge_state_scheme \<Rightarrow> ('w, 'y) bridge_state_scheme \<Rightarrow> bool"
where
  "outcome_recorded info r s t \<longleftrightarrow>
     (\<exists>evs. br_store t = emits evs (br_store s) \<and> (\<forall>ev \<in> set evs. session_event info ev) \<and>
       (case filter (\<lambda>ev. fst ev = ''agent_finished'') evs of
          [] \<Rightarrow> \<not> is_ok r
        | [ev] \<Rightarrow> map_of (snd ev) ''run_id'' = Some (PStr (pi_id info)) \<and>
            (is_ok r \<longrightarrow> map_of (snd ev) ''ok'' = Some (PBool True) \<and> ev = last evs)
        | _ \<Rightarrow> False))"

lemma quiet_filter: "(\<forall>ev \<in> set evs. quiet info ev) \<Longrightarrow> filter (\<lambda>ev. fst ev = ''agent_finished'') evs = []"
  by (auto simp: filter_empty_conv quiet_def)

lemma outcome_silent:
  assumes "logs (quiet info) s t" and "\<not> is_ok r"
  shows "outcome_recorded info r s t"
proof -
  from assms(1) obtain evs where "br_store t = emits evs (br_store s)" "\<forall>ev \<in> set evs. quiet info ev"
    by (auto simp: logs_def)
  with assms(2) quiet_filter [OF this(2)] show ?thesis
    unfolding outcome_recorded_def by (intro exI [of _ evs]) (auto simp: quiet_def)
qed

lemma outcome_prefix:
  assumes "logs (quiet info) s u" and "outcome_recorded info r u t"
  shows "outcome_recorded info r s t"
proof -
  from assms(1) obtain es where es: "br_store u = emits es (br_store s)" "\<forall>ev \<in> set es. quiet info ev"
    by (auto simp: logs_def)
  from assms(2) obtain evs where evs: "br_store t = emits evs (br_store u)" "\<forall>ev \<in> set evs. session_event info ev"
    and out: "case filter (\<lambda>ev. fst ev = ''agent_finished'') evs of
          [] \<Rightarrow> \<not> is_ok r
        | [ev] \<Rightarrow> map_of (snd ev) ''run_id'' = Some (PStr (pi_id info)) \<and>
            (is_ok r \<longrightarrow> map_of (snd ev) ''ok'' = Some (PBool True) \<and> ev = last evs)
        | _ \<Rightarrow> False"
    by (auto simp: outcome_recorded_def)
  let ?f = "filter (\<lambda>ev. fst ev = ''agent_finished'')"
  have same: "?f (es @ evs) = ?f evs" using quiet_filter [OF es(2)] by simp
  have "case ?f (es @ evs) of
          [] \<Rightarrow> \<not> is_ok r
        | [ev] \<Rightarrow> map_of (snd ev) ''run_id'' = Some (PStr (pi_id info)) \<and>
            (is_ok r \<longrightarrow> map_of (snd ev) ''ok'' = Some (PBool True) \<and> ev = last (es @ evs))
        | _ \<Rightarrow> False"
  proof (cases "?f evs")
    case Nil
    with out show ?thesis unfolding same by simp
  next
    case (Cons ev rest)
    then have "evs \<noteq> []" by auto
    with Cons out show ?thesis unfolding same by (cases rest) (auto dest: sym)
  qed
  moreover have "br_store t = emits (es @ evs) (br_store s)" using es(1) evs(1) by (simp add: emits_append)
  moreover have "\<forall>ev \<in> set (es @ evs). session_event info ev" using es(2) evs(2) by (auto simp: quiet_def)
  ultimately show ?thesis unfolding outcome_recorded_def by blast
qed

lemma finished_documented [simp]:
  "documented (''agent_finished'', [(''run_id'', a), (''session_id'', b), (''stop_reason'', c), (''ok'', d)])"
  "documented (''agent_finished'', [(''run_id'', a), (''session_id'', b), (''stop_reason'', c), (''ok'', d), (''error'', e)])"
  by (simp_all add: documented_simps)

lemma outcome_finished:
  assumes "br_store u = emit ''agent_finished'' d (br_store s)"
    and "map_of d ''run_id'' = Some (PStr (pi_id info))" and "documented (''agent_finished'', d)"
    and "logs (quiet info) u t" and "is_ok r \<Longrightarrow> map_of d ''ok'' = Some (PBool True) \<and> br_store t = br_store u"
  shows "outcome_recorded info r s t"
proof (cases "is_ok r")
  case True
  with assms show ?thesis
    unfolding outcome_recorded_def
    by (intro exI [of _ "[(''agent_finished'', d)]"]) (simp add: session_event_def SERVICE_EVENTS_def)
next
  case False
  from assms(4) obtain es where es: "br_store t = emits es (br_store u)" "\<forall>ev \<in> set es. quiet info ev"
    by (auto simp: logs_def)
  with assms(1-3) False quiet_filter [OF es(2)] show ?thesis
    unfolding outcome_recorded_def
    by (intro exI [of _ "(''agent_finished'', d) # es"]) (auto simp: session_event_def SERVICE_EVENTS_def quiet_def)
qed

lemma conclude_outcome:
  assumes "conclude env info workspace stop s = (r, t)"
  shows "outcome_recorded info r s t"
proof -
  let ?d = "snd (succeeded_event info (ss_sid s) stop)"
  from assms have "br_store t = emit ''agent_finished'' ?d (br_store s)"
    by (auto simp: conclude_def succeeded_event_def dest!: finish_trace_frame split: prod.splits sum.splits)
  then show ?thesis
    by (rule outcome_finished) (simp_all add: succeeded_event_def logs_same)
qed

lemma run_session_outcome:
  assumes "run_session env st info bin workspace sandbox script s = Some (r, t)" and own: "own_sandbox info sandbox"
  shows "outcome_recorded info r s t"
proof -
  from assms obtain r1 s1 where d: "drive env st (agent_command env st bin workspace) info Spawning script s = Some (r1, s1)"
    by (auto simp: run_session_def split: option.splits)
  obtain r2 s2 where l: "leave env r1 s1 = (r2, s2)" by fastforce
  obtain r3 s3 where se: "settle env st info r2 s2 = (r3, s3)" by fastforce
  obtain r4 s4 where c: "cleanup env sandbox s3 = (r4, s4)" by fastforce
  have pre: "logs (quiet info) s s2"
    using drive_quiet [OF d] leave_frame(1) [of env r1 s1] l by (auto intro: logs_trans logs_same)
  note store = settle_store [OF se]
  note post = cleanup_quiet [OF c own]
  have last: "Some (r, t) = (case r4 of Inl e \<Rightarrow> Some (Inl e, s4)
      | Inr _ \<Rightarrow> Some (case r3 of Inl e \<Rightarrow> (Inl e, s4) | Inr stop \<Rightarrow> conclude env info workspace stop s4))"
    using assms(1) d l se c by (simp add: run_session_def)
  have "outcome_recorded info r s2 t"
  proof (cases "r3")
    case (Inr stop)
    with store have same: "br_store s3 = br_store s2" by (cases r2) auto
    show ?thesis
    proof (cases r4)
      case (Inl e)
      with last same post show ?thesis
        by (auto intro!: outcome_silent intro: logs_trans [OF logs_same])
    next
      case (Inr u)
      with last \<open>r3 = Inr stop\<close> have "conclude env info workspace stop s4 = (r, t)" by simp
      from conclude_outcome [OF this] post same show ?thesis
        by (auto intro: outcome_prefix logs_trans [OF logs_same])
    qed
  next
    case (Inl e3)
    with store obtain e where e: "r2 = Inl e" by (cases r2) auto
    from last Inl have r: "\<not> is_ok r" and t: "t = s4" by (auto split: sum.splits)
    show ?thesis
    proof (cases "is_exception e")
      case True
      with store e have "br_store s3 = emit ''agent_finished''
          (snd (failed_event info (ss_sid s2) (run_error st e))) (br_store s2)" by simp
      then show ?thesis
        by (rule outcome_finished) (use post r t in \<open>simp_all add: failed_event_def\<close>)
    next
      case False
      with store e have "br_store s3 = br_store s2" by simp
      with post r t show ?thesis by (auto intro!: outcome_silent intro: logs_trans [OF logs_same])
    qed
  qed
  with pre show ?thesis by (rule outcome_prefix)
qed

lemma run_in_workspace_outcome:
  assumes "run_in_workspace env st info bin workspace sandbox script s = Some (r, t)"
    and own: "own_sandbox info sandbox"
  shows "outcome_recorded info r s t"
proof -
  have fresh: "logs (quiet info) s (fresh_session env trace f s)" for trace f
    by (rule logs_same) (simp add: fresh_session_def)
  have "outcome_recorded info r s t"
    if "run_session env st info bin workspace sandbox script (fresh_session env trace f s) = Some (r, t)" for trace f
    by (rule outcome_prefix [OF fresh run_session_outcome [OF that own]])
  with assms(1) show ?thesis
    unfolding run_in_workspace_def
    by (auto split: sum.splits if_splits prod.splits intro!: outcome_silent logs_same)
qed

lemma outcome_raised: "br_store t = br_store s \<Longrightarrow> outcome_recorded info (Inl e) s t"
  by (auto intro!: outcome_silent logs_same)

lemma run_outcome:
  assumes "run env st bridged info script s = Some (r, t)"
  shows "outcome_recorded info r s t"
proof (cases "bridged \<and> is_ok (resolve_opencode_bin st (he_which env) (he_home env) (he_is_file env))")
  case False
  with assms show ?thesis
    by (auto simp: run_def is_ok_def own_sandbox_def split: sum.splits if_splits
        intro: run_in_workspace_outcome outcome_raised)
next
  case True
  with assms obtain x u where p: "prepare (he_bridge env) st info s = Some (x, u)"
    by (auto simp: run_def is_ok_iff split: option.splits)
  from prepare_result [OF p] have store: "br_store u =
      (case x of Inl _ \<Rightarrow> br_store s | Inr w \<Rightarrow> emit ''sandbox_provisioned'' (provisioned_data w) (br_store s))"
    by (cases x) (auto simp: prepared_def)
  show ?thesis
  proof (cases x)
    case (Inl e)
    with True assms p store show ?thesis
      by (auto simp: run_def is_ok_iff host_error_def intro!: outcome_raised)
  next
    case (Inr w)
    with True assms p have "\<exists>bin. run_in_workspace env st info bin (sw_path w) (Some w) script u = Some (r, t)"
      by (auto simp: run_def is_ok_iff)
    moreover have "logs (quiet info) s u" "own_sandbox info (Some w)"
      using store Inr prepare_result [OF p]
      by (auto simp: own_sandbox_def prepared_def provisioned_data_def quiet_defs intro!: logs_one)
    ultimately show ?thesis by (blast intro: outcome_prefix run_in_workspace_outcome)
  qed
qed

text \<open>
  C12: a run tells its outcome once.  Whatever happens during a run, in whatever order, every event
  it emits is in the documented table with exactly the documented fields, carries the run id and is
  not of the routes' or the queue's types, and at most one is \<open>agent_finished\<close>.  A run that
  returns has emitted one with \<open>ok\<close> true, as its last event; a run without such an event has
  raised.
\<close>

theorem run_finishes_once:
  assumes "run env st bridged info script s = Some (r, t)"
  shows "\<exists>evs. br_store t = emits evs (br_store s) \<and> (\<forall>ev \<in> set evs. session_event info ev) \<and>
    (case filter (\<lambda>ev. fst ev = ''agent_finished'') evs of
       [] \<Rightarrow> \<not> is_ok r
     | [ev] \<Rightarrow> map_of (snd ev) ''run_id'' = Some (PStr (pi_id info)) \<and>
         (is_ok r \<longrightarrow> map_of (snd ev) ''ok'' = Some (PBool True) \<and> ev = last evs)
     | _ \<Rightarrow> False)"
  using run_outcome [OF assms] unfolding outcome_recorded_def by blast

section \<open>What a run leaves behind\<close>

text \<open>The trace of a session on a file system without faults: its log has nothing pending.\<close>

definition trace_healthy :: "'w session \<Rightarrow> bool" where
  "trace_healthy s \<longleftrightarrow>
     (case ss_trace s of None \<Rightarrow> True | Some tr \<Rightarrow> faultless (ss_fs s) \<and> rt_handle tr = Some '''')"

lemma trace_write_healthy:
  assumes "faultless f" and "rt_handle tr = Some ''''" and "trace_write line tr f = (r, tr1, f1)"
  shows "r = Inr () \<and> faultless f1 \<and> rt_handle tr1 = Some ''''"
  using assms by (auto simp: trace_write_def flush_handle_def faultless_def add_run_text_def
      put_run_file_def put_node_def Let_def split: option.splits node.splits prod.splits if_splits fault.splits)

lemma healthy_frame [simp]:
  "trace_healthy (record_event ev s) = trace_healthy s"
  "trace_healthy (s\<lparr>ss_last := now\<rparr>) = trace_healthy s"
  "trace_healthy (s\<lparr>ss_sid := sid\<rparr>) = trace_healthy s"
  "trace_healthy (s\<lparr>ss_proc := p\<rparr>) = trace_healthy s"
  "trace_healthy (s\<lparr>ss_drain := d\<rparr>) = trace_healthy s"
  "trace_healthy (s\<lparr>ss_command := c\<rparr>) = trace_healthy s"
  by (simp_all add: trace_healthy_def split: option.split)

lemma drain_line_healthy:
  assumes "trace_healthy s"
  shows "trace_healthy (drain_line now line s)"
proof (cases "ss_drain s = Draining \<and> ss_trace s \<noteq> None")
  case False
  with assms show ?thesis by (auto simp: drain_line_def Let_def)
next
  case True
  then obtain tr where tr: "ss_trace s = Some tr" by blast
  obtain r tr1 f1 where w: "trace_write (redact (py_rstrip line)) tr (ss_fs s) = (r, tr1, f1)"
    by (metis prod_cases3)
  have "faultless (ss_fs s)" "rt_handle tr = Some ''''" using assms tr by (simp_all add: trace_healthy_def)
  from trace_write_healthy [OF this w] True tr w show ?thesis
    by (simp add: drain_line_def Let_def trace_healthy_def)
qed

lemma happen_healthy: "happen env st cmd info ph h s = (x, t) \<Longrightarrow> trace_healthy s \<Longrightarrow> trace_healthy t"
  by (cases h) (auto simp: happen_def drain_line_healthy split: if_splits sum.splits phase.splits)

lemma drive_healthy:
  "drive env st cmd info ph hs s = Some (r, t) \<Longrightarrow> trace_healthy s \<Longrightarrow> trace_healthy t"
proof (induction hs arbitrary: ph s)
  case (Cons h hs)
  obtain x u where h: "happen env st cmd info ph h s = (x, u)" by fastforce
  from Cons happen_healthy [OF h] h show ?case by (auto split: sum.splits)
qed simp

lemma finish_trace_healthy:
  "finish_trace env kvs s = (r, t) \<Longrightarrow> trace_healthy s \<Longrightarrow> trace_healthy t"
  by (auto simp: finish_trace_def trace_healthy_def trace_finish_def Let_def
      dest!: keepsD [OF plan_write_manifest] intro: faultless_plan split: option.splits prod.splits)

lemma settle_healthy: "settle env st info r s = (r2, t) \<Longrightarrow> trace_healthy s \<Longrightarrow> trace_healthy t"
  by (auto simp: settle_def Let_def
      dest!: finish_trace_healthy split: sum.splits if_splits prod.splits)

lemma close_trace_healthy:
  "trace_healthy s \<Longrightarrow> close_trace s = (r, t) \<Longrightarrow>
   r = Inr () \<and> (\<forall>tr. ss_trace t = Some tr \<longrightarrow> rt_handle tr = None)"
  by (auto simp: close_trace_def trace_healthy_def trace_close_def flush_handle_def split: option.splits)

lemma release_sandbox_frame:
  assumes "release_sandbox env sandbox s = (r, t)"
  shows "ss_proc t = ss_proc s \<and> ss_drain t = ss_drain s \<and> ss_trace t = ss_trace s \<and>
    (\<forall>w. sandbox = Some w \<longrightarrow> br_calls t = br_calls s @ [Remove (sw_sandbox_id w)])"
  using assms
  by (auto simp: release_sandbox_def release_def delete_sandbox_def ask_def
      split: option.splits sum.splits if_splits)

lemma conclude_frame:
  assumes "conclude env info workspace stop s = (r, t)"
  shows "ss_proc t = ss_proc s \<and> ss_drain t = ss_drain s \<and> br_calls t = br_calls s \<and>
    ((\<forall>tr. ss_trace s = Some tr \<longrightarrow> rt_handle tr = None) \<longrightarrow>
     (\<forall>tr. ss_trace t = Some tr \<longrightarrow> rt_handle tr = None))"
  using assms
  by (auto simp: conclude_def finish_trace_def trace_finish_def Let_def
      split: option.splits sum.splits prod.splits)

text \<open>
  C11: a session leaves nothing behind.  However it ends, by its result, a failure of any step, a
  verdict of the watchdog or a shutdown, the agent process is not running afterwards, no task
  drains its output, the handle of the harness log is closed, and the sandbox behind it has been
  deleted as the last call to its API.  The three exceptions are the hypotheses: a trace whose log
  cannot be written, and a shutdown that arrives in the \<open>finally\<close> block itself, while it waits
  for the cancelled drainer or for the killed process.
\<close>

theorem session_leaves_nothing_behind:
  assumes "run_session env st info bin workspace sandbox script s = Some (r, t)"
    and "trace_healthy s" and "he_drain env = Inr ()" and "\<forall>e. he_wait env = Inl e \<longrightarrow> is_exception e"
  shows "ss_proc t \<noteq> Running \<and> ss_drain t \<noteq> Draining \<and>
    (\<forall>tr. ss_trace t = Some tr \<longrightarrow> rt_handle tr = None) \<and>
    (\<forall>w. sandbox = Some w \<longrightarrow> last (br_calls t) = Remove (sw_sandbox_id w))"
proof -
  from assms obtain r1 s1 where d: "drive env st (agent_command env st bin workspace) info Spawning script s = Some (r1, s1)"
    by (auto simp: run_session_def split: option.splits)
  obtain r2 s2 where l: "leave env r1 s1 = (r2, s2)" by fastforce
  obtain r3 s3 where se: "settle env st info r2 s2 = (r3, s3)" by fastforce
  obtain r4 s4 where dr: "stop_drainer env s3 = (r4, s4)" by fastforce
  obtain r5 s5 where cl: "close_trace s4 = (r5, s5)" by fastforce
  obtain r6 s6 where ki: "kill_process env s5 = (r6, s6)" by fastforce
  obtain r7 s7 where re: "release_sandbox env sandbox s6 = (r7, s7)" by fastforce
  have "trace_healthy s1" by (rule drive_healthy [OF d assms(2)])
  then have "trace_healthy s2" using l by (auto simp: leave_def split: if_splits)
  then have "trace_healthy s3" by (rule settle_healthy [OF se])
  then have healthy: "trace_healthy s4" and r4: "r4 = Inr ()" and s4: "ss_drain s4 \<noteq> Draining"
    using dr assms(3) by (auto simp: stop_drainer_def split: if_splits)
  note closed = close_trace_healthy [OF healthy cl] and closed_frame = close_trace_frame [OF cl]
  have r6: "r6 = Inr ()" using kill_process_frame [OF ki] assms(4) by (cases r6) auto
  have "cleanup env sandbox s3 = (r7, s7)"
    using closed r4 r6 dr cl ki re by (simp add: cleanup_def io_bind_def)
  with assms(1) d l se have last: "(r, t) = (case r7 of Inl e \<Rightarrow> (Inl e, s7)
      | Inr _ \<Rightarrow> (case r3 of Inl e \<Rightarrow> (Inl e, s7) | Inr stop \<Rightarrow> conclude env info workspace stop s7))"
    by (auto simp: run_session_def split: sum.splits)
  have s7: "ss_proc s7 \<noteq> Running" "ss_drain s7 \<noteq> Draining" "\<forall>tr. ss_trace s7 = Some tr \<longrightarrow> rt_handle tr = None"
    "\<forall>w. sandbox = Some w \<longrightarrow> last (br_calls s7) = Remove (sw_sandbox_id w)"
    using closed closed_frame s4 kill_process_frame [OF ki] release_sandbox_frame [OF re]
    by auto
  from last have "t = s7 \<or> (\<exists>stop. conclude env info workspace stop s7 = (r, t))"
    by (auto split: sum.splits)
  with s7 show ?thesis using conclude_frame by metis
qed

text \<open>
  The condition on the trace matters: when closing the log fails, the rest of the \<open>finally\<close>
  block is skipped, and neither is the process killed nor the sandbox deleted.
\<close>

lemma close_failure_skips_cleanup:
  assumes "ss_trace s = Some tr" and "rt_handle tr = Some pending" and "pending \<noteq> ''''"
    and "fs_faults (ss_fs s) (fs_tick (ss_fs s)) = Broken k" and "ss_drain s = Ended"
  shows "\<exists>t. cleanup env sandbox s = (Inl os_error, t) \<and> ss_proc t = ss_proc s \<and> br_calls t = br_calls s"
  using assms
  by (auto simp: cleanup_def io_bind_def stop_drainer_def close_trace_def trace_close_def flush_handle_def Let_def)

text \<open>
  So does the condition on the drainer: a shutdown while the block waits for it skips everything
  after it, although the process is running and the sandbox is held.
\<close>

lemma interrupted_drain_skips_cleanup:
  assumes "ss_drain s = Draining" and "he_drain env = Inl e"
  shows "cleanup env sandbox s = (Inl e, s\<lparr>ss_drain := Ended\<rparr>)"
  using assms by (simp add: cleanup_def io_bind_def stop_drainer_def)

text \<open>The secret of the webhook never reaches the agent.\<close>

lemma happen_command:
  "happen env st cmd info ph h s = (x, t) \<Longrightarrow> ss_command t \<in> {ss_command s, Some cmd}"
  by (cases h) (auto simp: happen_def record_event_def drain_line_def Let_def
      split: if_splits sum.splits phase.splits option.splits prod.splits)

lemma drive_command:
  "drive env st cmd info ph hs s = Some (r, t) \<Longrightarrow> ss_command t \<in> {ss_command s, Some cmd}"
proof (induction hs arbitrary: ph s)
  case (Cons h hs)
  obtain x u where h: "happen env st cmd info ph h s = (x, u)" by fastforce
  with happen_command [OF h] Cons show ?case by (fastforce split: sum.splits)
qed simp

lemma agent_never_gets_secret:
  assumes "drive env st (agent_command env st bin workspace) info Spawning script s = Some (r, t)"
    and "ss_command s = None" and "ss_command t = Some cmd"
  shows "map_of (cm_environ cmd) ''OS_WEBHOOK_SECRET'' = None \<and> cm_cwd cmd = workspace"
  using drive_command [OF assms(1)] assms(2,3)
  by (auto simp: agent_command_def map_of_eq_None_iff)

text \<open>A shutdown or a decided race always ends the body of the session.\<close>

lemma drive_ends: "Shutdown \<in> set hs \<Longrightarrow> drive env st cmd info ph hs s \<noteq> None"
proof (induction hs arbitrary: ph s)
  case (Cons h hs)
  then show ?case by (cases h) (auto simp: happen_def split: prod.splits sum.splits)
qed simp

section \<open>Instances\<close>

definition sample_host :: host_env where
  "sample_host =
     \<lparr>he_bridge = sample_env (0, '''') True, he_which = Some ''/bin/opencode'', he_home = ''/h'',
      he_is_file = (\<lambda>_. False), he_workspace = sample_checkouts, he_own_config = (\<lambda>_. Inr False),
      he_write_config = (\<lambda>_ _. Inr ()), he_homes = (\<lambda>_. None), he_environ = [(''HOME'', ''/h''), (''OS_WEBHOOK_SECRET'', ''x'')], he_utc = (\<lambda>_. ''t''), he_now = 0,
      he_regex = (\<lambda>_. Inr (\<lambda>_. False)), he_leave = None, he_reaped = False,
      he_wait = Inr (), he_drain = Inr ()\<rparr>"

definition sample_session :: "unit session" where
  "sample_session = \<lparr>br_step = 0, br_calls = [], br_store = br_store sample_bridge, ss_command = None, ss_fs = empty_root,
     ss_trace = None, ss_last = 0, ss_proc = No_Process, ss_drain = Not_Started, ss_sid = None\<rparr>"

definition sample_script :: "happening list" where
  "sample_script = [Spawn (Inr ()), Initialized (Inr (PInt 1)), Opened 1 (Inr ''s1''),
     Race (Finished (Some ''end_turn'')) Pending]"

lemma sample_session_runs:
  "\<exists>t. run_session sample_host sample_settings sample_envelope ''/b'' ''/w'' sandbox sample_script sample_session =
     Some (Inr \<lparr>rr_session_id = ''s1'', rr_stop_reason = ''end_turn'', rr_workspace = ''/w''\<rparr>, t)"
  by (cases sandbox)
    (auto simp: run_session_def sample_script_def happen_def leave_def settle_def cleanup_def stop_drainer_def io_bind_def
      close_trace_def kill_process_def release_sandbox_def release_def delete_sandbox_def ask_def
      conclude_def finish_trace_def sample_host_def sample_session_def sample_env_def text_or_def
      resolve_prompt_race_def record_event_def)

theorem session_leaves_nothing_behind_witness:
  "\<exists>r t. run_session sample_host sample_settings sample_envelope ''/b'' ''/w''
      (Some \<lparr>sw_run_id = ''r1'', sw_sandbox_id = ''s9'', sw_container_name = ''c'', sw_path = ''/w''\<rparr>)
      sample_script sample_session = Some (r, t) \<and> ss_proc t \<noteq> Running \<and> last (br_calls t) = Remove ''s9''"
proof -
  let ?w = "\<lparr>sw_run_id = ''r1'', sw_sandbox_id = ''s9'', sw_container_name = ''c'', sw_path = ''/w''\<rparr>"
  from sample_session_runs [of "Some ?w"] obtain r t where
    run: "run_session sample_host sample_settings sample_envelope ''/b'' ''/w'' (Some ?w) sample_script sample_session = Some (r, t)"
    by blast
  have "trace_healthy sample_session" "he_drain sample_host = Inr ()" "\<forall>e. he_wait sample_host = Inl e \<longrightarrow> is_exception e"
    by (simp_all add: trace_healthy_def sample_session_def sample_host_def)
  from session_leaves_nothing_behind [OF run this] run show ?thesis by auto
qed

theorem run_finishes_once_witness:
  "\<exists>r t evs. run sample_host (sample_settings\<lparr>st_acp_trace_enabled := False\<rparr>) False sample_envelope [Spawn (Inl os_error)] sample_session =
     Some (r, t) \<and> \<not> is_ok r \<and> br_store t = emits evs (br_store sample_session) \<and>
     length (filter (\<lambda>ev. fst ev = ''agent_finished'') evs) \<le> 1"
proof -
  have "\<exists>r t. run sample_host (sample_settings\<lparr>st_acp_trace_enabled := False\<rparr>) False sample_envelope [Spawn (Inl os_error)] sample_session =
      Some (r, t) \<and> \<not> is_ok r"
    by (simp add: run_def resolve_opencode_bin_def sample_host_def sample_settings_def Settings_def text_or_def
        prepare_workspace_def sample_checkouts_def run_in_workspace_def write_deny_config_def run_session_def
        happen_def leave_def settle_def cleanup_def stop_drainer_def io_bind_def close_trace_def kill_process_def
        release_sandbox_def finish_trace_def fresh_session_def sample_session_def is_exception_def
        os_error_def host_error_def Let_def)
  then obtain r t where run: "run sample_host (sample_settings\<lparr>st_acp_trace_enabled := False\<rparr>) False sample_envelope
      [Spawn (Inl os_error)] sample_session = Some (r, t)" and err: "\<not> is_ok r" by blast
  from run_finishes_once [OF run] obtain evs where "br_store t = emits evs (br_store sample_session)"
    and evs: "case filter (\<lambda>ev. fst ev = ''agent_finished'') evs of [] \<Rightarrow> \<not> is_ok r
      | [ev] \<Rightarrow> map_of (snd ev) ''run_id'' = Some (PStr (pi_id sample_envelope)) \<and>
          (is_ok r \<longrightarrow> map_of (snd ev) ''ok'' = Some (PBool True) \<and> ev = last evs)
      | _ \<Rightarrow> False" by blast
  moreover from evs have "length (filter (\<lambda>ev. fst ev = ''agent_finished'') evs) \<le> 1"
    by (auto split: list.splits)
  ultimately show ?thesis using run err by blast
qed

end
