(* ===== verification/Service.thy ===== *)
theory Service
  imports Webhook_App Event_Bus Queue_Lifecycle Acp_Session
begin

text \<open>
  The wiring of \<open>create_app\<close>: the event store with the durable log as its sink, the queue, the
  host, and the read-only routes over them.  The composition of the parts is what the dashboard
  relies on: what was emitted is what the history routes give back.
\<close>

section \<open>The application\<close>

type_synonym log_world = "event_log \<times> fs"

definition event_log_sink :: "(rat \<Rightarrow> string) \<Rightarrow> event \<Rightarrow> log_world \<Rightarrow> pyexc option \<times> log_world" where
  "event_log_sink float_repr e w =
     (case append_event (event_item float_repr e) (fst w) (snd w) of
        (r, el, f) \<Rightarrow> (case r of Inl x \<Rightarrow> Some x | Inr _ \<Rightarrow> None, (el, f)))"

record app =
  ap_settings :: settings
  ap_store :: "log_world event_store"
  ap_queue :: prompt_queue
  ap_host :: "bool option"       \<comment> \<open>whether the host, if there is one, has a sandbox bridge\<close>

text \<open>The application with nothing injected; \<open>deque\<close> raises for a negative bound.\<close>

definition create_app ::
  "(string \<Rightarrow> string option) \<Rightarrow> (rat \<Rightarrow> string) \<Rightarrow> settings \<Rightarrow> nat \<Rightarrow> string \<Rightarrow> (nat \<Rightarrow> rat) \<Rightarrow> fs \<Rightarrow> app pyres"
where
  "create_app homes float_repr cfg epoch uuid_hex clock f =
     rbind (if st_events_log_enabled cfg
            then rmap (\<lambda>_. Some (event_log_sink float_repr)) (resolve_trace_root homes (st_acp_trace_root cfg))
            else Inr None) (\<lambda>sink.
     if st_events_maxlen cfg < 0 then Inl (PyExc ValueError ''maxlen must be non-negative'')
     else
       (let store = EventStore (nat (st_events_maxlen cfg)) sink epoch uuid_hex clock
              (EventLog (st_acp_trace_keep_runs cfg) DEFAULT_MAX_BYTES, f) in
        rbind (if st_acp_enabled cfg then rmap Some (acp_host_init cfg False) else Inr None) (\<lambda>host.
        Inr \<lparr>ap_settings = cfg, ap_store = store, ap_queue = PromptQueue DEDUP_CAPACITY, ap_host = host\<rparr>)))"

section \<open>Read-only routes\<close>

text \<open>One turn of the \<open>/events\<close> stream; whatever ends the generator closes the subscriber.\<close>

definition stream_turn ::
  "subscriber \<Rightarrow> 'w event_store \<Rightarrow> string pyres \<times> subscriber \<times> 'w event_store"
where
  "stream_turn sub s =
     (case subscriber_next sub s of
        (None, t) \<Rightarrow> (case subscriber_close sub t of
            (sub2, u) \<Rightarrow> (Inl (PyExc RuntimeError ''StopIteration''), sub2, u))
      | (Some item, t) \<Rightarrow>
          (case sse_frame item of
             Inr sse \<Rightarrow> (Inr sse, sub, t)
           | Inl e \<Rightarrow> (case subscriber_close sub t of (sub2, u) \<Rightarrow> (Inl e, sub2, u))))"

datatype 'a reply = Ok_200 'a | Not_Found_404 string

definition events_history :: "(string \<Rightarrow> string option) \<Rightarrow> json_env \<Rightarrow> settings \<Rightarrow> data list io" where
  "events_history homes js cfg = read_global_tail homes js (st_acp_trace_root cfg)"

definition runs :: "(string \<Rightarrow> string option) \<Rightarrow> json_env \<Rightarrow> settings \<Rightarrow> run_entry list io" where
  "runs homes js cfg = list_runs homes js (st_acp_trace_root cfg)"

definition run_events ::
  "(string \<Rightarrow> string option) \<Rightarrow> json_env \<Rightarrow> settings \<Rightarrow> string \<Rightarrow> data list reply io"
where
  "run_events homes js cfg run_id =
     io_bind (read_run_events homes js (st_acp_trace_root cfg) run_id) (\<lambda>events.
     io_return (case events of
        None \<Rightarrow> Not_Found_404 (''No event history for run '' @ py_repr_str run_id)
      | Some es \<Rightarrow> Ok_200 es))"

section \<open>Emitted events reach the log\<close>

text \<open>The events that a run of emits makes: their ids and times depend on the store only.\<close>

fun made_events :: "(string \<times> data) list \<Rightarrow> 'w event_store \<Rightarrow> event list" where
  "made_events [] s = []"
| "made_events ((t, d) # evs) s = make_event s t d # made_events evs (emit t d s)"

lemma es_world_emit:
  "es_world (emit t d s) =
     (case es_sink s of None \<Rightarrow> es_world s | Some sink \<Rightarrow> snd (sink (make_event s t d) (es_world s)))"
  by (simp add: emit_def Let_def run_sink_def make_event_def split: option.split)

lemma es_world_emits:
  "es_sink s = Some (event_log_sink fr) \<Longrightarrow>
   es_world (emits evs s) =
     append_events (map (event_item fr) (made_events evs s)) (fst (es_world s)) (snd (es_world s))"
proof (induction evs arbitrary: s)
  case (Cons ev evs)
  obtain t d where ev: "ev = (t, d)" by (cases ev)
  have "es_world (emits evs (emit t d s)) = append_events (map (event_item fr) (made_events evs (emit t d s)))
      (fst (es_world (emit t d s))) (snd (es_world (emit t d s)))"
    by (rule Cons.IH) (simp add: Cons.prems)
  with Cons.prems show ?case
    by (simp add: ev es_world_emit event_log_sink_def split: prod.split)
qed simp

lemma made_events_data: "map ev_data (made_events evs s) = map snd evs"
  by (induction evs s rule: made_events.induct) (simp_all add: make_event_def)

lemma event_data_item: "event_data (event_item fr e) = ev_data e"
  by (simp add: event_data_def event_item_def dict_get_def)

text \<open>The events made are of the emitted types and data, with ids of the store's run.\<close>

lemma made_events_shape:
  "e \<in> set (made_events evs s) \<Longrightarrow> (ev_type e, ev_data e) \<in> set evs \<and> (\<exists>n. ev_id e = event_id (es_boot s) n)"
proof (induction evs s rule: made_events.induct)
  case (2 t d evs s)
  have "es_boot (emit t d s) = es_boot s" by (simp add: emit_def Let_def)
  with 2 show ?case by (auto simp: make_event_def)
qed simp

text \<open>Event data that the log reads back: well-formed text, not nested beyond the recursion limit.\<close>

definition loggable :: "json_env \<Rightarrow> string \<times> data \<Rightarrow> bool" where
  "loggable js ev \<longleftrightarrow> utf8 False (fst ev) \<and> readable js (js_depth js - 1) (PDict (snd ev))"

lemma is_ascii_py_str_nat: "is_ascii (py_str_nat n)"
  by (fastforce simp: is_ascii_def list_all_iff dest: py_str_nat_digits)

lemma storable_event_item:
  assumes "is_ascii (ev_id e)" and "loggable js (ev_type e, ev_data e)" and "\<And>x. float_readable js (fr x)"
  shows "storable js (event_item fr e)"
proof -
  have "utf8 False ''id''" "utf8 False ''type''" "utf8 False ''ts''" "utf8 False ''data''"
    by (simp_all add: utf8_ascii is_ascii_def code_def)
  with assms show ?thesis
    by (auto simp: storable_def event_item_def loggable_def utf8_ascii)
qed

text \<open>
  The retention of the log keeps every run: the events are all of the run \<open>rid\<close> or of none, or the
  runs they are of and those that have a directory already are no more than it keeps.
\<close>

definition keeps_history :: "settings \<Rightarrow> string \<Rightarrow> (string \<times> data) list \<Rightarrow> fs \<Rightarrow> bool" where
  "keeps_history cfg rid evs f \<longleftrightarrow>
     (\<forall>ev \<in> set evs. run_id_of (snd ev) \<in> {None, Some rid}) \<or>
     wf_fs f \<and> card {r \<in> set (run_dirs f) \<union> (\<Union>ev \<in> set evs. set_option (run_id_of (snd ev))). is_run_id r}
       \<le> nat (max 1 (st_acp_trace_keep_runs cfg))"

lemma keeps_history_items:
  assumes "keeps_history cfg rid evs f"
  shows "nothing_pruned rid (map (event_item fr) (made_events evs s)) (st_acp_trace_keep_runs cfg) f"
proof -
  have ids: "(\<lambda>item. run_id_of (event_data item)) ` set (map (event_item fr) (made_events evs s)) =
      (\<lambda>ev. run_id_of (snd ev)) ` set evs"
    using arg_cong [OF made_events_data [of evs s], of "\<lambda>ds. run_id_of ` set ds"]
    by (simp add: image_image event_data_item)
  have "(\<Union>item \<in> set (map (event_item fr) (made_events evs s)). set_option (run_id_of (event_data item))) =
      (\<Union>ev \<in> set evs. set_option (run_id_of (snd ev)))"
    using arg_cong [OF ids, of "\<lambda>S. \<Union> (set_option ` S)"] by (simp only: image_image)
  moreover have "(\<forall>item \<in> set (map (event_item fr) (made_events evs s)). run_id_of (event_data item) \<in> {None, Some rid}) \<longleftrightarrow>
      (\<forall>ev \<in> set evs. run_id_of (snd ev) \<in> {None, Some rid})"
    using arg_cong [OF ids, of "\<lambda>S. S \<subseteq> {None, Some rid}"] by (simp only: image_subset_iff)
  ultimately show ?thesis
    using assms unfolding nothing_pruned_def runs_involved_def keeps_history_def by simp
qed

text \<open>
  C28: what a run emits is what the dashboard shows of it.  In an application whose durable log is
  on, over a trace root without faults that has no directory of the run \<open>rid\<close> yet, after any
  sequence of events of well-formed data, of this run, of others or of none, the route for the
  events of the run answers with its own: each once, in order, with id, type, time and redacted
  data; or 404 if there was none.  With other runs' events among them, the retention must keep
  every run (\<open>queued_delivery_removes_the_run\<close> in \<open>Shared_Root\<close> is what happens otherwise).
\<close>

theorem run_events_show_what_was_emitted:
  assumes "create_app homes fr cfg epoch uuid clk f = Inr app" and "st_events_log_enabled cfg"
    and "faultless f" and "map_of (fs_nodes f) rid = None"
    and "RUN_SEGMENT rid" and "rid \<notin> {''.'', ''..'', EVENTS, EVENTS_1}"
    and "\<forall>ev \<in> set evs. loggable js ev" and "keeps_history cfg rid evs f"
    and "is_ascii uuid" and "\<And>x. float_readable js (fr x)"
  shows "fst (run_events homes js cfg rid (snd (es_world (emits evs (ap_store app))))) =
    (let mine = filter (\<lambda>e. run_id_of (ev_data e) = Some rid) (made_events evs (ap_store app)) in
     Inr (if mine = [] then Not_Found_404 (''No event history for run '' @ py_repr_str rid)
          else Ok_200 (map (\<lambda>e. read_back (event_item fr e)) mine)))"
proof -
  from assms(1,2) obtain root where root: "resolve_trace_root homes (st_acp_trace_root cfg) = Inr root"
    by (auto simp: create_app_def rbind_eq_Inr rmap_eq_Inr)
  from assms(1,2) have sink: "es_sink (ap_store app) = Some (event_log_sink fr)"
      and world: "snd (es_world (ap_store app)) = f"
      and keep: "el_keep_runs (fst (es_world (ap_store app))) = st_acp_trace_keep_runs cfg" and boot: "es_boot (ap_store app) = boot_token epoch uuid"
    by (auto simp: create_app_def rbind_eq_Inr rmap_eq_Inr EventStore_def EventLog_def Let_def split: if_splits)
  let ?es = "made_events evs (ap_store app)" and ?s = "emits evs (ap_store app)"
  let ?items = "map (event_item fr) ?es"
  have run: "append_events ?items (fst (es_world (ap_store app))) f = (fst (es_world ?s), snd (es_world ?s))"
    using es_world_emits [OF sink, of evs] world by simp
  have "is_ascii (boot_token epoch uuid)"
    using assms(9) is_ascii_py_str_nat [of epoch]
    by (auto simp: boot_token_def is_ascii_def list_all_iff code_def dest: in_set_takeD)
  then have "is_ascii (event_id (boot_token epoch uuid) n)" for n
    using is_ascii_py_str_nat [of n] by (simp add: event_id_def is_ascii_def code_def)
  then have "storable js (event_item fr e)" if "e \<in> set ?es" for e
    using made_events_shape [OF that] assms(7,10) boot by (fastforce intro: storable_event_item)
  then have items: "\<forall>item \<in> set ?items. storable js item" by auto
  note pruned = keeps_history_items [OF assms(8), of fr "ap_store app", folded keep]
  have mine: "filter (of_run rid) ?items = map (event_item fr) (filter (\<lambda>e. run_id_of (ev_data e) = Some rid) ?es)"
    by (simp add: filter_map comp_def event_data_item)
  have "fst (read_run_events homes js (st_acp_trace_root cfg) rid (snd (es_world ?s))) =
      (let mine = filter (of_run rid) ?items in Inr (if mine = [] then None else Some (map read_back mine)))"
    by (rule run_history_roundtrip [OF assms(3-6) items pruned root run])
  then show ?thesis
    unfolding mine
    by (cases "read_run_events homes js (st_acp_trace_root cfg) rid (snd (es_world ?s))")
      (auto simp: run_events_def io_bind_def io_return_def Let_def comp_def)
qed

text \<open>A frame that cannot be written ends the stream of that client, and only its stream.\<close>

lemma stream_turn_failure:
  assumes "stream_turn sub s = (Inl e, sub2, t)"
  shows "sub_closed sub2 \<and> es_events t = es_events s \<and>
    set (es_subscribers t) \<subseteq> set (es_subscribers s)"
  using assms
  by (auto simp: stream_turn_def subscriber_next_def subscriber_close_def
      split: option.splits sum.splits list.splits if_splits dest: subsetD [OF set_remove1_subset])

text \<open>Events of two runs, of which the retention keeps both.\<close>

definition run_a :: string where "run_a = ''aaaaaaaaaaaaaaaaaaaaaaaaaaaaaaaa''"

definition run_b :: string where "run_b = ''bbbbbbbbbbbbbbbbbbbbbbbbbbbbbbbb''"

abbreviation plan_of :: "string \<Rightarrow> string \<times> data" where
  "plan_of rid \<equiv> (''agent_plan'', [(''run_id'', PStr rid)])"

lemma plan_runs_facts:
  "run_id_of [(''run_id'', PStr run_a)] = Some run_a" "run_id_of [(''run_id'', PStr run_b)] = Some run_b"
  "RUN_SEGMENT run_a" "run_a \<notin> {''.'', ''..'', EVENTS, EVENTS_1}" "run_a \<noteq> run_b"
  "is_ascii run_a" "is_ascii run_b" "is_run_id run_a" "is_run_id run_b"
  by code_simp+

theorem run_events_show_what_was_emitted_witness:
  "\<exists>app item. create_app (\<lambda>_. None) (\<lambda>_. ''1.5'') sample_settings 7 ''0a1b2c3d'' (\<lambda>_. 0) empty_root = Inr app \<and>
     fst (run_events (\<lambda>_. None) sample_json sample_settings run_a
       (snd (es_world (emits [plan_of run_b, plan_of run_a, plan_of run_b] (ap_store app))))) =
     Inr (Ok_200 [read_back item])"
proof -
  let ?evs = "[plan_of run_b, plan_of run_a, plan_of run_b]"
  have "\<exists>app. create_app (\<lambda>_. None) (\<lambda>_. ''1.5'') sample_settings 7 ''0a1b2c3d'' (\<lambda>_. 0) empty_root = Inr app"
    by (simp add: create_app_def sample_settings_def Settings_def resolve_trace_root_def acp_host_init_def Let_def)
  then obtain app where app: "create_app (\<lambda>_. None) (\<lambda>_. ''1.5'') sample_settings 7 ''0a1b2c3d'' (\<lambda>_. 0) empty_root = Inr app"
    by blast
  note rid = plan_runs_facts
  have "st_events_log_enabled sample_settings" by (simp add: sample_settings_def Settings_def)
  moreover have "map_of (fs_nodes empty_root) run_a = None" by (simp add: empty_root_def)
  moreover have "\<forall>ev \<in> set ?evs. loggable sample_json ev"
    using rid by (simp add: loggable_def sample_json_def utf8_ascii) (simp add: utf8_ascii is_ascii_def code_def)
  moreover have "keeps_history sample_settings run_a ?evs empty_root"
  proof -
    have "run_dirs empty_root = []" "wf_fs empty_root"
      by (simp_all add: run_dirs_def run_entries_def empty_root_def wf_fs_def)
    moreover from this have "{r \<in> set (run_dirs empty_root) \<union> (\<Union>ev \<in> set ?evs. set_option (run_id_of (snd ev))). is_run_id r} =
        {run_a, run_b}" using rid by auto
    moreover have "card {run_a, run_b} \<le> nat (max 1 (st_acp_trace_keep_runs sample_settings))"
      using rid(5) by (simp add: sample_settings_def Settings_def)
    ultimately show ?thesis unfolding keeps_history_def by simp
  qed
  moreover have "is_ascii ''0a1b2c3d''" by (simp add: is_ascii_def code_def)
  ultimately have "fst (run_events (\<lambda>_. None) sample_json sample_settings run_a
      (snd (es_world (emits ?evs (ap_store app))))) =
    (let mine = filter (\<lambda>e. run_id_of (ev_data e) = Some run_a) (made_events ?evs (ap_store app)) in
     Inr (if mine = [] then Not_Found_404 (''No event history for run '' @ py_repr_str run_a)
          else Ok_200 (map (\<lambda>e. read_back (event_item (\<lambda>_. ''1.5'') e)) mine)))"
    using rid(3,4) sample_env(2) sample_float by (intro run_events_show_what_was_emitted [OF app])
  then have "\<exists>item. fst (run_events (\<lambda>_. None) sample_json sample_settings run_a
      (snd (es_world (emits ?evs (ap_store app))))) = Inr (Ok_200 [read_back item])"
    using rid(5) by (simp add: Let_def rid(1,2) make_event_def) blast
  with app show ?thesis by blast
qed

section \<open>A delivery from the sender to the gate\<close>

text \<open>
  C10: a signed delivery arrives as it was sent.  A sender that writes a payload of JSON values as
  compact JSON and signs the bytes with the shared secret, in any event but \<open>ping\<close> and within the
  size limit, has exactly that payload handled: the signature is accepted and \<open>json.loads\<close> gives
  the payload back.
\<close>

theorem signed_json_is_handled:
  assumes "json_dumps json_compact 0 payload = Inr t"
    and "json_value payload" and "readable js (js_depth js) payload"
    and "rq_body rq = utf8_bytes t"
    and "rq_signature rq = Some (compute_signature (utf8_bytes t) (st_github_webhook_secret cfg))"
    and "int (length t) \<le> st_max_body_bytes cfg"
    and "py_lower (header (rq_event rq)) \<noteq> ''ping''"
  shows "github_webhook \<lparr>ex_loads = json_loads_bytes js, ex_str_field = sf\<rparr> cfg env uid now rq sv =
    handle_payload \<lparr>ex_loads = json_loads_bytes js, ex_str_field = sf\<rparr> env uid now
      (header (rq_delivery rq)) (py_lower (header (rq_event rq))) payload sv"
proof -
  have "printable t"
    using printable_json_dumps [OF assms(1)] readable_printable_floats [OF assms(3)]
    by (simp add: json_compact_def printable_def code_def)
  then have "json_loads_bytes js (utf8_bytes t) = Inr payload"
    using json_loads_bytes_dumps [OF assms(1) layout_compact(1) assms(3)] json_norm_id [OF assms(2), of json_compact]
    by (simp add: json_compact_def)
  then show ?thesis
    using assms(4-7) verify_computed by (simp add: github_webhook_def Let_def utf8_bytes_def)
qed

theorem signed_json_is_handled_witness:
  "\<exists>t. json_dumps json_compact 0 (PDict [(''action'', PStr ''labeled'')]) = Inr t \<and>
     (\<forall>sv :: unit service. github_webhook \<lparr>ex_loads = json_loads_bytes sample_json, ex_str_field = (\<lambda>_. Inr ''x'')\<rparr>
       (sample_settings\<lparr>st_max_body_bytes := int (length t)\<rparr>) (\<lambda>_. None) ''r1'' 0
       \<lparr>rq_body = utf8_bytes t, rq_delivery = Some ''d1'', rq_event = Some ''issues'',
        rq_signature = Some (compute_signature (utf8_bytes t) (st_github_webhook_secret sample_settings))\<rparr> sv =
     handle_payload \<lparr>ex_loads = json_loads_bytes sample_json, ex_str_field = (\<lambda>_. Inr ''x'')\<rparr> (\<lambda>_. None) ''r1'' 0
       ''d1'' ''issues'' (PDict [(''action'', PStr ''labeled'')]) sv)"
proof -
  let ?p = "PDict [(''action'', PStr ''labeled'')]" and ?ex = "\<lparr>ex_loads = json_loads_bytes sample_json, ex_str_field = (\<lambda>_. Inr ''x'')\<rparr>"
  obtain t where t: "json_dumps json_compact 0 ?p = Inr t" by (simp add: json_compact_def sort_items_def)
  let ?rq = "\<lparr>rq_body = utf8_bytes t, rq_delivery = Some ''d1'', rq_event = Some ''issues'',
    rq_signature = Some (compute_signature (utf8_bytes t) (st_github_webhook_secret sample_settings))\<rparr>"
  let ?cfg = "sample_settings\<lparr>st_max_body_bytes := int (length t)\<rparr>"
  have readable: "readable sample_json (js_depth sample_json) ?p" "json_value ?p"
    by (simp_all add: sample_json_def utf8_ascii is_ascii_def code_def)
  have names: "py_lower ''issues'' = ''issues''" "''issues'' \<noteq> ''ping''" by code_simp+
  have "github_webhook ?ex ?cfg (\<lambda>_. None) ''r1'' 0 ?rq sv =
      handle_payload ?ex (\<lambda>_. None) ''r1'' 0 ''d1'' ''issues'' ?p sv" for sv :: "unit service"
    using signed_json_is_handled [OF t readable(2,1), of ?rq ?cfg "\<lambda>_. Inr ''x''" "\<lambda>_. None" "''r1''" 0 sv] names by simp
  with t show ?thesis by blast
qed

end
