(* ===== verification/Live_Service.thy ===== *)
theory Live_Service
  imports Service
begin

text \<open>
  The service while it runs: the event loop between the start and the end of the \<open>lifespan\<close> of
  \<open>create_app\<close>.  Requests are handled one at a time (the handler does not wait once it has the
  body); the consumer's task takes envelopes and runs a session for each, whose events come in
  between; shutdown cancels the task.  Sessions are a contract, the locale \<open>session_host\<close>, which
  the host of theory \<open>Acp_Session\<close> fulfils.  The lifecycle of theory \<open>Queue_Lifecycle\<close> is an
  abstraction of this model.
\<close>

section \<open>State and steps\<close>

text \<open>
  What a session may do: the events it emits, in order, and what \<open>run\<close> returns or raises.
\<close>

type_synonym session_runs = "prompt_info \<Rightarrow> (string \<times> data) list \<Rightarrow> acp_run_result option pyres \<Rightarrow> bool"

text \<open>The consumer's task; a busy one has the events its session is still to emit.\<close>

datatype consumer_task =
    Waiting
  | Busy prompt_info "(string \<times> data) list" "acp_run_result option pyres"
  | Stopped

record 'w live =
  lv_service :: "'w service"
  lv_consumer :: consumer_task
  lv_history :: "(string \<times> data) list"      \<comment> \<open>ghost: everything emitted\<close>
  lv_requests :: "(string \<times> rat \<times> request) list"  \<comment> \<open>ghost: everything received, refused or not\<close>

definition live_init :: "nat \<Rightarrow> 'w event_store \<Rightarrow> 'w live" where
  "live_init n s =
     \<lparr>lv_service = \<lparr>sv_queue = PromptQueue n, sv_store = s\<rparr>, lv_consumer = Waiting,
      lv_history = [], lv_requests = []\<rparr>"

definition webhook_events ::
  "externals \<Rightarrow> settings \<Rightarrow> environ \<Rightarrow> string \<Rightarrow> rat \<Rightarrow> request \<Rightarrow> prompt_queue \<Rightarrow> (string \<times> data) list"
where
  "webhook_events ex cfg env uid now rq q =
     (case decide_delivery ex cfg env uid now rq of (res, evs, x) \<Rightarrow> evs @ submission_events x q)"

definition with_service :: "'w service \<Rightarrow> (string \<times> data) list \<Rightarrow> 'w live \<Rightarrow> 'w live" where
  "with_service sv evs l = l\<lparr>lv_service := sv, lv_history := lv_history l @ evs\<rparr>"

definition emit_all :: "(string \<times> data) list \<Rightarrow> 'w live \<Rightarrow> 'w live" where
  "emit_all evs l =
     with_service ((lv_service l)\<lparr>sv_store := emits evs (sv_store (lv_service l))\<rparr>) evs l"

definition task_finished :: "'w live \<Rightarrow> 'w live" where
  "task_finished l =
     l\<lparr>lv_service := (lv_service l)\<lparr>sv_queue := task_done (sv_queue (lv_service l))\<rparr>\<rparr>"

inductive live_step ::
  "session_runs \<Rightarrow> externals \<Rightarrow> settings \<Rightarrow> environ \<Rightarrow> 'w live \<Rightarrow> 'w live \<Rightarrow> bool"
  for runner ex cfg env
where
  request: "github_webhook ex cfg env uid now rq (lv_service l) = (res, sv) \<Longrightarrow>
    live_step runner ex cfg env l
      (with_service sv (webhook_events ex cfg env uid now rq (sv_queue (lv_service l)))
        (l\<lparr>lv_requests := lv_requests l @ [(uid, now, rq)]\<rparr>))"
| take_next: "lv_consumer l = Waiting \<Longrightarrow> queue_get (sv_queue (lv_service l)) = Some (info, q) \<Longrightarrow>
    runner info evs r \<Longrightarrow> live_step runner ex cfg env l
      (l\<lparr>lv_service := (lv_service l)\<lparr>sv_queue := q\<rparr>, lv_consumer := Busy info evs r\<rparr>)"
| session_emits: "lv_consumer l = Busy info (ev # evs) r \<Longrightarrow> live_step runner ex cfg env l
      (emit_all [ev] (l\<lparr>lv_consumer := Busy info evs r\<rparr>))"
| session_ends: "lv_consumer l = Busy info [] r \<Longrightarrow> live_step runner ex cfg env l
      (emit_all (outcome_events now info r)
        (task_finished (l\<lparr>lv_consumer := if goes_on r then Waiting else Stopped\<rparr>)))"
| stop_waiting: "lv_consumer l = Waiting \<Longrightarrow> live_step runner ex cfg env l (l\<lparr>lv_consumer := Stopped\<rparr>)"

inductive live_reach ::
  "session_runs \<Rightarrow> externals \<Rightarrow> settings \<Rightarrow> environ \<Rightarrow> nat \<Rightarrow> 'w live \<Rightarrow> bool"
  for runner ex cfg env n
where
  init: "recorded s = [] \<Longrightarrow> live_reach runner ex cfg env n (live_init n s)"
| step: "live_reach runner ex cfg env n l \<Longrightarrow> live_step runner ex cfg env l l' \<Longrightarrow>
    live_reach runner ex cfg env n l'"

lemma live_frames [simp]:
  "lv_service (with_service sv evs l) = sv" "lv_consumer (with_service sv evs l) = lv_consumer l"
  "lv_history (with_service sv evs l) = lv_history l @ evs"
  "lv_service (emit_all evs l) = (lv_service l)\<lparr>sv_store := emits evs (sv_store (lv_service l))\<rparr>"
  "lv_consumer (emit_all evs l) = lv_consumer l" "lv_history (emit_all evs l) = lv_history l @ evs"
  "lv_service (task_finished l) = (lv_service l)\<lparr>sv_queue := task_done (sv_queue (lv_service l))\<rparr>"
  "lv_consumer (task_finished l) = lv_consumer l" "lv_history (task_finished l) = lv_history l"
  "lv_requests (with_service sv evs l) = lv_requests l" "lv_requests (emit_all evs l) = lv_requests l"
  "lv_requests (task_finished l) = lv_requests l"
  by (simp_all add: with_service_def emit_all_def task_finished_def)

text \<open>The history is what the store was given.\<close>

lemma github_webhook_events:
  "github_webhook ex cfg env uid now rq sv = (res, sv') \<Longrightarrow>
   sv_store sv' = emits (webhook_events ex cfg env uid now rq (sv_queue sv)) (sv_store sv) \<and>
   sv_queue sv' = submission_queue (snd (snd (decide_delivery ex cfg env uid now rq))) (sv_queue sv)"
  by (auto simp: webhook_refines_spec apply_decision_def webhook_events_def split: prod.splits)

lemma live_step_history:
  "live_step runner ex cfg env l l' \<Longrightarrow>
   \<exists>evs. lv_history l' = lv_history l @ evs \<and> sv_store (lv_service l') = emits evs (sv_store (lv_service l))"
  by (induction rule: live_step.induct) (auto dest: github_webhook_events intro: exI [of _ "[]"])

lemma live_history:
  "live_reach runner ex cfg env n l \<Longrightarrow>
   \<exists>s. recorded s = [] \<and> sv_store (lv_service l) = emits (lv_history l) s"
proof (induction rule: live_reach.induct)
  case (init s)
  then show ?case by (auto simp: live_init_def)
next
  case (step l l')
  with live_step_history [OF step.hyps(2)] show ?case by (force simp: emits_append)
qed

section \<open>Sessions\<close>

text \<open>Without a host the consumer marks an envelope as consumed and nothing else happens.\<close>

definition no_host :: session_runs where
  "no_host info evs r \<longleftrightarrow> evs = [] \<and> r = Inr None"

text \<open>
  The runs of the host, in any world and under any script of happenings.  The sink of the store
  writes down what is emitted.
\<close>

definition write_down :: "event \<Rightarrow> (string \<times> data) list \<Rightarrow> pyexc option \<times> (string \<times> data) list" where
  "write_down e w = (None, w @ [(ev_type e, ev_data e)])"

definition acp_runs :: "settings \<Rightarrow> bool \<Rightarrow> session_runs" where
  "acp_runs st bridged info evs r \<longleftrightarrow>
     (\<exists>env script s t result. run env st bridged info script s = Some (result, t) \<and>
        es_sink (br_store s) = Some write_down \<and> es_world (br_store s) = [] \<and>
        es_world (br_store t) = evs \<and> r = rmap Some result)"

text \<open>
  The contract between the consumer and what it runs: the events of a session are its own, and a
  session that returns has recorded its success.
\<close>

definition succeeded :: "prompt_info \<Rightarrow> string \<times> data \<Rightarrow> bool" where
  "succeeded info ev \<longleftrightarrow>
     fst ev = ''agent_finished'' \<and> map_of (snd ev) ''run_id'' = Some (PStr (pi_id info)) \<and>
     map_of (snd ev) ''ok'' = Some (PBool True)"

locale session_host =
  fixes runner :: session_runs
  assumes own_events: "runner info evs r \<Longrightarrow> ev \<in> set evs \<Longrightarrow> session_event info ev"
    and success_recorded: "runner info evs (Inr (Some result)) \<Longrightarrow> \<exists>ev \<in> set evs. succeeded info ev"
begin

lemma not_of_service: "runner info evs r \<Longrightarrow> ev \<in> set evs \<Longrightarrow> fst ev \<notin> SERVICE_EVENTS"
  using own_events by (auto simp: session_event_def)

end

interpretation placeholder: session_host no_host
  by unfold_locales (auto simp: no_host_def)

lemma es_world_written:
  "es_sink s = Some write_down \<Longrightarrow> es_world (emits evs s) = es_world s @ evs"
proof (induction evs arbitrary: s)
  case (Cons ev evs)
  obtain t d where ev: "ev = (t, d)" by (cases ev)
  have "es_world (emits evs (emit t d s)) = es_world (emit t d s) @ evs"
    using Cons.prems by (intro Cons.IH) simp
  with Cons.prems show ?case by (simp add: ev es_world_emit write_down_def make_event_def)
qed simp

lemma acp_runs_outcome:
  assumes "acp_runs st bridged info evs r"
  shows "(\<forall>ev \<in> set evs. session_event info ev) \<and> (is_ok r \<longrightarrow> (\<exists>ev \<in> set evs. succeeded info ev))"
proof -
  from assms obtain env script and s t :: "(string \<times> data) list session" and result where
      run: "run env st bridged info script s = Some (result, t)"
      and s: "es_sink (br_store s) = Some write_down" "es_world (br_store s) = []"
      and evs: "es_world (br_store t) = evs" and r: "r = rmap Some result"
    unfolding acp_runs_def by blast
  from run_outcome [OF run] obtain es where es: "br_store t = emits es (br_store s)"
      "\<forall>ev \<in> set es. session_event info ev"
      and out: "case filter (\<lambda>ev. fst ev = ''agent_finished'') es of
          [] \<Rightarrow> \<not> is_ok result
        | [ev] \<Rightarrow> map_of (snd ev) ''run_id'' = Some (PStr (pi_id info)) \<and>
            (is_ok result \<longrightarrow> map_of (snd ev) ''ok'' = Some (PBool True) \<and> ev = last es)
        | _ \<Rightarrow> False"
    unfolding outcome_recorded_def by blast
  have "evs = es" using es(1) evs s es_world_written [OF s(1), of es] by simp
  moreover have "\<exists>ev \<in> set es. succeeded info ev" if "is_ok r"
  proof -
    have ok: "is_ok result" using that r by simp
    with out obtain ev where f: "filter (\<lambda>ev. fst ev = ''agent_finished'') es = [ev]"
        and ev: "map_of (snd ev) ''run_id'' = Some (PStr (pi_id info))" "map_of (snd ev) ''ok'' = Some (PBool True)"
      by (auto split: list.splits)
    have "ev \<in> set (filter (\<lambda>ev. fst ev = ''agent_finished'') es)" unfolding f by simp
    with ev show ?thesis by (auto simp: succeeded_def)
  qed
  ultimately show ?thesis using es(2) by blast
qed

interpretation acp: session_host "acp_runs st bridged" for st bridged
proof
  fix info evs r ev
  assume "acp_runs st bridged info evs r" and "ev \<in> set evs"
  then show "session_event info ev" using acp_runs_outcome by blast
next
  fix info evs result
  assume "acp_runs st bridged info evs (Inr (Some result))"
  then show "\<exists>ev \<in> set evs. succeeded info ev" using acp_runs_outcome by fastforce
qed

text \<open>What the consumer of \<open>create_app\<close> runs: the host if ACP is enabled, else nothing.\<close>

definition service_runner :: "settings \<Rightarrow> bool \<Rightarrow> session_runs" where
  "service_runner st bridged = (if st_acp_enabled st then acp_runs st bridged else no_host)"

interpretation any_host: session_host "service_runner st bridged" for st bridged
  by (cases "st_acp_enabled st") (simp_all add: service_runner_def acp.session_host_axioms placeholder.session_host_axioms)

section \<open>The audit trail\<close>

text \<open>
  An envelope in the service stems from a delivery that was received, signed and allowed, and its
  way so far is on record.
\<close>

definition on_record ::
  "externals \<Rightarrow> settings \<Rightarrow> environ \<Rightarrow> (string \<times> rat \<times> request) list \<Rightarrow> (string \<times> data) list \<Rightarrow> prompt_info \<Rightarrow> bool"
where
  "on_record ex cfg env rqs h info \<longleftrightarrow>
     (\<exists>now rq. (pi_id info, now, rq) \<in> set rqs \<and> accepted_as ex cfg env rq info) \<and>
     (\<exists>d. (''webhook_accepted'', d) \<in> set h \<and> map_of d ''delivery_id'' = Some (PStr (pi_delivery_id info))) \<and>
     (''prompt_queued'', queued_data info) \<in> set h"

text \<open>What the consumer records has a beginning, and success is what the session recorded.\<close>

definition accounted ::
  "externals \<Rightarrow> settings \<Rightarrow> environ \<Rightarrow> (string \<times> rat \<times> request) list \<Rightarrow> (string \<times> data) list \<Rightarrow> data \<Rightarrow> bool"
where
  "accounted ex cfg env rqs h d \<longleftrightarrow>
     (\<exists>info. on_record ex cfg env rqs h info \<and> map_of d ''id'' = Some (PStr (pi_id info)) \<and>
        map_of d ''delivery_id'' = Some (PStr (pi_delivery_id info)) \<and>
        (map_of d ''session_id'' \<noteq> None \<longrightarrow> (\<exists>ev \<in> set h. succeeded info ev)))"

definition all_accounted ::
  "externals \<Rightarrow> settings \<Rightarrow> environ \<Rightarrow> (string \<times> rat \<times> request) list \<Rightarrow> (string \<times> data) list \<Rightarrow> bool"
where
  "all_accounted ex cfg env rqs h \<longleftrightarrow>
     (\<forall>xs d ys. h = xs @ (''prompt_consumed'', d) # ys \<longrightarrow> accounted ex cfg env rqs xs d)"

lemma on_record_mono: "on_record ex cfg env rqs h info \<Longrightarrow> on_record ex cfg env rqs (h @ evs) info"
  by (auto simp: on_record_def)

lemma on_record_requests:
  "on_record ex cfg env rqs h info \<Longrightarrow> set rqs \<subseteq> set rqs' \<Longrightarrow> on_record ex cfg env rqs' h info"
  unfolding on_record_def by blast

lemma accounted_requests: "accounted ex cfg env rqs h d \<Longrightarrow> set rqs \<subseteq> set rqs' \<Longrightarrow> accounted ex cfg env rqs' h d"
  unfolding accounted_def using on_record_requests by blast

lemma all_accounted_requests:
  "all_accounted ex cfg env rqs h \<Longrightarrow> set rqs \<subseteq> set rqs' \<Longrightarrow> all_accounted ex cfg env rqs' h"
  unfolding all_accounted_def by (blast intro: accounted_requests)

lemma all_accounted_snoc:
  assumes "all_accounted ex cfg env rqs h" and "fst ev = ''prompt_consumed'' \<longrightarrow> accounted ex cfg env rqs h (snd ev)"
  shows "all_accounted ex cfg env rqs (h @ [ev])"
  unfolding all_accounted_def
proof (intro allI impI)
  fix xs d ys assume eq: "h @ [ev] = xs @ (''prompt_consumed'', d) # ys"
  show "accounted ex cfg env rqs xs d"
  proof (cases ys rule: rev_cases)
    case Nil
    with eq assms(2) show ?thesis by auto
  next
    case (snoc zs z)
    with eq have "h = xs @ (''prompt_consumed'', d) # zs" by simp
    with assms(1) show ?thesis by (simp add: all_accounted_def)
  qed
qed

lemma all_accounted_others:
  "all_accounted ex cfg env rqs h \<Longrightarrow> \<forall>ev \<in> set evs. fst ev \<noteq> ''prompt_consumed'' \<Longrightarrow>
   all_accounted ex cfg env rqs (h @ evs)"
proof (induction evs arbitrary: h)
  case (Cons ev evs)
  then show ?case using Cons.IH [of "h @ [ev]"] by (simp add: all_accounted_snoc)
qed simp

lemma decide_delivery_reply:
  "decide_delivery ex cfg env uid now rq = (res, evs, Some info) \<Longrightarrow>
   res = accepted_reply (header (rq_delivery rq)) (py_lower (header (rq_event rq)))"
  by (auto simp: decide_delivery_def split: if_splits sum.splits dest!: decide_payload_submits)

lemma decide_delivery_id:
  "decide_delivery ex cfg env uid now rq = (res, evs, Some info) \<Longrightarrow> pi_id info = uid"
  by (auto simp: decide_delivery_def split: if_splits sum.splits dest!: decide_payload_submits make_envelope_fields)

lemma decide_delivery_events:
  assumes "decide_delivery ex cfg env uid now rq = (res, evs, x)"
  shows "(\<forall>ev \<in> set evs. fst ev \<in> {''webhook_received'', ''webhook_filtered'', ''webhook_accepted''}) \<and>
    (\<forall>info. x = Some info \<longrightarrow> (\<exists>d. (''webhook_accepted'', d) \<in> set evs \<and>
       map_of d ''delivery_id'' = Some (PStr (pi_delivery_id info))))"
  using assms
  by (auto simp: decide_delivery_def decide_payload_def Let_def accepted_data_def
      split: if_splits sum.splits prod.splits bool.splits dest!: make_envelope_fields)

lemma webhook_events_types:
  assumes "ev \<in> set (webhook_events ex cfg env uid now rq q)"
  shows "fst ev \<noteq> ''prompt_consumed''"
proof -
  obtain res evs x where dec: "decide_delivery ex cfg env uid now rq = (res, evs, x)" by (metis prod_cases3)
  from assms decide_delivery_events [OF dec] show ?thesis
    by (auto simp: webhook_events_def dec submission_events_def split: option.splits if_splits)
qed

lemma webhook_queue_on_record:
  assumes "github_webhook ex cfg env uid now rq sv = (res, sv')" and "info \<in> set (pq_queue (sv_queue sv'))"
    and "info \<notin> set (pq_queue (sv_queue sv))"
    and "(uid, now, rq) \<in> set rqs"
  shows "on_record ex cfg env rqs (h @ webhook_events ex cfg env uid now rq (sv_queue sv)) info"
proof -
  obtain res' evs x where dec: "decide_delivery ex cfg env uid now rq = (res', evs, x)" by (metis prod_cases3)
  have q: "sv_queue sv' = submission_queue x (sv_queue sv)" using github_webhook_events [OF assms(1)] dec by simp
  from assms(2,3) have x: "x = Some info" and new: "fst (enqueue info (sv_queue sv))"
    by (auto simp: q submission_queue_def pq_queue_enqueue split: option.splits if_splits)
  from decide_delivery_submits [OF dec [unfolded x]] decide_delivery_id [OF dec [unfolded x]]
    decide_delivery_events [OF dec] x new dec assms(4)
  show ?thesis by (auto simp: on_record_def webhook_events_def submission_events_def)
qed

context session_host begin

text \<open>
  The invariant of the running service: every envelope queued or in hand is on record, what a busy
  session still has to emit completes a run that the history holds the rest of, and every outcome
  is accounted for.
\<close>

definition trail :: "externals \<Rightarrow> settings \<Rightarrow> environ \<Rightarrow> 'w live \<Rightarrow> bool" where
  "trail ex cfg env l \<longleftrightarrow>
     (\<forall>info \<in> set (pq_queue (sv_queue (lv_service l))). on_record ex cfg env (lv_requests l) (lv_history l) info) \<and>
     (\<forall>info evs r. lv_consumer l = Busy info evs r \<longrightarrow>
        on_record ex cfg env (lv_requests l) (lv_history l) info \<and>
        (\<exists>pre. runner info (pre @ evs) r \<and> set pre \<subseteq> set (lv_history l))) \<and>
     all_accounted ex cfg env (lv_requests l) (lv_history l)"

lemma trail_init: "trail ex cfg env (live_init n s)"
  by (simp add: trail_def live_init_def PromptQueue_def all_accounted_def)

lemma trail_grow:
  assumes "trail ex cfg env l" and "lv_history l' = lv_history l @ evs" and "lv_consumer l' = lv_consumer l"
    and "set (lv_requests l) \<subseteq> set (lv_requests l')" and "\<forall>ev \<in> set evs. fst ev \<noteq> ''prompt_consumed''"
    and "\<And>info. info \<in> set (pq_queue (sv_queue (lv_service l'))) \<Longrightarrow>
      info \<notin> set (pq_queue (sv_queue (lv_service l))) \<Longrightarrow> on_record ex cfg env (lv_requests l') (lv_history l') info"
  shows "trail ex cfg env l'"
proof -
  have grow: "on_record ex cfg env (lv_requests l') (lv_history l') info"
    if "on_record ex cfg env (lv_requests l) (lv_history l) info" for info
    unfolding assms(2) by (rule on_record_requests [OF on_record_mono [OF that] assms(4)])
  have "\<forall>info \<in> set (pq_queue (sv_queue (lv_service l'))). on_record ex cfg env (lv_requests l') (lv_history l') info"
    using assms(1,6) grow unfolding trail_def by blast
  moreover have "all_accounted ex cfg env (lv_requests l') (lv_history l')"
    using assms(1,4,5) unfolding assms(2) trail_def by (blast intro: all_accounted_others all_accounted_requests)
  moreover have "on_record ex cfg env (lv_requests l') (lv_history l') info \<and>
      (\<exists>pre. runner info (pre @ es) r \<and> set pre \<subseteq> set (lv_history l'))"
    if "lv_consumer l' = Busy info es r" for info es r
  proof -
    from assms(1,3) that obtain pre where rec: "on_record ex cfg env (lv_requests l) (lv_history l) info"
        and pre: "runner info (pre @ es) r" "set pre \<subseteq> set (lv_history l)"
      unfolding trail_def by metis
    then have "set pre \<subseteq> set (lv_history l')" by (auto simp: assms(2))
    with grow [OF rec] pre(1) show ?thesis by blast
  qed
  ultimately show ?thesis unfolding trail_def by blast
qed

lemma outcome_accounted:
  assumes "lv_consumer l = Busy info [] r" and "trail ex cfg env l" and "ev \<in> set (outcome_events now info r)"
  shows "accounted ex cfg env (lv_requests l) (lv_history l) (snd ev)"
proof -
  from assms(1,2) obtain pre where rec: "on_record ex cfg env (lv_requests l) (lv_history l) info"
      and pre: "runner info pre r" "set pre \<subseteq> set (lv_history l)"
    by (auto simp: trail_def)
  have "\<exists>ev \<in> set (lv_history l). succeeded info ev" if "r = Inr (Some result)" for result
    using success_recorded pre that by blast
  with assms(3) rec show ?thesis
    by (auto simp: accounted_def outcome_events_def consumed_data_def failed_data_def mark_consumed_def
        split: sum.splits if_splits option.splits)
qed

lemma outcome_events_le1: "outcome_events now info r = [] \<or> (\<exists>ev. outcome_events now info r = [ev])"
  by (simp add: outcome_events_def split: sum.split)

lemma trail_step:
  assumes "live_step runner ex cfg env l l'" and "trail ex cfg env l"
  shows "trail ex cfg env l'"
  using assms
proof (induction rule: live_step.induct)
  case (request uid now rq l res sv)
  show ?case
    by (rule trail_grow [OF request.prems])
      (use request.hyps in \<open>auto dest: webhook_events_types intro: webhook_queue_on_record\<close>)
next
  case (take_next l info q evs r)
  then have q: "pq_queue (sv_queue (lv_service l)) = info # pq_queue q" by (auto simp: queue_get_def split: list.splits)
  with take_next show ?case by (auto simp: trail_def intro: exI [of _ "[]"])
next
  case (session_emits l info ev evs r)
  then obtain pre where pre: "runner info (pre @ ev # evs) r" "set pre \<subseteq> set (lv_history l)"
    by (auto simp: trail_def)
  then have "fst ev \<noteq> ''prompt_consumed''" using not_of_service [of info _ r ev] by (auto simp: SERVICE_EVENTS_def)
  with session_emits pre show ?case
    by (auto simp: trail_def all_accounted_snoc intro: on_record_mono intro!: exI [of _ "pre @ [ev]"])
next
  case (session_ends l info r now)
  then have queue: "\<forall>i \<in> set (pq_queue (sv_queue (lv_service l))). on_record ex cfg env (lv_requests l) (lv_history l) i"
      and acc: "all_accounted ex cfg env (lv_requests l) (lv_history l)" by (auto simp: trail_def)
  have "all_accounted ex cfg env (lv_requests l) (lv_history l @ outcome_events now info r)"
    using outcome_events_le1 [of now info r]
  proof
    assume "\<exists>ev. outcome_events now info r = [ev]"
    then obtain ev where ev: "outcome_events now info r = [ev]" by blast
    with outcome_accounted [OF session_ends.hyps session_ends.prems, of ev now] acc show ?thesis
      by (simp add: all_accounted_snoc)
  qed (simp add: acc)
  with queue show ?case by (auto simp: trail_def task_done_def intro: on_record_mono)
next
  case (stop_waiting l)
  then show ?case by (simp add: trail_def)
qed

lemma trail_reach: "live_reach runner ex cfg env n l \<Longrightarrow> trail ex cfg env l"
  by (induction rule: live_reach.induct) (auto intro: trail_init trail_step)

lemma outcomes_accounted:
  assumes "live_reach runner ex cfg env n l" and "lv_history l = xs @ (''prompt_consumed'', d) # ys"
  shows "accounted ex cfg env (lv_requests l) xs d"
  using trail_reach [OF assms(1)] assms(2) by (simp add: trail_def all_accounted_def)

end

section \<open>Refinement\<close>

text \<open>
  The lifecycle of the queue abstracts from requests and sessions: a request is some events and an
  arrival, a session is some events and an outcome.
\<close>

definition lifecycle_of :: "'w live \<Rightarrow> 'w life \<Rightarrow> bool" where
  "lifecycle_of l k \<longleftrightarrow>
     lf_queue k = sv_queue (lv_service l) \<and> lf_store k = sv_store (lv_service l) \<and>
     lf_current k = (case lv_consumer l of Busy info _ _ \<Rightarrow> Some info | _ \<Rightarrow> None) \<and>
     lf_stopped k = (lv_consumer l = Stopped)"

lemma life_reach_emits:
  "life_reach n k \<Longrightarrow> \<forall>ev \<in> set evs. fst ev \<noteq> ''prompt_consumed'' \<Longrightarrow>
   life_reach n (k\<lparr>lf_store := emits evs (lf_store k)\<rparr>)"
proof (induction evs arbitrary: k)
  case (Cons ev evs)
  have "life_reach n (k\<lparr>lf_store := emit (fst ev) (snd ev) (lf_store k)\<rparr>)"
    using Cons.prems by (intro life_reach.step [OF Cons.prems(1) other_event]) simp
  from Cons.IH [OF this] Cons.prems(2) show ?case by (cases ev) simp
qed simp

lemma life_reach_arrive:
  assumes "life_reach n k"
  shows "\<exists>as. life_reach n (k\<lparr>lf_queue := submission_queue x (lf_queue k), lf_accepted := as\<rparr>)"
proof (cases x)
  case None
  then show ?thesis using assms by (intro exI [of _ "lf_accepted k"]) (simp add: submission_queue_def)
next
  case (Some info)
  have "life_step k (k\<lparr>lf_queue := snd (enqueue info (lf_queue k)),
      lf_accepted := lf_accepted k @ (if fst (enqueue info (lf_queue k)) then [info] else [])\<rparr>)"
    by (rule life_step.arrive) simp
  from life_reach.step [OF assms this] Some show ?thesis by (auto simp: submission_queue_def)
qed

lemma life_request:
  assumes "life_reach n k" and "lifecycle_of l k"
    and "github_webhook ex cfg env uid now rq (lv_service l) = (res, sv)"
  shows "\<exists>k'. life_reach n k' \<and> lifecycle_of (with_service sv evs l) k'"
proof -
  obtain res' es x where dec: "decide_delivery ex cfg env uid now rq = (res', es, x)" by (metis prod_cases3)
  let ?evs = "webhook_events ex cfg env uid now rq (sv_queue (lv_service l))"
  obtain as where "life_reach n (k\<lparr>lf_queue := submission_queue x (lf_queue k), lf_accepted := as\<rparr>)"
    using life_reach_arrive [OF assms(1)] by blast
  from life_reach_emits [OF this, of ?evs] webhook_events_types
  have "life_reach n (k\<lparr>lf_queue := submission_queue x (lf_queue k), lf_accepted := as,
      lf_store := emits ?evs (lf_store k)\<rparr>)" by fastforce
  moreover have "lifecycle_of (with_service sv evs l) (k\<lparr>lf_queue := submission_queue x (lf_queue k),
      lf_accepted := as, lf_store := emits ?evs (lf_store k)\<rparr>)"
    using assms(2) github_webhook_events [OF assms(3)] dec by (simp add: lifecycle_of_def)
  ultimately show ?thesis by blast
qed

context session_host begin

lemma refines_step:
  assumes "live_step runner ex cfg env l l'" and "trail ex cfg env l"
    and "life_reach n k" and "lifecycle_of l k"
  shows "\<exists>k'. life_reach n k' \<and> lifecycle_of l' k'"
  using assms
proof (induction rule: live_step.induct)
  case (request uid now rq l res sv)
  let ?l = "l\<lparr>lv_requests := lv_requests l @ [(uid, now, rq)]\<rparr>"
  have "lifecycle_of ?l k" using request.prems(3) by (simp add: lifecycle_of_def)
  from life_request [OF request.prems(2) this, of ex cfg env uid now rq res sv] request.hyps
  show ?case by simp
next
  case (take_next l info q evs r)
  then have "life_step k (k\<lparr>lf_queue := q, lf_current := Some info\<rparr>)"
    by (intro life_step.take_next) (simp_all add: lifecycle_of_def)
  with take_next show ?case
    by (intro exI [of _ "k\<lparr>lf_queue := q, lf_current := Some info\<rparr>"])
      (auto simp: lifecycle_of_def intro: life_reach.step)
next
  case (session_emits l info ev evs r)
  then obtain pre where "runner info (pre @ ev # evs) r" by (auto simp: trail_def)
  then have "fst ev \<noteq> ''prompt_consumed''" using not_of_service [of info _ r ev] by (auto simp: SERVICE_EVENTS_def)
  with life_reach_emits [OF session_emits.prems(2), of "[ev]"]
  have "life_reach n (k\<lparr>lf_store := emits [ev] (lf_store k)\<rparr>)" by simp
  with session_emits show ?case
    by (intro exI [of _ "k\<lparr>lf_store := emits [ev] (lf_store k)\<rparr>"]) (auto simp: lifecycle_of_def)
next
  case (session_ends l info r now)
  then have cur: "lf_current k = Some info" by (simp add: lifecycle_of_def)
  show ?case
  proof (cases "goes_on r")
    case True
    from life_reach.step [OF session_ends.prems(2) life_step.finish [OF cur True, where now = now]] session_ends True
    show ?thesis by (intro exI conjI) (auto simp: lifecycle_of_def)
  next
    case False
    from life_reach.step [OF session_ends.prems(2) life_step.cancel_busy [OF cur False, where now = now]] session_ends False
    show ?thesis by (intro exI conjI) (auto simp: lifecycle_of_def)
  qed
next
  case (stop_waiting l)
  then have "life_step k (k\<lparr>lf_stopped := True\<rparr>)"
    by (intro life_step.cancel_idle) (simp add: lifecycle_of_def)
  with stop_waiting show ?case
    by (intro exI [of _ "k\<lparr>lf_stopped := True\<rparr>"]) (auto simp: lifecycle_of_def intro: life_reach.step)
qed

lemma refines_lifecycle:
  "live_reach runner ex cfg env n l \<Longrightarrow> \<exists>k. life_reach n k \<and> lifecycle_of l k"
proof (induction rule: live_reach.induct)
  case (init s)
  have "lifecycle_of (live_init n s) (life_init n s)"
    by (simp add: lifecycle_of_def live_init_def life_init_def)
  with init show ?case by (blast intro: life_reach.init)
next
  case (step l l')
  then show ?case using refines_step trail_reach by blast
qed

end

section \<open>What holds of the running service\<close>

text \<open>The event store holds the newest part of the history.\<close>

lemma live_recorded:
  "live_reach runner ex cfg env n l \<Longrightarrow>
   \<exists>k. recorded (sv_store (lv_service l)) = last_n k (lv_history l)"
  by (metis append_Nil recorded_emits list.size(3) live_history zero_le)

text \<open>
  C3: every outcome has a trail.  In the running service, under every interleaving of requests,
  session events, consumer steps and shutdown, a \<open>prompt_consumed\<close> event is about an envelope that
  stems from a request the service received, which was signed and allowed: the event carries the id
  drawn for that request and its delivery id.  It comes after the \<open>webhook_accepted\<close> event of the
  delivery and the \<open>prompt_queued\<close> event of the envelope; when it names a session, that session has
  recorded its success before.
\<close>

theorem outcomes_have_a_trail:
  assumes "live_reach (service_runner st bridged) ex cfg env n l"
    and "lv_history l = xs @ (''prompt_consumed'', d) # ys"
  shows "\<exists>uid now rq info. (uid, now, rq) \<in> set (lv_requests l) \<and> accepted_as ex cfg env rq info \<and>
    map_of d ''id'' = Some (PStr uid) \<and>
    map_of d ''delivery_id'' = Some (PStr (header (rq_delivery rq))) \<and>
    (\<exists>a. (''webhook_accepted'', a) \<in> set xs \<and> map_of a ''delivery_id'' = map_of d ''delivery_id'') \<and>
    (''prompt_queued'', queued_data info) \<in> set xs \<and> pi_id info = uid \<and>
    (map_of d ''session_id'' \<noteq> None \<longrightarrow>
       (\<exists>f. (''agent_finished'', f) \<in> set xs \<and> map_of f ''run_id'' = map_of d ''id'' \<and>
          map_of f ''ok'' = Some (PBool True)))"
proof -
  obtain info where info: "on_record ex cfg env (lv_requests l) xs info" "map_of d ''id'' = Some (PStr (pi_id info))"
      "map_of d ''delivery_id'' = Some (PStr (pi_delivery_id info))"
      "map_of d ''session_id'' \<noteq> None \<Longrightarrow> \<exists>ev \<in> set xs. succeeded info ev"
    using any_host.outcomes_accounted [OF assms] unfolding accounted_def by blast
  then obtain now rq where rq: "(pi_id info, now, rq) \<in> set (lv_requests l)" "accepted_as ex cfg env rq info"
    by (auto simp: on_record_def)
  then have "pi_delivery_id info = header (rq_delivery rq)" by (simp add: accepted_as_def)
  with info rq show ?thesis by (fastforce simp: on_record_def succeeded_def)
qed

text \<open>
  C4: the running service refines the lifecycle of the queue.  Whatever requests, sessions and
  shutdown do, queue, store and consumer are those of a reachable state of the abstract lifecycle,
  so what is proved of it (no loss, no duplicates, one outcome each) holds of the service.
\<close>

theorem service_refines_lifecycle:
  assumes "live_reach (acp_runs st bridged) ex cfg env n l"
  shows "\<exists>k. life_reach n k \<and> lf_queue k = sv_queue (lv_service l) \<and>
    lf_store k = sv_store (lv_service l) \<and>
    lf_current k = (case lv_consumer l of Busy info _ _ \<Rightarrow> Some info | _ \<Rightarrow> None) \<and>
    lf_stopped k = (lv_consumer l = Stopped)"
  using acp.refines_lifecycle [OF assms] unfolding lifecycle_of_def by blast

section \<open>Redelivery\<close>

text \<open>
  The delivery ids of the \<open>prompt_queued\<close> events of a history.  The dedup window of the queue is
  the newest of them, whatever the consumer has taken from the queue since.
\<close>

definition queued_ids :: "(string \<times> data) list \<Rightarrow> pyval option list" where
  "queued_ids h = map (\<lambda>(t, d). map_of d ''delivery_id'') (filter (\<lambda>(t, d). t = ''prompt_queued'') h)"

definition window_of_history :: "nat \<Rightarrow> 'w live \<Rightarrow> bool" where
  "window_of_history n l \<longleftrightarrow>
     queue_inv n (sv_queue (lv_service l)) \<and>
     map (Some \<circ> PStr) (pq_seen_order (sv_queue (lv_service l))) = last_n n (queued_ids (lv_history l))"

lemma queued_ids_append: "queued_ids (xs @ ys) = queued_ids xs @ queued_ids ys"
  by (simp add: queued_ids_def)

lemma queued_ids_none: "\<forall>ev \<in> set evs. fst ev \<noteq> ''prompt_queued'' \<Longrightarrow> queued_ids evs = []"
  by (auto simp: queued_ids_def filter_empty_conv)

lemma length_queued_ids: "length (queued_ids h) = length (filter (\<lambda>ev. fst ev = ''prompt_queued'') h)"
  by (simp add: queued_ids_def case_prod_unfold)

lemma queued_ids_webhook:
  assumes "decide_delivery ex cfg env uid now rq = (res, evs, x)"
  shows "queued_ids (webhook_events ex cfg env uid now rq q) =
    (case x of None \<Rightarrow> [] | Some info \<Rightarrow> if fst (enqueue info q) then [Some (PStr (pi_delivery_id info))] else [])"
proof -
  have "\<forall>ev \<in> set evs. fst ev \<noteq> ''prompt_queued''" using decide_delivery_events [OF assms] by fastforce
  then show ?thesis
    by (simp add: webhook_events_def assms queued_ids_append queued_ids_none)
      (simp add: queued_ids_def submission_events_def queued_data_def split: option.split)
qed

lemma window_frame:
  assumes "window_of_history n l" and "lv_history l' = lv_history l @ evs" and "queued_ids evs = []"
    and "pq_maxlen (sv_queue (lv_service l')) = pq_maxlen (sv_queue (lv_service l))"
    and "pq_seen (sv_queue (lv_service l')) = pq_seen (sv_queue (lv_service l))"
    and "pq_seen_order (sv_queue (lv_service l')) = pq_seen_order (sv_queue (lv_service l))"
  shows "window_of_history n l'"
  using assms by (simp add: window_of_history_def queued_ids_append queue_inv_frame [OF assms(4-6)])

lemma window_request:
  assumes "window_of_history n l" and "0 < n"
    and "github_webhook ex cfg env uid now rq (lv_service l) = (res, sv)"
    and same: "lv_history l' = lv_history l"
  shows "window_of_history n (with_service sv (webhook_events ex cfg env uid now rq (sv_queue (lv_service l))) l')"
proof -
  obtain res' evs x where dec: "decide_delivery ex cfg env uid now rq = (res', evs, x)" by (metis prod_cases3)
  have q: "sv_queue sv = submission_queue x (sv_queue (lv_service l))"
    using github_webhook_events [OF assms(3)] dec by simp
  note ids = queued_ids_webhook [OF dec, of "sv_queue (lv_service l)"]
  show ?thesis
  proof (cases x)
    case None
    with assms(1) q ids same show ?thesis
      by (simp add: window_of_history_def submission_queue_def queued_ids_append)
  next
    case (Some info)
    have "queue_inv n (sv_queue sv)"
      using assms(1,2) q Some by (simp add: window_of_history_def submission_queue_def queue_inv_enqueue)
    moreover have "map (Some \<circ> PStr) (pq_seen_order (sv_queue sv)) =
        last_n n (queued_ids (lv_history l) @ (if fst (enqueue info (sv_queue (lv_service l)))
          then [Some (PStr (pi_delivery_id info))] else []))"
      using assms(1) q Some last_n_last_n_append [of n "queued_ids (lv_history l)"]
      by (simp add: window_of_history_def submission_queue_def pq_seen_order_enqueue queue_inv_def map_last_n)
    ultimately show ?thesis using ids Some same by (simp add: window_of_history_def queued_ids_append)
  qed
qed

context session_host begin

lemma window_step:
  assumes "live_step runner ex cfg env l l'" and "trail ex cfg env l" and "0 < n" and "window_of_history n l"
  shows "window_of_history n l'"
  using assms
proof (induction rule: live_step.induct)
  case (request uid now rq l res sv)
  from window_request [OF request.prems(3,2) request.hyps] show ?case by simp
next
  case (take_next l info q evs r)
  then have "pq_maxlen q = pq_maxlen (sv_queue (lv_service l))" "pq_seen q = pq_seen (sv_queue (lv_service l))"
    "pq_seen_order q = pq_seen_order (sv_queue (lv_service l))"
    by (auto simp: queue_get_def split: list.splits)
  with take_next show ?case by - (rule window_frame [where l = l and evs = "[]"]; simp add: queued_ids_def)
next
  case (session_emits l info ev evs r)
  then obtain pre where "runner info (pre @ ev # evs) r" by (auto simp: trail_def)
  then have "fst ev \<noteq> ''prompt_queued''" using not_of_service [of info _ r ev] by (auto simp: SERVICE_EVENTS_def)
  then have "queued_ids [ev] = []" by (simp add: queued_ids_none)
  with session_emits show ?case by - (rule window_frame [where l = l and evs = "[ev]"]; simp)
next
  case (session_ends l info r now)
  have "queued_ids (outcome_events now info r) = []"
    by (rule queued_ids_none) (auto simp: outcome_events_def split: sum.splits if_splits)
  with session_ends show ?case
    by - (rule window_frame [where l = l and evs = "outcome_events now info r"]; simp add: task_done_def)
next
  case (stop_waiting l)
  then show ?case by (simp add: window_of_history_def)
qed

lemma window_reach: "live_reach runner ex cfg env n l \<Longrightarrow> 0 < n \<Longrightarrow> window_of_history n l"
proof (induction rule: live_reach.induct)
  case (init s)
  then show ?case using queue_inv_init [of n]
    by (simp add: window_of_history_def live_init_def PromptQueue_def queued_ids_def)
next
  case (step l l')
  then show ?case using window_step trail_reach by blast
qed

end

text \<open>
  C22: at-least-once delivery is made at-most-once within the window.  In the running service with
  a queue that remembers \<open>n\<close> ids, when a delivery has been queued, and fewer than \<open>n\<close> others
  since, then a further request with its delivery id leaves the queue as it is and records no
  \<open>prompt_queued\<close>, whether the envelope is still waiting, in hand or finished, and whatever else
  has happened; if the request is answered as accepted, its last event says duplicate.
\<close>

theorem redelivery_not_queued_twice:
  assumes "live_reach (service_runner st bridged) ex cfg env n l" and "0 < n"
    and "lv_history l = xs @ (''prompt_queued'', d) # ys"
    and "length (filter (\<lambda>ev. fst ev = ''prompt_queued'') ys) < n"
    and "map_of d ''delivery_id'' = Some (PStr (header (rq_delivery rq)))"
    and "github_webhook ex cfg env uid now rq (lv_service l) = (res, sv)"
  shows "sv_queue sv = sv_queue (lv_service l) \<and>
    (\<exists>evs. sv_store sv = emits evs (sv_store (lv_service l)) \<and>
       (\<forall>ev \<in> set evs. fst ev \<noteq> ''prompt_queued'') \<and>
       (\<forall>event. res = accepted_reply (header (rq_delivery rq)) event \<longrightarrow>
          (\<exists>evs' dup. evs = evs' @ [(''webhook_duplicate'', dup)])))"
proof -
  let ?q = "sv_queue (lv_service l)"
  obtain res' evs x where dec: "decide_delivery ex cfg env uid now rq = (res', evs, x)" by (metis prod_cases3)
  have win: "window_of_history n l" by (rule any_host.window_reach [OF assms(1,2)])
  have "queued_ids (lv_history l) = queued_ids xs @ Some (PStr (header (rq_delivery rq))) # queued_ids ys"
    using assms(5) by (simp add: assms(3) queued_ids_append) (simp add: queued_ids_def)
  moreover have "length (queued_ids ys) < n" using assms(4) by (simp add: length_queued_ids)
  ultimately have "Some (PStr (header (rq_delivery rq))) \<in> set (last_n n (queued_ids (lv_history l)))"
    using last_n_append_le [of "Some (PStr (header (rq_delivery rq))) # queued_ids ys" n "queued_ids xs"] by simp
  also have "last_n n (queued_ids (lv_history l)) = map (Some \<circ> PStr) (pq_seen_order ?q)"
    using win by (simp add: window_of_history_def)
  finally have seen: "header (rq_delivery rq) \<in> pq_seen ?q"
    using win by (auto simp: window_of_history_def queue_inv_def)
  have dup: "\<not> fst (enqueue info ?q)" if "x = Some info" for info
    using decide_delivery_submits [of ex cfg env uid now rq res' evs info] dec that seen
    by (simp add: fst_enqueue accepted_as_def)
  have "sv_queue sv = ?q"
    using github_webhook_events [OF assms(6)] dec dup
    by (auto simp: submission_queue_def enqueue_def Let_def split: option.splits)
  moreover have store: "sv_store sv = emits (webhook_events ex cfg env uid now rq ?q) (sv_store (lv_service l))"
    using github_webhook_events [OF assms(6)] by simp
  moreover have "\<forall>ev \<in> set (webhook_events ex cfg env uid now rq ?q). fst ev \<noteq> ''prompt_queued''"
    using decide_delivery_events [OF dec] dup
    by (fastforce simp: webhook_events_def dec submission_events_def split: option.splits)
  moreover have "x \<noteq> None" if "res = accepted_reply (header (rq_delivery rq)) event" for event
    using that dec assms(6) unfolding webhook_refines_spec
    by (auto simp: apply_decision_def decide_delivery_def decide_payload_def accepted_reply_def http_exception_def Let_def
        split: if_splits sum.splits prod.splits bool.splits)
  then have "\<exists>evs' dup. webhook_events ex cfg env uid now rq ?q = evs' @ [(''webhook_duplicate'', dup)]"
    if "res = accepted_reply (header (rq_delivery rq)) event" for event
    using that dup by (force simp: webhook_events_def dec submission_events_def)
  ultimately show ?thesis by blast
qed

section \<open>The dashboard contract\<close>

lemma webhook_data_documented:
  "documented (''webhook_received'', received_data d e a r)"
  "documented (''webhook_filtered'', filtered_data d e a why)"
  "documented (''webhook_accepted'', accepted_data d e a r sender label)"
  "documented (''prompt_queued'', queued_data info)"
  "documented (''webhook_duplicate'', duplicate_data info)"
  "documented (''prompt_consumed'', failed_data info exc)"
  by (simp_all add: received_data_def filtered_data_def accepted_data_def queued_data_def duplicate_data_def
      failed_data_def documented_simps)

lemma consumed_data_documented: "documented (''prompt_consumed'', consumed_data info (Some r))"
proof -
  let ?ks = "[''id'', ''delivery_id'', ''repo'', ''event'', ''action'', ''label'', ''ok'', ''session_id'', ''stop_reason'']"
  have "map fst (consumed_data info (Some r)) = ?ks" by (simp add: consumed_data_def)
  moreover have "distinct ?ks"
      "set ?ks = set [''id'', ''delivery_id'', ''ok'', ''repo'', ''event'', ''action'', ''label'', ''session_id'', ''stop_reason'']"
    by code_simp+
  ultimately show ?thesis unfolding documented_def snd_conv fst_conv event_forms by simp
qed

lemma webhook_events_documented:
  assumes "ev \<in> set (webhook_events ex cfg env uid now rq q)"
  shows "documented ev"
proof -
  obtain res evs x where dec: "decide_delivery ex cfg env uid now rq = (res, evs, x)" by (metis prod_cases3)
  then have "\<forall>ev \<in> set evs. documented ev"
    by (auto simp: decide_delivery_def decide_payload_def Let_def webhook_data_documented
        split: if_splits sum.splits prod.splits bool.splits)
  moreover have "\<forall>ev \<in> set (submission_events x q). documented ev"
    by (auto simp: submission_events_def webhook_data_documented split: option.splits)
  ultimately show ?thesis using assms by (auto simp: webhook_events_def dec)
qed

lemma outcome_documented:
  assumes "ev \<in> set (outcome_events now info r)" and "r \<noteq> Inr None"
  shows "documented ev"
  using assms
  by (auto simp: outcome_events_def webhook_data_documented consumed_data_documented
      split: sum.splits if_splits option.splits)

text \<open>A placeholder's success names no session, which the table does not provide for.\<close>

lemma placeholder_outcome_undocumented: "\<not> documented (''prompt_consumed'', consumed_data info None)"
proof -
  let ?ks = "[''id'', ''delivery_id'', ''repo'', ''event'', ''action'', ''label'', ''ok'']"
  have "map fst (consumed_data info None) = ?ks" by (simp add: consumed_data_def)
  moreover have "set ?ks \<noteq> set [''id'', ''delivery_id'', ''ok'', ''repo'', ''event'', ''action'', ''label'', ''session_id'', ''stop_reason'']"
      "set ?ks \<noteq> set [''id'', ''delivery_id'', ''ok'', ''error'']"
    by code_simp+
  ultimately show ?thesis
    unfolding documented_def snd_conv fst_conv event_forms option.case set_simps(2) [of _ "_ # _"] by (simp only: bex_simps) simp
qed

text \<open>The success of a placeholder.\<close>

definition placeholder_event :: "string \<times> data \<Rightarrow> bool" where
  "placeholder_event ev \<longleftrightarrow> (\<exists>info. ev = (''prompt_consumed'', consumed_data info None))"

lemma outcome_documented_or_placeholder:
  "ev \<in> set (outcome_events now info r) \<Longrightarrow> documented ev \<or> r = Inr None \<and> placeholder_event ev"
  using outcome_documented [of ev now info r]
  by (cases "r = Inr None") (auto simp: outcome_events_def placeholder_event_def)

context session_host begin

definition contract :: "'w live \<Rightarrow> bool" where
  "contract l \<longleftrightarrow>
     (\<forall>ev \<in> set (lv_history l). documented ev \<or> (\<exists>info es. runner info es (Inr None)) \<and> placeholder_event ev) \<and>
     (\<forall>info evs r. lv_consumer l = Busy info evs r \<longrightarrow>
        (\<forall>ev \<in> set evs. documented ev) \<and> (\<exists>es. runner info es r))"

lemma contract_step:
  assumes "contract l" and "live_step runner ex cfg env l l'"
  shows "contract l'"
  using assms(2)
proof cases
  case (request uid now rq res sv)
  with assms(1) webhook_events_documented show ?thesis by (auto simp: contract_def)
next
  case (take_next info q evs r)
  with assms(1) own_events show ?thesis by (fastforce simp: contract_def session_event_def)
next
  case (session_ends info r now)
  with assms(1) outcome_documented_or_placeholder show ?thesis by (fastforce simp: contract_def)
qed (use assms(1) in \<open>auto simp: contract_def\<close>)

lemma contract_reach: "live_reach runner ex cfg env n l \<Longrightarrow> contract l"
proof (induction rule: live_reach.induct)
  case (init s)
  then show ?case by (simp add: contract_def live_init_def)
next
  case (step l l')
  from contract_step [OF step.IH step.hyps(2)] show ?case .
qed

end

text \<open>
  C9: the service keeps the dashboard contract, with one exception.  Every event that the running
  service emits, by a route, the queue, the sandbox bridge or a session, has a type of the table in
  \<open>app.py\<close>, and its data has exactly the keys documented for that type; the exception, which never
  is, is the success the consumer records with ACP disabled, which names no session.
\<close>

theorem every_event_documented:
  assumes "live_reach (service_runner st bridged) ex cfg env n l" and "ev \<in> set (lv_history l)"
  shows "documented ev \<longleftrightarrow>
    st_acp_enabled st \<or> (\<forall>info. ev \<noteq> (''prompt_consumed'', consumed_data info None))"
proof -
  have "\<not> service_runner st bridged info es (Inr None)" if "st_acp_enabled st" for info es
    using that by (auto simp: service_runner_def acp_runs_def rmap_eq_Inr dest: sym)
  moreover have "documented ev \<or> (\<exists>info es. service_runner st bridged info es (Inr None)) \<and> placeholder_event ev"
    using any_host.contract_reach [OF assms(1)] assms(2) unfolding any_host.contract_def by blast
  ultimately show ?thesis using placeholder_outcome_undocumented by (auto simp: placeholder_event_def)
qed

section \<open>A run of the service\<close>

definition demo_st :: settings where
  "demo_st = sample_settings\<lparr>st_acp_trace_enabled := False, st_acp_enabled := True\<rparr>"

lemma demo_runner: "service_runner demo_st bridged = acp_runs demo_st bridged"
  by (simp add: service_runner_def demo_st_def)

definition demo_result :: acp_run_result where
  "demo_result = \<lparr>rr_session_id = ''s1'', rr_stop_reason = ''end_turn'', rr_workspace = ''/w''\<rparr>"

lemma demo_session:
  "\<exists>evs w. acp_runs demo_st False ((demo_envelope ''u'' 1)\<lparr>pi_prompt := p\<rparr>) evs (Inr (Some (demo_result\<lparr>rr_workspace := w\<rparr>)))"
proof -
  let ?info = "(demo_envelope ''u'' 1)\<lparr>pi_prompt := p\<rparr>"
  let ?s = "\<lparr>br_step = 0, br_calls = [], br_store = EventStore 9 (Some write_down) 7 ''0a1b2c3d'' (\<lambda>_. 0) [],
     ss_command = None, ss_fs = empty_root, ss_trace = None, ss_last = 0, ss_proc = No_Process,
     ss_drain = Not_Started, ss_sid = None\<rparr>"
  have "\<exists>w t. run sample_host demo_st False ?info sample_script ?s = Some (Inr (demo_result\<lparr>rr_workspace := w\<rparr>), t)"
    by (simp add: run_def resolve_opencode_bin_def sample_host_def demo_st_def sample_settings_def Settings_def text_or_def
        prepare_workspace_def sample_checkouts_def run_in_workspace_def write_deny_config_def run_session_def
        happen_def leave_def settle_def cleanup_def stop_drainer_def io_bind_def close_trace_def kill_process_def
        release_sandbox_def finish_trace_def fresh_session_def conclude_def sample_script_def demo_result_def
        resolve_prompt_race_def record_event_def Let_def)
  then obtain w t where run: "run sample_host demo_st False ?info sample_script ?s = Some (Inr (demo_result\<lparr>rr_workspace := w\<rparr>), t)"
    by blast
  have "es_sink (br_store ?s) = Some write_down" "es_world (br_store ?s) = []" by (simp_all add: EventStore_def)
  with run show ?thesis unfolding acp_runs_def by (metis rmap_simps(2))
qed

text \<open>A delivery, its session, its outcome.\<close>

lemma reach_session_emits:
  "live_reach runner ex cfg env n (l :: 'w live) \<Longrightarrow> lv_consumer l = Busy info evs r \<Longrightarrow>
   \<exists>l' :: 'w live. live_reach runner ex cfg env n l' \<and> lv_consumer l' = Busy info [] r \<and>
     lv_history l' = lv_history l @ evs"
proof (induction evs arbitrary: l)
  case (Cons ev evs)
  let ?l = "emit_all [ev] (l\<lparr>lv_consumer := Busy info evs r\<rparr>)"
  have "live_reach runner ex cfg env n ?l"
    using Cons.prems by (blast intro: live_reach.step live_step.session_emits)
  from Cons.IH [OF this] show ?case by simp
next
  case Nil
  then show ?case by (intro exI [of _ l]) simp
qed

lemma demo_live:
  "\<exists>(l :: unit live) evs info es d. live_reach (acp_runs demo_st False) demo_ex demo_cfg (\<lambda>_. None) 4 l \<and>
     lv_history l = evs @ (''prompt_queued'', queued_data info) # es @ [(''prompt_consumed'', d)] \<and>
     pi_delivery_id info = ''d1'' \<and> (\<forall>ev \<in> set es. fst ev \<noteq> ''prompt_queued'') \<and>
     map_of d ''session_id'' = Some (PStr ''s1'')"
proof -
  let ?runner = "acp_runs demo_st False" and ?env = "\<lambda>_. None"
  obtain res evs p where dec: "decide_delivery demo_ex demo_cfg ?env ''u'' 1 demo_rq =
      (res, evs, Some ((demo_envelope ''u'' 1)\<lparr>pi_prompt := Some p\<rparr>))"
    using demo_decision by blast
  let ?info = "(demo_envelope ''u'' 1)\<lparr>pi_prompt := Some p\<rparr>"
  let ?l0 = "live_init 4 (sv_store demo_service)"
  obtain res1 sv where web: "github_webhook demo_ex demo_cfg ?env ''u'' 1 demo_rq (lv_service ?l0) = (res1, sv)"
    by fastforce
  let ?l1 = "with_service sv (webhook_events demo_ex demo_cfg ?env ''u'' 1 demo_rq (sv_queue (lv_service ?l0)))
      (?l0\<lparr>lv_requests := lv_requests ?l0 @ [(''u'', 1, demo_rq)]\<rparr>)"
  have "live_reach ?runner demo_ex demo_cfg ?env 4 ?l0"
    by (rule live_reach.init) (simp add: demo_service_def EventStore_def recorded_def)
  from live_reach.step [OF this live_step.request [OF web]]
  have r1: "live_reach ?runner demo_ex demo_cfg ?env 4 ?l1" .
  have h1: "lv_history ?l1 = evs @ [(''prompt_queued'', queued_data ?info)]"
    by (simp add: webhook_events_def dec submission_events_def live_init_def enqueue_def PromptQueue_def Let_def)
  have "sv_queue sv = snd (enqueue ?info (PromptQueue 4))"
    using github_webhook_events [OF web] dec by (simp add: submission_queue_def live_init_def)
  then have "\<exists>q. queue_get (sv_queue (lv_service ?l1)) = Some (?info, q)"
    by (simp add: queue_get_def enqueue_def PromptQueue_def Let_def)
  then obtain q where q: "queue_get (sv_queue (lv_service ?l1)) = Some (?info, q)" by blast
  obtain es w where run: "?runner ?info es (Inr (Some (demo_result\<lparr>rr_workspace := w\<rparr>)))"
    using demo_session by blast
  let ?r = "Inr (Some (demo_result\<lparr>rr_workspace := w\<rparr>)) :: acp_run_result option pyres"
  let ?l2 = "?l1\<lparr>lv_service := (lv_service ?l1)\<lparr>sv_queue := q\<rparr>, lv_consumer := Busy ?info es ?r\<rparr>"
  have "live_step ?runner demo_ex demo_cfg ?env ?l1 ?l2"
    by (rule live_step.take_next) (use q run in \<open>simp_all add: live_init_def\<close>)
  from live_reach.step [OF r1 this] have r2: "live_reach ?runner demo_ex demo_cfg ?env 4 ?l2" .
  have "lv_consumer ?l2 = Busy ?info es ?r" by simp
  from reach_session_emits [OF r2 this] obtain l3 :: "unit live" where
    l3: "live_reach ?runner demo_ex demo_cfg ?env 4 l3" "lv_consumer l3 = Busy ?info [] ?r"
      "lv_history l3 = lv_history ?l2 @ es"
    by blast
  let ?d = "consumed_data (mark_consumed 2 ?info) (Some (demo_result\<lparr>rr_workspace := w\<rparr>))"
  let ?l4 = "emit_all (outcome_events 2 ?info ?r)
      (task_finished (l3\<lparr>lv_consumer := if goes_on ?r then Waiting else Stopped\<rparr>))"
  have r4: "live_reach ?runner demo_ex demo_cfg ?env 4 ?l4"
    by (rule live_reach.step [OF l3(1) live_step.session_ends [OF l3(2)]])
  have h4: "lv_history ?l4 = evs @ (''prompt_queued'', queued_data ?info) # es @ [(''prompt_consumed'', ?d)]"
    using h1 l3(3) by (simp add: outcome_events_def)
  have "fst ev \<noteq> ''prompt_queued''" if "ev \<in> set es" for ev
    using acp.not_of_service [OF run that] by (auto simp: SERVICE_EVENTS_def)
  moreover have "map_of ?d ''session_id'' = Some (PStr ''s1'')"
    by (simp add: consumed_data_def demo_result_def)
  moreover have "pi_delivery_id ?info = ''d1''" by (simp add: demo_envelope_def PromptInfo_def)
  ultimately show ?thesis using r4 h4 by blast
qed

theorem outcomes_have_a_trail_witness:
  "\<exists>(l :: unit live) xs d f uid now rq. live_reach (service_runner demo_st False) demo_ex demo_cfg (\<lambda>_. None) 4 l \<and>
     lv_history l = xs @ [(''prompt_consumed'', d)] \<and>
     (uid, now, rq) \<in> set (lv_requests l) \<and> map_of d ''id'' = Some (PStr uid) \<and>
     verify_signature (rq_body rq) (rq_signature rq) ''k'' \<and>
     (''agent_finished'', f) \<in> set xs \<and> map_of f ''run_id'' = map_of d ''id''"
proof -
  obtain l :: "unit live" and evs info es d where
      r: "live_reach (service_runner demo_st False) demo_ex demo_cfg (\<lambda>_. None) 4 l"
      and h: "lv_history l = (evs @ (''prompt_queued'', queued_data info) # es) @ [(''prompt_consumed'', d)]"
      and d: "map_of d ''session_id'' = Some (PStr ''s1'')"
    using demo_live by (auto simp: demo_runner)
  let ?xs = "evs @ (''prompt_queued'', queued_data info) # es"
  have named: "map_of d ''session_id'' \<noteq> None" by (simp add: d)
  obtain uid now rq i f where rq: "(uid, now, rq) \<in> set (lv_requests l)" "map_of d ''id'' = Some (PStr uid)"
      "accepted_as demo_ex demo_cfg (\<lambda>_. None) rq i"
      and f: "(''agent_finished'', f) \<in> set ?xs" "map_of f ''run_id'' = map_of d ''id''"
    using outcomes_have_a_trail [OF r h] named by blast
  have "st_github_webhook_secret demo_cfg = ''k''" by (simp add: demo_cfg_def Settings_def)
  then have "verify_signature (rq_body rq) (rq_signature rq) ''k''" using rq(3) by (simp add: accepted_as_def)
  with r h rq(1,2) f show ?thesis by blast
qed

theorem redelivery_not_queued_twice_witness:
  "\<exists>(l :: unit live) res sv evs dup. live_reach (service_runner demo_st False) demo_ex demo_cfg (\<lambda>_. None) 4 l \<and>
     (\<exists>d. (''prompt_consumed'', d) \<in> set (lv_history l)) \<and>
     github_webhook demo_ex demo_cfg (\<lambda>_. None) ''v'' 3 demo_rq (lv_service l) = (res, sv) \<and> status_code res = 202 \<and>
     sv_queue sv = sv_queue (lv_service l) \<and>
     sv_store sv = emits (evs @ [(''webhook_duplicate'', dup)]) (sv_store (lv_service l))"
proof -
  obtain l :: "unit live" and evs info es d where
      r: "live_reach (service_runner demo_st False) demo_ex demo_cfg (\<lambda>_. None) 4 l"
      and h: "lv_history l = evs @ (''prompt_queued'', queued_data info) # es @ [(''prompt_consumed'', d)]"
      and i: "pi_delivery_id info = ''d1''" "\<forall>ev \<in> set es. fst ev \<noteq> ''prompt_queued''"
    using demo_live by (auto simp: demo_runner)
  obtain res sv where web: "github_webhook demo_ex demo_cfg (\<lambda>_. None) ''v'' 3 demo_rq (lv_service l) = (res, sv)"
    by fastforce
  obtain res' evs' p where dec: "decide_delivery demo_ex demo_cfg (\<lambda>_. None) ''v'' 3 demo_rq =
      (res', evs', Some ((demo_envelope ''v'' 3)\<lparr>pi_prompt := Some p\<rparr>))"
    using demo_decision by blast
  have res: "res = accepted_reply (header (rq_delivery demo_rq)) (py_lower (header (rq_event demo_rq)))"
    using web dec decide_delivery_reply [OF dec] by (simp add: webhook_refines_spec apply_decision_def)
  have "length (filter (\<lambda>ev. fst ev = ''prompt_queued'') (es @ [(''prompt_consumed'', d)])) < 4"
    using i(2) by simp
  moreover have "map_of (queued_data info) ''delivery_id'' = Some (PStr (header (rq_delivery demo_rq)))"
    using i(1) by (simp add: queued_data_def demo_rq_def)
  ultimately obtain es' dup where "sv_queue sv = sv_queue (lv_service l)"
      "sv_store sv = emits (es' @ [(''webhook_duplicate'', dup)]) (sv_store (lv_service l))"
    using redelivery_not_queued_twice [OF r _ h _ _ web] res by auto
  moreover have "status_code res = 202" by (simp add: res accepted_reply_def)
  moreover have "(''prompt_consumed'', d) \<in> set (lv_history l)" by (simp add: h)
  ultimately show ?thesis using r web by blast
qed

theorem service_refines_lifecycle_witness:
  "\<exists>(l :: unit live) k. live_reach (acp_runs demo_st False) demo_ex demo_cfg (\<lambda>_. None) 4 l \<and> lv_history l \<noteq> [] \<and>
     life_reach 4 k \<and> lf_store k = sv_store (lv_service l)"
proof -
  obtain l :: "unit live" where l: "live_reach (acp_runs demo_st False) demo_ex demo_cfg (\<lambda>_. None) 4 l"
      "lv_history l \<noteq> []"
    using demo_live by auto
  with service_refines_lifecycle [OF l(1)] show ?thesis by blast
qed

theorem every_event_documented_witness:
  "\<exists>(l :: unit live) d. live_reach (service_runner demo_st False) demo_ex demo_cfg (\<lambda>_. None) 4 l \<and>
     (''prompt_consumed'', d) \<in> set (lv_history l) \<and> documented (''prompt_consumed'', d)"
proof -
  obtain l :: "unit live" and evs info es d where
      l: "live_reach (service_runner demo_st False) demo_ex demo_cfg (\<lambda>_. None) 4 l"
      and h: "lv_history l = evs @ (''prompt_queued'', queued_data info) # es @ [(''prompt_consumed'', d)]"
    using demo_live by (auto simp: demo_runner)
  have "(''prompt_consumed'', d) \<in> set (lv_history l)" by (simp add: h)
  moreover have "st_acp_enabled demo_st" by (simp add: demo_st_def)
  ultimately show ?thesis using every_event_documented [OF l, of "(''prompt_consumed'', d)"] l by blast
qed

end
