(* ===== verification/Entry_Points.thy ===== *)
theory Entry_Points
  imports Live_Service
begin

text \<open>
  The programs of the package: \<open>__main__.py\<close>, which starts the service, and the two that an
  operator runs by hand, \<open>acp_smoke.py\<close> (one envelope through the real host) and
  \<open>sandbox_probe.py\<close> (one sandbox through the real bridge).  A program has the environment and
  the answers of the outside world as arguments; its result is an exit code or the exception that
  ends it, with what it printed.  \<open>argparse\<close>'s reading of the command line is left out: a program
  starts from the parsed arguments.
\<close>

section \<open>The service\<close>

datatype launch = Exits nat string | Serves app string int string | Crashes pyexc

definition main_entry ::
  "regex_engine \<Rightarrow> environ \<Rightarrow> (string \<Rightarrow> string option) \<Rightarrow> (rat \<Rightarrow> string) \<Rightarrow> nat \<Rightarrow> string \<Rightarrow> (nat \<Rightarrow> rat) \<Rightarrow> fs \<Rightarrow>
   launch"
where
  "main_entry re env homes float_repr epoch uuid_hex clock f =
     (case from_env re env of
        Inl e \<Rightarrow> if is_value_error e then Exits 1 (''ERROR: '' @ exc_str e) else Crashes e
      | Inr cfg \<Rightarrow>
          (case create_app homes float_repr cfg epoch uuid_hex clock f of
             Inl e \<Rightarrow> Crashes e
           | Inr app \<Rightarrow> Serves app (st_host cfg) (st_port cfg) (st_log_level cfg)))"

lemma create_app_valid:
  assumes "valid_settings re cfg"
  shows "case create_app homes fr cfg epoch uuid clk f of
    Inl e \<Rightarrow> st_events_log_enabled cfg \<and> resolve_trace_root homes (st_acp_trace_root cfg) = Inl e
  | Inr app \<Rightarrow> ap_settings app = cfg \<and> ap_queue app = PromptQueue DEDUP_CAPACITY \<and>
      recorded (ap_store app) = [] \<and>
      es_maxlen (ap_store app) = nat (st_events_maxlen cfg) \<and>
      (es_sink (ap_store app) \<noteq> None \<longleftrightarrow> st_events_log_enabled cfg) \<and>
      ap_host app = (if st_acp_enabled cfg then Some (st_sandbox_enabled cfg) else None)"
proof -
  have init: "acp_host_init cfg False = Inr (st_sandbox_enabled cfg)"
    using assms by (auto simp: acp_host_init_def valid_settings_def)
  have len: "\<not> st_events_maxlen cfg < 0" using assms by (simp add: valid_settings_def)
  show ?thesis
    by (cases "resolve_trace_root homes (st_acp_trace_root cfg)")
      (simp_all add: create_app_def init len EventStore_def recorded_def Let_def)
qed

text \<open>
  A service that starts is configured.  Starting ends in one of three ways: the environment is
  refused with exit code 1 and a message; or the service serves, with settings that satisfy every
  check, an empty queue and event store, the durable log and the host exactly if they are switched
  on, and the running service begins in its initial state; or the home directory in the trace root
  is unknown, which is not caught.
\<close>

theorem started_service_is_configured:
  "case main_entry re env homes fr epoch uuid clk f of
     Exits n msg \<Rightarrow> n = 1 \<and> (\<exists>e. from_env re env = Inl e \<and> msg = ''ERROR: '' @ exc_str e)
   | Serves app host port level \<Rightarrow>
       valid_settings re (ap_settings app) \<and> host = st_host (ap_settings app) \<and>
       port = st_port (ap_settings app) \<and>
       (es_sink (ap_store app) \<noteq> None \<longleftrightarrow> st_events_log_enabled (ap_settings app)) \<and>
       ap_host app = (if st_acp_enabled (ap_settings app) then Some (st_sandbox_enabled (ap_settings app)) else None) \<and>
       live_reach runner ex cfg env' (pq_maxlen (ap_queue app)) (live_init (pq_maxlen (ap_queue app)) (ap_store app))
   | Crashes e \<Rightarrow>
       (\<exists>cfg. from_env re env = Inr cfg \<and> st_events_log_enabled cfg \<and>
          resolve_trace_root homes (st_acp_trace_root cfg) = Inl e)"
proof (cases "from_env re env")
  case (Inl e)
  with raises_from_env [of re env] show ?thesis by (simp add: main_entry_def)
next
  case (Inr cfg)
  from create_app_valid [OF from_env_valid [OF Inr], of homes fr epoch uuid clk f] Inr from_env_valid [OF Inr]
  show ?thesis
    by (cases "create_app homes fr cfg epoch uuid clk f")
      (auto simp: main_entry_def PromptQueue_def intro: live_reach.init)
qed

section \<open>The smoke driver\<close>

record smoke_args =
  sa_repo :: string
  sa_event :: string
  sa_action :: string
  sa_label :: string
  sa_delivery_id :: string
  sa_prompt :: "string option"

definition smoke_defaults :: smoke_args where
  "smoke_defaults =
     \<lparr>sa_repo = ''owner/repo'', sa_event = ''issues'', sa_action = ''labeled'',
      sa_label = ''orchestration:plan-approved'', sa_delivery_id = ''smoke-1'', sa_prompt = None\<rparr>"

definition setdefault :: "string \<Rightarrow> string \<Rightarrow> environ \<Rightarrow> environ" where
  "setdefault k v env = (case env k of None \<Rightarrow> env(k \<mapsto> v) | Some _ \<Rightarrow> env)"

definition build_settings :: "regex_engine \<Rightarrow> environ \<Rightarrow> settings pyres" where
  "build_settings re env = from_env re (setdefault ''OS_WEBHOOK_SECRET'' ''smoke-unused'' env)"

definition build_envelope :: "string \<Rightarrow> rat \<Rightarrow> smoke_args \<Rightarrow> prompt_info pyres" where
  "build_envelope uid now args =
     (let info = PromptInfo uid now (sa_delivery_id args) (sa_repo args) (sa_event args) (sa_action args)
                   (sa_label args) (PDict [(''smoke'', PBool True)]) in
      if text_or (sa_prompt args) '''' \<noteq> '''' then Inr (info\<lparr>pi_prompt := sa_prompt args\<rparr>)
      else rmap (\<lambda>p. info\<lparr>pi_prompt := Some p\<rparr>) (build_orchestration_prompt info))"

text \<open>
  \<open>PrintingStore\<close>: an event store whose \<open>emit\<close> prints first.  Its world is the standard output, and
  the sink prints, which comes to the same (lemma \<open>printing_emit_sink\<close>).
\<close>

definition event_text :: "string \<times> data \<Rightarrow> string" where
  "event_text ev = ''[event] '' @ fst ev @ '': '' @ py_repr (PDict (snd ev))"

definition printing_emit :: "string \<Rightarrow> data \<Rightarrow> string list event_store \<Rightarrow> string list event_store" where
  "printing_emit t d s = emit t d (s\<lparr>es_world := es_world s @ [event_text (t, d)]\<rparr>)"

definition print_sink :: "event \<Rightarrow> string list \<Rightarrow> pyexc option \<times> string list" where
  "print_sink e out = (None, out @ [event_text (ev_type e, ev_data e)])"

definition PrintingStore :: "nat \<Rightarrow> string \<Rightarrow> (nat \<Rightarrow> rat) \<Rightarrow> string list event_store" where
  "PrintingStore epoch uuid_hex clock = EventStore 1000 (Some print_sink) epoch uuid_hex clock []"

lemma printing_emit_sink:
  assumes "es_sink s = Some print_sink"
  shows "(emit t d s)\<lparr>es_sink := None\<rparr> = printing_emit t d (s\<lparr>es_sink := None\<rparr>)"
  using assms by (simp add: emit_def printing_emit_def Let_def run_sink_def print_sink_def make_event_def)

lemma printing_world:
  "es_sink s = Some print_sink \<Longrightarrow> es_world (emits evs s) = es_world s @ map event_text evs"
proof (induction evs arbitrary: s)
  case (Cons ev evs)
  obtain t d where ev: "ev = (t, d)" by (cases ev)
  have "es_world (emits evs (emit t d s)) = es_world (emit t d s) @ map event_text evs"
    using Cons.prems by (intro Cons.IH) simp
  with Cons.prems show ?case by (simp add: ev es_world_emit print_sink_def make_event_def)
qed simp

definition say :: "string \<Rightarrow> (string list, 'z) bridge_state_scheme \<Rightarrow> (string list, 'z) bridge_state_scheme" where
  "say line s = s\<lparr>br_store := (br_store s)\<lparr>es_world := es_world (br_store s) @ [line]\<rparr>\<rparr>"

definition smoke_banner :: "prompt_info \<Rightarrow> string" where
  "smoke_banner info = ''[smoke] envelope id='' @ pi_id info @ '' delivery_id='' @ pi_delivery_id info"

definition smoke_outcome :: "acp_run_result \<Rightarrow> string" where
  "smoke_outcome result =
     ''[smoke] outcome session_id='' @ rr_session_id result @ '' stop_reason='' @ rr_stop_reason result
     @ '' workspace='' @ rr_workspace result"

text \<open>\<open>run\<close> and \<open>main\<close>; the latter also gives what goes to the standard error.\<close>

definition smoke_run ::
  "regex_engine \<Rightarrow> environ \<Rightarrow> string \<Rightarrow> rat \<Rightarrow> smoke_args \<Rightarrow> host_env \<Rightarrow> happening list \<Rightarrow> string list session \<Rightarrow>
   (int pyres \<times> string list session) option"
where
  "smoke_run re env uid now args henv script s =
     (case build_envelope uid now args of
        Inl e \<Rightarrow> Some (Inl e, s)
      | Inr info \<Rightarrow>
          (case rbind (build_settings re env) (\<lambda>cfg. rmap (Pair cfg) (acp_host_init cfg False)) of
             Inl e \<Rightarrow> Some (Inl e, s)
           | Inr (cfg, bridged) \<Rightarrow>
               (case run henv cfg bridged info script (say (smoke_banner info) s) of
                  None \<Rightarrow> None
                | Some (Inl e, t) \<Rightarrow> Some (Inl e, t)
                | Some (Inr result, t) \<Rightarrow>
                    Some (Inr (if rr_stop_reason result = ''end_turn'' then 0 else 1),
                          say (smoke_outcome result) t))))"

definition smoke_main ::
  "regex_engine \<Rightarrow> environ \<Rightarrow> string \<Rightarrow> rat \<Rightarrow> smoke_args \<Rightarrow> host_env \<Rightarrow> happening list \<Rightarrow> string list session \<Rightarrow>
   (int pyres \<times> string list \<times> string list session) option"
where
  "smoke_main re env uid now args henv script s =
     (case smoke_run re env uid now args henv script s of
        None \<Rightarrow> None
      | Some (Inl e, t) \<Rightarrow>
          Some (if exc_of e = AcpHostError then (Inr 1, [''[smoke] FAILED: '' @ exc_str e], t) else (Inl e, [], t))
      | Some (Inr n, t) \<Rightarrow> Some (Inr n, [], t))"

lemma say_store [simp]:
  "es_world (br_store (say line s)) = es_world (br_store s) @ [line]"
  "es_sink (br_store (say line s)) = es_sink (br_store s)"
  by (simp_all add: say_def)

lemma es_sink_emits [simp]: "es_sink (emits evs s) = es_sink s"
  by (induction evs arbitrary: s) auto

text \<open>
  The smoke driver reports the session.  When it ends with an exit code, it is 0 exactly if
  the session returned with \<open>end_turn\<close>; a session that returned is printed in full, the banner,
  every event of the session in order (among them its success) and the outcome, and otherwise the
  code is 1 and the failure goes to the standard error.
\<close>

theorem smoke_reports_session:
  assumes "smoke_main re env uid now args henv script s = Some (Inr n, err, t)"
    and "br_store s = PrintingStore epoch uuid clk"
  shows "if err = [] then
      (\<exists>info evs result. build_envelope uid now args = Inr info \<and>
         es_world (br_store t) = smoke_banner info # map event_text evs @ [smoke_outcome result] \<and>
         (\<forall>ev \<in> set evs. session_event info ev) \<and> (\<exists>ev \<in> set evs. succeeded info ev) \<and>
         n = (if rr_stop_reason result = ''end_turn'' then 0 else 1))
    else n = 1"
proof (cases "err = []")
  case True
  with assms(1) obtain u where "smoke_run re env uid now args henv script s = Some (Inr n, u)" and t: "t = u"
    by (auto simp: smoke_main_def split: option.splits sum.splits if_splits)
  then obtain info cfg bridged result v where info: "build_envelope uid now args = Inr info"
      and run: "run henv cfg bridged info script (say (smoke_banner info) s) = Some (Inr result, v)"
      and n: "n = (if rr_stop_reason result = ''end_turn'' then 0 else 1)" and u: "u = say (smoke_outcome result) v"
    by (auto simp: smoke_run_def split: option.splits sum.splits)
  from run_outcome [OF run] obtain evs where evs: "br_store v = emits evs (br_store (say (smoke_banner info) s))"
      "\<forall>ev \<in> set evs. session_event info ev"
      and out: "case filter (\<lambda>ev. fst ev = ''agent_finished'') evs of [] \<Rightarrow> \<not> is_ok (Inr result :: acp_run_result pyres)
        | [ev] \<Rightarrow> map_of (snd ev) ''run_id'' = Some (PStr (pi_id info)) \<and>
            (is_ok (Inr result :: acp_run_result pyres) \<longrightarrow> map_of (snd ev) ''ok'' = Some (PBool True) \<and> ev = last evs)
        | _ \<Rightarrow> False"
    unfolding outcome_recorded_def by blast
  from out obtain ev where f: "filter (\<lambda>ev. fst ev = ''agent_finished'') evs = [ev]"
      and ev: "map_of (snd ev) ''run_id'' = Some (PStr (pi_id info))" "map_of (snd ev) ''ok'' = Some (PBool True)"
    by (auto split: list.splits)
  have "ev \<in> set (filter (\<lambda>ev. fst ev = ''agent_finished'') evs)" unfolding f by simp
  with ev have "\<exists>ev \<in> set evs. succeeded info ev" by (auto simp: succeeded_def)
  moreover have "es_sink (br_store s) = Some print_sink" "es_world (br_store s) = []"
    using assms(2) by (simp_all add: PrintingStore_def EventStore_def)
  then have "es_world (br_store t) = smoke_banner info # map event_text evs @ [smoke_outcome result]"
    using t u evs(1) by (simp add: printing_world)
  ultimately show ?thesis using True info evs(2) n by auto
next
  case False
  with assms(1) show ?thesis by (auto simp: smoke_main_def split: option.splits sum.splits if_splits)
qed

text \<open>A session of the driver in which the run's trace cannot be opened, because its name is taken.\<close>

definition sample_smoke :: "string list session" where
  "sample_smoke =
     \<lparr>br_step = 0, br_calls = [], br_store = PrintingStore 7 ''0a1b2c3d'' (\<lambda>_. 0), ss_command = None,
      ss_fs = empty_root\<lparr>fs_nodes := [(''r1'', File '''')]\<rparr>, ss_trace = None, ss_last = 0,
      ss_proc = No_Process, ss_drain = Not_Started, ss_sid = None\<rparr>"

lemma started_settings:
  assumes "py_strip s \<noteq> ''''"
  shows "from_env re (setdefault ''OS_WEBHOOK_SECRET'' v (idle_env s None)) =
    Inr (Settings ''0.0.0.0'' 8080 (py_strip s) DEFAULT_MAX_BODY_BYTES ''info'')"
proof -
  have "setdefault ''OS_WEBHOOK_SECRET'' v (idle_env s None) = idle_env s None"
    by (simp add: setdefault_def idle_env_def)
  with from_env_defaults [OF assms] show ?thesis by simp
qed

lemma sample_script_runs:
  assumes "ss_trace s = None"
  shows "\<exists>t. run_session sample_host st info bin ws None sample_script s =
    Some (Inr \<lparr>rr_session_id = ''s1'', rr_stop_reason = ''end_turn'', rr_workspace = ws\<rparr>, t)"
  using assms
  by (auto simp: run_session_def sample_script_def happen_def leave_def settle_def cleanup_def stop_drainer_def io_bind_def
      close_trace_def kill_process_def release_sandbox_def conclude_def finish_trace_def sample_host_def
      text_or_def resolve_prompt_race_def record_event_def)

lemma sample_smoke_runs:
  "\<exists>t. smoke_main (\<lambda>_. Inl ''unused'') (idle_env ''x'' None) ''r1'' 0 (smoke_defaults\<lparr>sa_prompt := Some ''go''\<rparr>)
     sample_host sample_script sample_smoke = Some (Inr 0, [], t)"
proof -
  let ?cfg = "Settings ''0.0.0.0'' 8080 ''x'' DEFAULT_MAX_BODY_BYTES ''info''"
  let ?info = "PromptInfo ''r1'' 0 ''smoke-1'' ''owner/repo'' ''issues'' ''labeled'' ''orchestration:plan-approved''
    (PDict [(''smoke'', PBool True)])\<lparr>pi_prompt := Some ''go''\<rparr>"
  have "py_strip ''x'' = ''x''" by code_simp
  then have cfg: "build_settings (\<lambda>_. Inl ''unused'') (idle_env ''x'' None) = Inr ?cfg"
    by (simp add: build_settings_def started_settings)
  have info: "build_envelope ''r1'' 0 (smoke_defaults\<lparr>sa_prompt := Some ''go''\<rparr>) = Inr ?info"
    by (simp add: build_envelope_def smoke_defaults_def text_or_def Let_def)
  have host: "acp_host_init ?cfg False = Inr False" by (simp add: acp_host_init_def Settings_def)
  have sel: "he_which sample_host = Some ''/bin/opencode''" "he_homes sample_host = (\<lambda>_. None)"
      "he_workspace sample_host = sample_checkouts" "he_own_config sample_host w = Inr False"
      "he_is_file sample_host w = False" for w
    by (simp_all add: sample_host_def)
  let ?s = "say (smoke_banner ?info) sample_smoke"
  have trace: "\<exists>f. open_run_trace (\<lambda>_. None) now '''' keep ?info ws (ss_fs ?s) = (Inr None, f)" for now keep ws
    by (simp add: open_run_trace_def resolve_trace_root_def mkdir_run_def syscall_def fail_def sample_smoke_def
        empty_root_def PromptInfo_def say_def)
  have set: "st_acp_opencode_bin ?cfg = ''''" "st_acp_trace_root ?cfg = ''''" "st_acp_clone_root ?cfg = ''''" "st_acp_workspace_root ?cfg = ''''"
      "st_acp_deny_patterns ?cfg = []" "st_acp_denied_tools ?cfg = []" "st_acp_default_permission ?cfg = ''reject''"
    by (simp_all add: Settings_def)
  obtain ws where ws: "prepare_workspace sample_checkouts ?cfg ?info = Inr ws"
    by (simp add: prepare_workspace_def sample_checkouts_def set text_or_def)
  obtain f where "open_run_trace (\<lambda>_. None) (he_utc sample_host 0) '''' (st_acp_trace_keep_runs ?cfg) ?info ws (ss_fs ?s) = (Inr None, f)"
    using trace by blast
  then have "\<exists>ws u. run sample_host ?cfg False ?info sample_script ?s =
      run_session sample_host ?cfg ?info ''/bin/opencode'' ws None sample_script u \<and> ss_trace u = None"
    by (intro exI [of _ ws] exI [of _ "fresh_session sample_host None (if st_acp_trace_enabled ?cfg then f else ss_fs ?s) ?s"])
      (simp add: run_def resolve_opencode_bin_def text_or_def sel ws run_in_workspace_def write_deny_config_def set
        fresh_session_def)
  then obtain ws u where "run sample_host ?cfg False ?info sample_script ?s =
      run_session sample_host ?cfg ?info ''/bin/opencode'' ws None sample_script u" and "ss_trace u = None" by blast
  with sample_script_runs [of u ?cfg ?info "''/bin/opencode''" ws]
  have "\<exists>r t. run sample_host ?cfg False ?info sample_script ?s = Some (Inr r, t) \<and> rr_stop_reason r = ''end_turn''"
    by auto
  then show ?thesis by (auto simp: smoke_main_def smoke_run_def info cfg host)
qed

theorem smoke_reports_session_witness:
  "\<exists>t evs. smoke_main (\<lambda>_. Inl ''unused'') (idle_env ''x'' None) ''r1'' 0 (smoke_defaults\<lparr>sa_prompt := Some ''go''\<rparr>)
     sample_host sample_script sample_smoke = Some (Inr 0, [], t) \<and> evs \<noteq> [] \<and>
     butlast (tl (es_world (br_store t))) = map event_text evs"
proof -
  from sample_smoke_runs obtain t where run: "smoke_main (\<lambda>_. Inl ''unused'') (idle_env ''x'' None) ''r1'' 0
      (smoke_defaults\<lparr>sa_prompt := Some ''go''\<rparr>) sample_host sample_script sample_smoke = Some (Inr 0, [], t)" by blast
  have "br_store sample_smoke = PrintingStore 7 ''0a1b2c3d'' (\<lambda>_. 0)" by (simp add: sample_smoke_def)
  from smoke_reports_session [OF run this] obtain info evs result where
    out: "es_world (br_store t) = smoke_banner info # map event_text evs @ [smoke_outcome result]"
    and evs: "\<exists>ev \<in> set evs. succeeded info ev" by auto
  have "butlast (tl (es_world (br_store t))) = map event_text evs" unfolding out by simp
  moreover from evs have "evs \<noteq> []" by auto
  ultimately show ?thesis using run by blast
qed

section \<open>The sandbox probe\<close>

text \<open>What the probe reads in the workspace, and the seconds that the preparation took.\<close>

record probe_world =
  pw_bridge :: bridge_env
  pw_git_config :: "string \<Rightarrow> string pyres"
  pw_is_file :: "string \<Rightarrow> bool"
  pw_elapsed :: rat

definition probe_envelope :: "string \<Rightarrow> rat \<Rightarrow> prompt_info" where
  "probe_envelope uid now =
     PromptInfo uid now ''probe-1'' ''owner/target'' ''issues'' ''labeled'' ''orchestration:probe''
       (PDict [(''probe'', PBool True)])"

definition PROBE_MARKERS :: "string list" where
  "PROBE_MARKERS =
     [''AGENTS.md'', ''.agents/skills/swarm/SKILL.md'', ''.zcode/agents/swarm-orchestrator.md'']"

definition fmt1 :: "rat \<Rightarrow> string" where
  "fmt1 x =
     (let n = nat (round_half_even (10 * x)) in py_str_nat (n div 10) @ ''.'' @ py_str_nat (n mod 10))"

definition probe_line :: "string \<Rightarrow> string \<Rightarrow> string" where
  "probe_line what value = ''[probe] '' @ what @ ''='' @ value"

definition git_config_path :: "string \<Rightarrow> string" where
  "git_config_path workspace = path_join (path_join workspace ''.git'') ''config''"

definition token_free :: "string \<Rightarrow> bool" where
  "token_free git_config \<longleftrightarrow> \<not> py_contains ''x-access-token'' git_config"

definition origin_gone :: "string \<Rightarrow> bool" where
  "origin_gone git_config \<longleftrightarrow> \<not> py_contains ''origin'' git_config"

definition probe_head :: "probe_world \<Rightarrow> sandbox_workspace \<Rightarrow> string list" where
  "probe_head w ws =
     [probe_line ''sandbox_id'' (sw_sandbox_id ws), probe_line ''container'' (sw_container_name ws),
      probe_line ''workspace'' (sw_path ws), probe_line ''elapsed'' (fmt1 (pw_elapsed w) @ ''s'')]"

definition probe_report :: "probe_world \<Rightarrow> sandbox_workspace \<Rightarrow> string \<Rightarrow> event list \<Rightarrow> string list" where
  "probe_report w ws git_config events =
     [probe_line ''git_config_token_free'' (py_repr (PBool (token_free git_config))),
      probe_line ''origin_removed'' (py_repr (PBool (origin_gone git_config)))]
     @ map (\<lambda>m. ''[probe] asset '' @ m @ '': '' @ py_repr (PBool (pw_is_file w (path_join (sw_path ws) m)))) PROBE_MARKERS
     @ map (\<lambda>e. ''[probe] event '' @ ev_type e @ '': '' @ py_repr (PDict (ev_data e))) events"

text \<open>The result, the lines printed and the state of the bridge; \<open>None\<close>: the preparation does not end.\<close>

definition probe_run ::
  "regex_engine \<Rightarrow> environ \<Rightarrow> probe_world \<Rightarrow> string \<Rightarrow> rat \<Rightarrow> 'w bridge_state \<Rightarrow>
   (int pyres \<times> string list \<times> 'w bridge_state) option"
where
  "probe_run re env w uid now s =
     (case from_env re (setdefault ''OS_WEBHOOK_SECRET'' ''probe-unused'' env) of
        Inl e \<Rightarrow> Some (Inl e, [], s)
      | Inr cfg \<Rightarrow>
          (case prepare (pw_bridge w) cfg (probe_envelope uid now) s of
             None \<Rightarrow> None
           | Some (Inl e, t) \<Rightarrow> Some (Inl e, [], t)
           | Some (Inr ws, t) \<Rightarrow>
               Some (case pw_git_config w (git_config_path (sw_path ws)) of
                       Inl e \<Rightarrow> (Inl e, probe_head w ws, t)
                     | Inr git_config \<Rightarrow>
                         (let out = probe_head w ws @ probe_report w ws git_config (recent 100 (br_store t)) in
                          case release (pw_bridge w) ws t of
                            (Inl e, u) \<Rightarrow> (Inl e, out, u)
                          | (Inr _, u) \<Rightarrow>
                              (Inr (if token_free git_config \<and> origin_gone git_config then 0 else 1),
                               out @ [''[probe] released''], u)))))"

definition probe_main ::
  "regex_engine \<Rightarrow> environ \<Rightarrow> probe_world \<Rightarrow> string \<Rightarrow> rat \<Rightarrow> 'w bridge_state \<Rightarrow>
   (int pyres \<times> string list \<times> string list \<times> 'w bridge_state) option"
where
  "probe_main re env w uid now s =
     (case probe_run re env w uid now s of
        None \<Rightarrow> None
      | Some (Inl e, out, t) \<Rightarrow>
          Some (if exc_of e = SandboxBridgeError then (Inr 1, out, [''[probe] FAILED: '' @ exc_str e], t)
                else (Inl e, out, [], t))
      | Some (Inr n, out, t) \<Rightarrow> Some (Inr n, out, [], t))"

text \<open>
  C39: what the probe leaves behind.  Once the sandbox is prepared, a probe that can read the
  workspace's git configuration deletes the sandbox as its last call to the API, and its exit code
  is 0 exactly if the configuration holds neither a token nor an origin; a probe that cannot read
  it ends with that exception and leaves the sandbox undeleted.
\<close>

theorem probe_leaves_sandbox_on_unreadable_config:
  assumes "probe_run re env w uid now s = Some (r, out, t)"
    and "from_env re (setdefault ''OS_WEBHOOK_SECRET'' ''probe-unused'' env) = Inr cfg"
    and "prepare (pw_bridge w) cfg (probe_envelope uid now) s = Some (Inr ws, u)"
    and "br_calls s = []"
  shows "case pw_git_config w (git_config_path (sw_path ws)) of
      Inl e \<Rightarrow> r = Inl e \<and> (\<forall>sid. Remove sid \<notin> set (br_calls t))
    | Inr git_config \<Rightarrow> last (br_calls t) = Remove (sw_sandbox_id ws) \<and>
        (is_ok r \<longrightarrow> (r = Inr 0 \<longleftrightarrow> token_free git_config \<and> origin_gone git_config) \<and>
           last out = ''[probe] released'')"
proof (cases "pw_git_config w (git_config_path (sw_path ws))")
  case (Inl e)
  with assms prepare_result [OF assms(3)] show ?thesis by (auto simp: probe_run_def prepared_def)
next
  case (Inr git_config)
  obtain x v where rel: "release (pw_bridge w) ws u = (x, v)" by fastforce
  from release_result [OF rel] Inr rel assms show ?thesis
    by (cases x) (auto simp: probe_run_def Let_def split: if_splits)
qed

definition sample_probe :: probe_world where
  "sample_probe = \<lparr>pw_bridge = sample_env (0, '''') True, pw_git_config = (\<lambda>_. Inl os_error),
     pw_is_file = (\<lambda>_. False), pw_elapsed = 1 / 4\<rparr>"

lemma sample_prepare_runs:
  "\<exists>ws u. prepare (sample_env (0, '''') True) st info sample_bridge = Some (Inr ws, u)"
  by (simp add: prepare_def create_sandbox_def sample_env_def sample_bridge_def materialize_def remove_origin_def
      poll_workspace.simps ask_simps dict_get_def Let_def)

theorem probe_leaves_sandbox_on_unreadable_config_witness:
  "\<exists>out t. probe_run (\<lambda>_. Inl ''unused'') (idle_env ''x'' None) sample_probe ''r1'' 0 sample_bridge =
     Some (Inl os_error, out, t) \<and> (\<forall>sid. Remove sid \<notin> set (br_calls t))"
proof -
  let ?cfg = "Settings ''0.0.0.0'' 8080 ''x'' DEFAULT_MAX_BODY_BYTES ''info''"
  have "py_strip ''x'' = ''x''" by code_simp
  then have cfg: "from_env (\<lambda>_. Inl ''unused'')
      (setdefault ''OS_WEBHOOK_SECRET'' ''probe-unused'' (idle_env ''x'' None)) = Inr ?cfg"
    by (simp add: started_settings)
  from sample_prepare_runs obtain ws u where
    p: "prepare (pw_bridge sample_probe) ?cfg (probe_envelope ''r1'' 0) sample_bridge = Some (Inr ws, u)"
    by (fastforce simp: sample_probe_def)
  then have run: "probe_run (\<lambda>_. Inl ''unused'') (idle_env ''x'' None) sample_probe ''r1'' 0 sample_bridge =
      Some (Inl os_error, probe_head sample_probe ws, u)"
    by (simp add: probe_run_def cfg) (simp add: sample_probe_def)
  from probe_leaves_sandbox_on_unreadable_config [OF run cfg p] run show ?thesis
    by (auto simp: sample_bridge_def sample_probe_def)
qed

end
