(* ===== verification/Acp_Spike.thy ===== *)
theory Acp_Spike
  imports Acp_Client Trace_Log
begin

text \<open>
  \<open>spikes/acp/host_spike.py\<close>, the first host written for the protocol: it drives one session with
  the agent in one of three modes, answers its permission requests, writes a transcript and gives
  a verdict as exit code.  As in theory \<open>Acp_Session\<close> the agent and the clock are a list of
  happenings.  The writes to the transcript are taken to succeed as long as it is open;
  \<open>argparse\<close>'s reading of the command line is left out.
\<close>

section \<open>The transcript\<close>

datatype spike_proc = Absent | Alive | Gone int

text \<open>
  The state: the transcript (its text, what was printed, whether it is closed), the client's lists,
  the agent's process, the task that drains its error output, and the answers given to it.
\<close>

record spike =
  sp_step :: nat
  sp_file :: string
  sp_stdout :: "string list"
  sp_closed :: bool
  sp_update_kinds :: "pyval list"
  sp_agent_text :: "pyval list"
  sp_tool_calls :: "data list"
  sp_permission_requests :: "data list"
  sp_replies :: "(permission_option list \<times> permission_outcome pyres) list"
  sp_proc :: spike_proc
  sp_draining :: bool

text \<open>The clock, \<open>repr\<close> of a float, the date in the transcript's name, and the agent's process.\<close>

record spike_env =
  se_elapsed :: "nat \<Rightarrow> rat"
  se_repr :: "rat \<Rightarrow> string"
  se_stamp :: string
  se_which :: "string option"
  se_home :: string
  se_leave :: "pyexc option"
  se_reaped :: bool
  se_wait :: "nat \<Rightarrow> unit pyres"
  se_returncode :: int

definition SCRATCH_ROOT :: string where
  "SCRATCH_ROOT = ''/tmp/acp-spike''"

definition PERMISSION_CONFIG :: "string \<Rightarrow> data option" where
  "PERMISSION_CONFIG =
     [''deny'' \<mapsto> [(''permission'', PDict [(''bash'', PStr ''ask'')])],
      ''deny-config'' \<mapsto> [(''permission'', PDict [(''bash'', PStr ''deny'')])]]"

definition DENY_PROMPT :: string where
  "DENY_PROMPT =
     ''Use the bash tool to run exactly this command: echo acp-deny-probe. '' @
     ''Then report the command's output.''"

definition PROMPTS :: "string \<Rightarrow> string option" where
  "PROMPTS = [''happy'' \<mapsto> ''Reply with exactly: ACP-OK'', ''deny'' \<mapsto> DENY_PROMPT, ''deny-config'' \<mapsto> DENY_PROMPT]"

definition SPIKE_KEYS :: "rx_item list list" where
  "SPIKE_KEYS =
     [ci_lit ''api'' @ [Maybe (one_of ''_-'')] @ ci_lit ''key'', ci_lit ''authorization'', ci_lit ''token'',
      ci_lit ''secret'']"

text \<open>\<open>_REDACT_RE.sub(r"\1<redacted>", line)\<close>\<close>

definition spike_redact :: "string \<Rightarrow> string" where
  "spike_redact s =
     concat (sub_all (\<lambda>t. map_option (\<lambda>(g, v). (g + v, take g t @ KV_MARK)) (kv_match SPIKE_KEYS t)) (py_chars s))"

definition transcript_path :: "spike_env \<Rightarrow> string \<Rightarrow> string" where
  "transcript_path env mode = path_join SCRATCH_ROOT (mode @ ''-'' @ se_stamp env @ ''.log'')"

definition spike_start :: spike where
  "spike_start =
     \<lparr>sp_step = 0, sp_file = '''', sp_stdout = [], sp_closed = False, sp_update_kinds = [],
      sp_agent_text = [], sp_tool_calls = [], sp_permission_requests = [], sp_replies = [],
      sp_proc = Absent, sp_draining = False\<rparr>"

definition spike_json :: json_opts where
  "spike_json = \<lparr>item_sep = '', '', key_sep = '': '', indent = None, sort_keys = False, default_str = True\<rparr>"

definition round3 :: "rat \<Rightarrow> rat" where
  "round3 x = of_int (round_half_even (1000 * x)) / 1000"

definition closed_file :: pyexc where
  "closed_file = PyExc ValueError ''I/O operation on closed file.''"

definition spike_log :: "spike_env \<Rightarrow> string \<Rightarrow> data \<Rightarrow> (spike, unit) action" where
  "spike_log env event kvs s =
     (let s1 = s\<lparr>sp_step := Suc (sp_step s)\<rparr>;
          record = dict_update kvs
            [(''t'', PFloat (se_repr env (round3 (se_elapsed env (sp_step s))))), (''event'', PStr event)] in
      case json_dumps spike_json 0 (PDict record) of
        Inl e \<Rightarrow> (Inl e, s1)
      | Inr line \<Rightarrow>
          if sp_closed s then (Inl closed_file, s1)
          else (Inr (), s1\<lparr>sp_file := sp_file s @ line @ [newline], sp_stdout := sp_stdout s @ [line]\<rparr>))"

definition spike_raw :: "string \<Rightarrow> string \<Rightarrow> (spike, unit) action" where
  "spike_raw source line s =
     (if sp_closed s then (Inl closed_file, s)
      else (Inr (), s\<lparr>sp_file := sp_file s @ source @ '': '' @ spike_redact (py_rstrip line) @ [newline]\<rparr>))"

definition spike_close :: "(spike, unit) action" where
  "spike_close s = (Inr (), s\<lparr>sp_closed := True\<rparr>)"

section \<open>The client\<close>

definition spike_session_update :: "spike_env \<Rightarrow> update \<Rightarrow> (spike, unit) action" where
  "spike_session_update env u s =
     (let kind = update_kind u;
          s1 = s\<lparr>sp_update_kinds := sp_update_kinds s @ [kind]\<rparr> in
      if kind = PStr ''agent_message_chunk'' then
        (let txt = dict_get (up_content u) ''text'' PNone in
         if truthy txt
         then spike_log env ''agent_text'' [(''text'', txt)] (s1\<lparr>sp_agent_text := sp_agent_text s1 @ [txt]\<rparr>)
         else spike_log env ''session_update'' [(''kind'', kind)] s1)
      else if kind \<in> {PStr ''tool_call'', PStr ''tool_call_update''} then
        (let entry = [(''id'', attr u ''tool_call_id''), (''title'', attr u ''title''),
                      (''status'', attr u ''status''), (''raw_input'', attr u ''raw_input'')] in
         spike_log env ''tool_call'' entry (s1\<lparr>sp_tool_calls := sp_tool_calls s1 @ [entry]\<rparr>))
      else spike_log env ''session_update'' [(''kind'', kind)] s1)"

text \<open>\<open>self.mode in ("deny", "deny-config")\<close>\<close>

definition denying :: "string \<Rightarrow> bool" where
  "denying mode \<longleftrightarrow> mode \<in> {''deny'', ''deny-config''}"

text \<open>The default of \<open>next(..., options[0])\<close> is evaluated even when an option is found.\<close>

definition spike_request_permission ::
  "spike_env \<Rightarrow> string \<Rightarrow> pyval \<Rightarrow> permission_option list \<Rightarrow> (spike, permission_outcome) action"
where
  "spike_request_permission env mode title opts s =
     (let record = [(''title'', title), (''option_kinds'', PList (map (\<lambda>opt. PStr (po_kind opt)) opts))] in
      io_bind (spike_log env ''request_permission'' record) (\<lambda>_.
      if denying mode then
        (case List.find (\<lambda>opt. po_kind opt \<in> set REJECT_KINDS) opts of
           Some reject \<Rightarrow>
             io_bind (spike_log env ''permission_outcome''
                 [(''selected'', PStr (po_kind reject)), (''option_id'', PStr (po_option_id reject))])
               (\<lambda>_. io_return (Selected (po_option_id reject)))
         | None \<Rightarrow>
             io_bind (spike_log env ''permission_outcome''
                 [(''selected'', PStr ''cancelled (no reject option offered)'')])
               (\<lambda>_. io_return Dismissed))
      else
        (case opts of
           [] \<Rightarrow> (\<lambda>t. (Inl (PyExc (OtherException ''IndexError'') ''list index out of range''), t))
         | first # _ \<Rightarrow>
             (let allow = (case List.find (\<lambda>opt. po_kind opt = ''allow_once'') opts of Some opt \<Rightarrow> opt | None \<Rightarrow> first) in
              io_bind (spike_log env ''permission_outcome''
                  [(''selected'', PStr (po_kind allow)), (''unexpected_in_mode'', PStr mode)])
                (\<lambda>_. io_return (Selected (po_option_id allow))))))
      (s\<lparr>sp_permission_requests := sp_permission_requests s @ [record]\<rparr>))"

text \<open>The text of \<open>opencode.json\<close> in the scratch directory, in the modes that have one.\<close>

definition setup_scratch :: "string \<Rightarrow> string option pyres" where
  "setup_scratch mode =
     (case PERMISSION_CONFIG mode of
        None \<Rightarrow> Inr None
      | Some config \<Rightarrow>
          rmap Some (json_dumps (json_indented False) 0
            (PDict ((''$schema'', PStr ''https://opencode.ai/config.json'') # config))))"

section \<open>The verdict\<close>

fun join_texts :: "pyval list \<Rightarrow> string pyres" where
  "join_texts [] = Inr ''''"
| "join_texts (v # vs) =
     (case v of
        PStr s \<Rightarrow> rmap ((@) s) (join_texts vs)
      | _ \<Rightarrow> Inl (PyExc TypeError ''sequence item: expected str instance''))"

definition ran_probe :: "data \<Rightarrow> bool" where
  "ran_probe tc \<longleftrightarrow>
     dict_get tc ''status'' PNone = PStr ''completed'' \<and>
     py_contains ''acp-deny-probe'' (py_str (dict_get tc ''raw_output'' (PStr '''')))"

definition evaluate :: "spike_env \<Rightarrow> string \<Rightarrow> string \<Rightarrow> (spike, int) action" where
  "evaluate env mode stop s =
     (let requests = length (sp_permission_requests s);
          settled = stop \<in> {''end_turn'', ''refusal''} in
      if mode = ''happy'' then
        (case join_texts (sp_agent_text s) of
           Inl e \<Rightarrow> (Inl e, s)
         | Inr said \<Rightarrow>
             (let good = (stop = ''end_turn'' \<and> py_contains ''ACP-OK'' said) in
              io_bind (spike_log env ''verdict'' [(''ok'', PBool good), (''agent_text'', PStr said)])
                (\<lambda>_. io_return (if good then 0 else 1)) s))
      else if mode = ''deny'' then
        (let rejected = (1 \<le> requests \<and> settled) in
         io_bind (spike_log env ''verdict''
             [(''ok'', PBool rejected), (''permission_requests'', PInt (int requests)), (''stop_reason'', PStr stop)])
           (\<lambda>_. io_return (if rejected then 0 else 1)) s)
      else
        (let ran = list_ex ran_probe (sp_tool_calls s);
             good = (requests = 0 \<and> \<not> ran \<and> settled) in
         io_bind (spike_log env ''verdict''
             [(''ok'', PBool good), (''permission_requests'', PInt (int requests)), (''bash_executed'', PBool ran),
              (''tool_calls'', PList (map PDict (sp_tool_calls s))), (''stop_reason'', PStr stop)])
           (\<lambda>_. io_return (if good then 0 else 1)) s))"


section \<open>The run\<close>

text \<open>
  What happens to the host: the answers of the agent to its requests, in order (for
  \<open>initialize\<close> the three fields that are logged), notifications, permission requests, lines of
  the error output and their end, the exit of the process, and what leaves the \<open>async with\<close>
  blocks otherwise (the overall timeout, a cancellation).
\<close>

datatype spike_happening =
    Spawned "unit pyres"
  | Initialised "(pyval \<times> pyval \<times> pyval list) pyres"
  | Session_New "string pyres"
  | Answered "string pyres"
  | Updated update
  | Permission pyval "permission_option list"
  | Stderr string
  | Stderr_End
  | Agent_Exit int
  | Interrupt pyexc

datatype spike_phase = To_Spawn | To_Initialize | To_Open | To_Prompt

definition run_on :: "spike_phase \<Rightarrow> unit pyres \<times> spike \<Rightarrow> (spike_phase + string pyres) \<times> spike" where
  "run_on ph x = (case x of (Inr _, s) \<Rightarrow> (Inl ph, s) | (Inl e, s) \<Rightarrow> (Inr (Inl e), s))"

definition spike_happen ::
  "spike_env \<Rightarrow> string \<Rightarrow> spike_phase \<Rightarrow> spike_happening \<Rightarrow> spike \<Rightarrow> (spike_phase + string pyres) \<times> spike"
where
  "spike_happen env mode ph h s =
     (case h of
        Interrupt e \<Rightarrow> (Inr (Inl e), s)
      | Spawned r \<Rightarrow>
          if ph \<noteq> To_Spawn then (Inl ph, s)
          else (case r of
                  Inl e \<Rightarrow> (Inr (Inl e), s)
                | Inr _ \<Rightarrow> (Inl To_Initialize, s\<lparr>sp_proc := Alive, sp_draining := True\<rparr>))
      | Initialised r \<Rightarrow>
          if ph \<noteq> To_Initialize then (Inl ph, s)
          else (case r of
                  Inl e \<Rightarrow> (Inr (Inl e), s)
                | Inr (version, capabilities, methods) \<Rightarrow>
                    run_on To_Open (spike_log env ''initialized''
                      [(''protocol_version'', version), (''agent_capabilities'', capabilities),
                       (''auth_methods'', PList methods)] s))
      | Session_New r \<Rightarrow>
          if ph \<noteq> To_Open then (Inl ph, s)
          else (case r of
                  Inl e \<Rightarrow> (Inr (Inl e), s)
                | Inr sid \<Rightarrow>
                    run_on To_Prompt (spike_log env ''session_new'' [(''session_id'', PStr sid)] s))
      | Answered r \<Rightarrow>
          if ph \<noteq> To_Prompt then (Inl ph, s)
          else (case r of
                  Inl e \<Rightarrow> (Inr (Inl e), s)
                | Inr stop \<Rightarrow>
                    (case spike_log env ''prompt_returned'' [(''stop_reason'', PStr stop)] s of
                       (x, t) \<Rightarrow> (Inr (rmap (\<lambda>_. stop) x), t)))
      | Updated u \<Rightarrow> if ph = To_Spawn then (Inl ph, s) else (Inl ph, snd (spike_session_update env u s))
      | Permission title opts \<Rightarrow>
          if ph = To_Spawn then (Inl ph, s)
          else
            (case spike_request_permission env mode title opts s of
               (x, t) \<Rightarrow> (Inl ph, t\<lparr>sp_replies := sp_replies t @ [(opts, x)]\<rparr>))
      | Stderr line \<Rightarrow>
          if sp_draining s
          then (case spike_raw ''[agent-stderr]'' line s of (x, t) \<Rightarrow> (Inl ph, t\<lparr>sp_draining := is_ok x\<rparr>))
          else (Inl ph, s)
      | Stderr_End \<Rightarrow> (Inl ph, s\<lparr>sp_draining := False\<rparr>)
      | Agent_Exit n \<Rightarrow> (Inl ph, if sp_proc s = Alive then s\<lparr>sp_proc := Gone n\<rparr> else s))"

fun spike_drive ::
  "spike_env \<Rightarrow> string \<Rightarrow> spike_phase \<Rightarrow> spike_happening list \<Rightarrow> spike \<Rightarrow> (string pyres \<times> spike) option"
where
  "spike_drive env mode ph [] s = None"
| "spike_drive env mode ph (h # hs) s =
     (case spike_happen env mode ph h s of
        (Inl ph1, s1) \<Rightarrow> spike_drive env mode ph1 hs s1
      | (Inr r, s1) \<Rightarrow> Some (r, s1))"

text \<open>Leaving \<open>async with spawn_agent_process\<close>, and \<open>process.kill(); await process.wait()\<close>.\<close>

definition spike_leave :: "spike_env \<Rightarrow> string pyres \<Rightarrow> spike \<Rightarrow> string pyres \<times> spike" where
  "spike_leave env r s =
     (if sp_proc s = Absent then (r, s)
      else (case se_leave env of None \<Rightarrow> r | Some e \<Rightarrow> Inl e,
            if se_reaped env \<and> sp_proc s = Alive then s\<lparr>sp_proc := Gone (se_returncode env)\<rparr> else s))"

definition spike_kill :: "spike_env \<Rightarrow> (spike, unit) action" where
  "spike_kill env s =
     (if sp_proc s \<noteq> Alive then (Inr (), s)
      else
        (let s1 = s\<lparr>sp_step := Suc (sp_step s)\<rparr> in
         case se_wait env (sp_step s) of
           Inl e \<Rightarrow> (Inl e, s1)
         | Inr _ \<Rightarrow> (Inr (), s1\<lparr>sp_proc := Gone (se_returncode env)\<rparr>)))"

definition returncode :: "spike_proc \<Rightarrow> pyval" where
  "returncode p = (case p of Gone n \<Rightarrow> PInt n | _ \<Rightarrow> PNone)"

definition spike_verdict :: "spike_env \<Rightarrow> string \<Rightarrow> string \<Rightarrow> (spike, int) action" where
  "spike_verdict env mode stop s =
     io_bind (spike_kill env) (\<lambda>_ t.
       io_bind (spike_log env ''agent_exited'' [(''returncode'', returncode (sp_proc t))])
         (\<lambda>_. evaluate env mode stop) t)
     (s\<lparr>sp_draining := False\<rparr>)"

text \<open>The two \<open>except\<close> clauses and the \<open>finally\<close> block.\<close>

definition spike_except :: "spike_env \<Rightarrow> int pyres \<Rightarrow> (spike, int) action" where
  "spike_except env r s =
     (case r of
        Inr n \<Rightarrow> (Inr n, s)
      | Inl e \<Rightarrow>
          if is_timeout e
          then io_bind (spike_log env ''timeout'' [(''error'', PStr (exc_str e))]) (\<lambda>_. io_return 1) s
          else if is_exception e
          then io_bind (spike_log env ''protocol_error''
                  [(''error'', PStr (exc_name (exc_of e))), (''detail'', PStr (exc_str e))])
                (\<lambda>_. io_return 1) s
          else (Inl e, s))"

definition spike_finally :: "spike_env \<Rightarrow> (spike, unit) action" where
  "spike_finally env =
     io_bind (spike_kill env) (\<lambda>_. io_bind (spike_log env ''done'' []) (\<lambda>_. spike_close))"

definition spike_body ::
  "spike_env \<Rightarrow> string \<Rightarrow> string \<Rightarrow> spike_happening list \<Rightarrow> spike \<Rightarrow> (int pyres \<times> spike) option"
where
  "spike_body env mode scratch script s =
     (let opencode = (if text_or (se_which env) '''' \<noteq> '''' then text_or (se_which env) ''''
                      else path_join (se_home env) ''.opencode/bin/opencode'') in
      case spike_log env ''spawn''
             [(''mode'', PStr mode), (''command'', PStr (opencode @ '' acp --cwd '' @ scratch)),
              (''scratch'', PStr scratch)] s of
        (Inl e, t) \<Rightarrow> Some (Inl e, t)
      | (Inr _, t) \<Rightarrow>
          (case spike_drive env mode To_Spawn script t of
             None \<Rightarrow> None
           | Some (r, u) \<Rightarrow>
               Some (case spike_leave env r u of
                       (Inl e, v) \<Rightarrow> (Inl e, v)
                     | (Inr stop, v) \<Rightarrow> spike_verdict env mode stop v)))"

text \<open>\<open>write\<close> is the outcome of creating the scratch directory and its configuration.\<close>

definition spike_run ::
  "spike_env \<Rightarrow> (string option \<Rightarrow> unit pyres) \<Rightarrow> string \<Rightarrow> string \<Rightarrow> spike_happening list \<Rightarrow>
   (int pyres \<times> spike) option"
where
  "spike_run env write mode scratch script =
     (case rbind (setup_scratch mode) write of
        Inl e \<Rightarrow> Some (Inl e, spike_start)
      | Inr _ \<Rightarrow>
          (case spike_body env mode scratch script spike_start of
             None \<Rightarrow> None
           | Some (r, s) \<Rightarrow>
               (case spike_except env r s of
                  (r2, t) \<Rightarrow>
                    Some (case spike_finally env t of
                            (Inl e, u) \<Rightarrow> (Inl e, u)
                          | (Inr _, u) \<Rightarrow> (r2, u)))))"

definition spike_main ::
  "spike_env \<Rightarrow> (string option \<Rightarrow> unit pyres) \<Rightarrow> string \<Rightarrow> string option \<Rightarrow> spike_happening list \<Rightarrow>
   (int pyres \<times> spike) option"
where
  "spike_main env write mode scratch script =
     spike_run env write mode (case scratch of Some d \<Rightarrow> d | None \<Rightarrow> path_join SCRATCH_ROOT mode) script"

section \<open>What a run leaves\<close>

lemma spike_json_ok: "\<exists>t. json_dumps spike_json lvl v = Inr t"
  using json_dumps_plain [of v spike_json lvl] by (auto simp: spike_json_def is_ok_iff)

text \<open>While the transcript is open, logging succeeds; it touches only the transcript.\<close>

definition logged :: "spike_env \<Rightarrow> string \<Rightarrow> data \<Rightarrow> spike \<Rightarrow> spike" where
  "logged env event kvs s = snd (spike_log env event kvs s)"

lemma spike_log_open [simp]:
  assumes "\<not> sp_closed s"
  shows "spike_log env event kvs s = (Inr (), logged env event kvs s)"
proof -
  obtain line where "json_dumps spike_json 0 (PDict (dict_update kvs
      [(''t'', PFloat (se_repr env (round3 (se_elapsed env (sp_step s))))), (''event'', PStr event)])) = Inr line"
    using spike_json_ok by blast
  with assms show ?thesis by (simp add: logged_def spike_log_def Let_def)
qed

lemma logged_frame [simp]:
  "sp_closed (logged env event kvs s) = sp_closed s"
  "sp_update_kinds (logged env event kvs s) = sp_update_kinds s"
  "sp_agent_text (logged env event kvs s) = sp_agent_text s"
  "sp_tool_calls (logged env event kvs s) = sp_tool_calls s"
  "sp_permission_requests (logged env event kvs s) = sp_permission_requests s"
  "sp_replies (logged env event kvs s) = sp_replies s"
  "sp_proc (logged env event kvs s) = sp_proc s"
  "sp_draining (logged env event kvs s) = sp_draining s"
  by (auto simp: logged_def spike_log_def Let_def split: sum.split)

definition answered_no :: "permission_option list \<Rightarrow> permission_outcome pyres \<Rightarrow> bool" where
  "answered_no opts reply \<longleftrightarrow>
     (case reply of
        Inl e \<Rightarrow> False
      | Inr Dismissed \<Rightarrow> True
      | Inr (Selected i) \<Rightarrow> \<exists>opt \<in> set opts. po_option_id opt = i \<and> po_kind opt \<in> set REJECT_KINDS)"

definition client_entry :: "data \<Rightarrow> bool" where
  "client_entry tc \<longleftrightarrow> map fst tc = [''id'', ''title'', ''status'', ''raw_input'']"

text \<open>
  The invariant of a session: an open transcript, one answer per permission request, no grant
  unless the mode is the happy one, and tool calls recorded under four keys.
\<close>

definition spike_inv :: "string \<Rightarrow> spike \<Rightarrow> bool" where
  "spike_inv mode s \<longleftrightarrow>
     \<not> sp_closed s \<and> length (sp_replies s) = length (sp_permission_requests s) \<and>
     (denying mode \<longrightarrow> (\<forall>(opts, reply) \<in> set (sp_replies s). answered_no opts reply)) \<and>
     list_all client_entry (sp_tool_calls s)"

lemma find_found: "List.find P xs = Some x \<Longrightarrow> x \<in> set xs \<and> P x"
  by (auto simp: find_Some_iff)

lemma request_refused:
  assumes "denying mode" and "\<not> sp_closed s"
    and "spike_request_permission env mode title opts s = (x, t)"
  shows "answered_no opts x"
  using assms
  by (auto simp: spike_request_permission_def io_bind_def io_return_def answered_no_def Let_def
      dest!: find_found split: option.splits)

lemma request_frame:
  assumes "\<not> sp_closed s" and "spike_request_permission env mode title opts s = (x, t)"
  shows "\<not> sp_closed t \<and> sp_replies t = sp_replies s \<and> sp_tool_calls t = sp_tool_calls s \<and>
    length (sp_permission_requests t) = Suc (length (sp_permission_requests s)) \<and> sp_proc t = sp_proc s"
  using assms
  by (cases "denying mode"; cases opts;
      cases "List.find (\<lambda>opt. po_kind opt \<in> set REJECT_KINDS) opts")
    (auto simp: spike_request_permission_def io_bind_def io_return_def Let_def)

lemma session_update_inv:
  assumes "spike_inv mode s"
  shows "spike_inv mode (snd (spike_session_update env u s))"
    "sp_proc (snd (spike_session_update env u s)) = sp_proc s"
  using assms by (simp_all add: spike_session_update_def spike_inv_def client_entry_def Let_def)

lemma spike_inv_logged [simp]: "spike_inv mode (logged env event kvs s) = spike_inv mode s"
  by (simp add: spike_inv_def)

lemma spike_inv_open: "spike_inv mode s \<Longrightarrow> \<not> sp_closed s"
  by (simp add: spike_inv_def)

lemma spike_inv_proc: "spike_inv mode s \<Longrightarrow> spike_inv mode (s\<lparr>sp_proc := p\<rparr>)"
  "spike_inv mode s \<Longrightarrow> spike_inv mode (s\<lparr>sp_draining := d\<rparr>)"
  "spike_inv mode s \<Longrightarrow> spike_inv mode (s\<lparr>sp_step := k\<rparr>)"
  "spike_inv mode s \<Longrightarrow> spike_inv mode (s\<lparr>sp_file := f\<rparr>)"
  by (simp_all add: spike_inv_def)

lemma spike_happen_inv:
  assumes "spike_inv mode s" and "spike_happen env mode ph h s = (x, t)"
  shows "spike_inv mode t"
proof (cases h)
  case (Updated u)
  with assms session_update_inv(1) [OF assms(1)] show ?thesis
    by (auto simp: spike_happen_def split: if_splits)
next
  case (Permission title opts)
  obtain x1 t1 where r: "spike_request_permission env mode title opts s = (x1, t1)" by fastforce
  have "\<not> sp_closed s" using assms(1) by (simp add: spike_inv_def)
  from request_frame [OF this r] request_refused [OF _ this r] Permission assms r show ?thesis
    by (auto simp: spike_happen_def spike_inv_def split: if_splits)
next
  case (Stderr line)
  with assms spike_inv_proc show ?thesis
    by (auto simp: spike_happen_def spike_raw_def split: if_splits)
qed (use assms spike_inv_open [OF assms(1)] spike_inv_proc in
      \<open>auto simp: spike_happen_def run_on_def split: if_splits sum.splits\<close>)

lemma spike_drive_inv:
  "spike_drive env mode ph hs s = Some (r, t) \<Longrightarrow> spike_inv mode s \<Longrightarrow> spike_inv mode t"
proof (induction hs arbitrary: ph s)
  case (Cons h hs)
  obtain x u where h: "spike_happen env mode ph h s = (x, u)" by fastforce
  with spike_happen_inv [OF Cons.prems(2) h] Cons show ?case by (auto split: sum.splits)
qed simp

lemma spike_happen_answer:
  "spike_happen env mode ph h s = (Inr (Inr stop), t) \<Longrightarrow> h = Answered (Inr stop)"
  by (cases h) (auto simp: spike_happen_def run_on_def rmap_eq_Inr split: if_splits sum.splits prod.splits)

lemma spike_drive_answer: "spike_drive env mode ph hs s = Some (Inr stop, t) \<Longrightarrow> Answered (Inr stop) \<in> set hs"
proof (induction hs arbitrary: ph s)
  case (Cons h hs)
  obtain x u where h: "spike_happen env mode ph h s = (x, u)" by fastforce
  with Cons spike_happen_answer [of env mode ph h s stop u] show ?case by (auto split: sum.splits)
qed simp

text \<open>What the end of a run leaves alone: all the client has recorded.\<close>

definition same_client :: "spike \<Rightarrow> spike \<Rightarrow> bool" where
  "same_client s t \<longleftrightarrow>
     sp_agent_text t = sp_agent_text s \<and> sp_tool_calls t = sp_tool_calls s \<and>
     sp_permission_requests t = sp_permission_requests s \<and> sp_replies t = sp_replies s"

lemma spike_inv_same: "spike_inv mode s \<Longrightarrow> same_client s t \<Longrightarrow> \<not> sp_closed t \<Longrightarrow> spike_inv mode t"
  by (simp add: spike_inv_def same_client_def)

lemma spike_kill_result:
  assumes "spike_kill env s = (x, t)"
  shows "same_client s t \<and> sp_closed t = sp_closed s \<and> (x = Inr () \<longrightarrow> sp_proc t \<noteq> Alive) \<and>
    (\<forall>e. x = Inl e \<longrightarrow> (\<exists>n. se_wait env n = Inl e))"
  using assms by (auto simp: spike_kill_def same_client_def Let_def split: if_splits sum.splits)

lemma evaluate_result:
  assumes "\<not> sp_closed s" and "evaluate env mode stop s = (x, t)"
  shows "same_client s t \<and> sp_closed t = sp_closed s \<and> sp_proc t = sp_proc s \<and>
    (\<forall>n. x = Inr n \<longrightarrow> n \<in> {0, 1} \<and> (n = 0 \<longleftrightarrow>
       (if mode = ''happy'' then stop = ''end_turn'' \<and> (\<exists>said. join_texts (sp_agent_text s) = Inr said \<and> py_contains ''ACP-OK'' said)
        else stop \<in> {''end_turn'', ''refusal''} \<and>
          (if mode = ''deny'' then sp_permission_requests s \<noteq> []
           else sp_permission_requests s = [] \<and> \<not> list_ex ran_probe (sp_tool_calls s)))))"
proof (cases "mode = ''happy''")
  case True
  with assms show ?thesis
    by (auto simp: evaluate_def io_bind_def io_return_def same_client_def Let_def split: sum.splits if_splits)
next
  case False
  show ?thesis
  proof (cases "mode = ''deny''")
    case True
    with assms show ?thesis
      by (cases "sp_permission_requests s")
        (auto simp: evaluate_def io_bind_def io_return_def same_client_def Let_def split: if_splits)
  next
    case other: False
    with False assms show ?thesis
      by (auto simp: evaluate_def io_bind_def io_return_def same_client_def Let_def split: if_splits)
  qed
qed

lemma spike_verdict_result:
  assumes "\<not> sp_closed s" and "spike_verdict env mode stop s = (x, t)"
  shows "same_client s t \<and> \<not> sp_closed t \<and>
    (\<forall>n. x = Inr n \<longrightarrow> (\<exists>u v. same_client s u \<and> \<not> sp_closed u \<and> evaluate env mode stop u = (Inr n, v)))"
proof -
  obtain y u where k: "spike_kill env (s\<lparr>sp_draining := False\<rparr>) = (y, u)" by fastforce
  from spike_kill_result [OF k] assms(1) have u: "same_client s u" "\<not> sp_closed u"
    by (auto simp: same_client_def)
  let ?v = "logged env ''agent_exited'' [(''returncode'', returncode (sp_proc u))] u"
  have v: "same_client s ?v" "\<not> sp_closed ?v" using u by (auto simp: same_client_def)
  show ?thesis
  proof (cases y)
    case (Inl e)
    with assms k u show ?thesis by (auto simp: spike_verdict_def io_bind_def)
  next
    case (Inr y1)
    with assms k u have ev: "evaluate env mode stop ?v = (x, t)" by (simp add: spike_verdict_def io_bind_def)
    from evaluate_result [OF v(2) ev] v have "same_client s t" "\<not> sp_closed t" by (auto simp: same_client_def)
    with v ev show ?thesis by blast
  qed
qed

lemma spike_body_result:
  assumes "spike_inv mode s" and "spike_body env mode scratch script s = Some (r, t)"
  shows "spike_inv mode t \<and> (\<forall>n. r = Inr n \<longrightarrow> (\<exists>stop u v. Answered (Inr stop) \<in> set script \<and>
    spike_inv mode u \<and> same_client u t \<and> evaluate env mode stop u = (Inr n, v)))"
proof -
  define s1 where "s1 = logged env ''spawn''
    [(''mode'', PStr mode),
     (''command'', PStr ((if text_or (se_which env) '''' \<noteq> '''' then text_or (se_which env) ''''
        else path_join (se_home env) ''.opencode/bin/opencode'') @ '' acp --cwd '' @ scratch)),
     (''scratch'', PStr scratch)] s"
  have s1: "spike_inv mode s1" using assms(1) by (simp add: s1_def)
  have body: "(case spike_drive env mode To_Spawn script s1 of
      None \<Rightarrow> None
    | Some (r, u) \<Rightarrow> Some (case spike_leave env r u of
        (Inl e, v) \<Rightarrow> (Inl e, v) | (Inr stop, v) \<Rightarrow> spike_verdict env mode stop v)) = Some (r, t)"
    using assms(2) spike_inv_open [OF assms(1)] by (simp add: spike_body_def Let_def s1_def)
  then obtain r1 u where d: "spike_drive env mode To_Spawn script s1 = Some (r1, u)" by (auto split: option.splits)
  obtain r2 v where l: "spike_leave env r1 u = (r2, v)" by fastforce
  have v: "spike_inv mode v" "r2 = Inr stop \<Longrightarrow> r1 = Inr stop" for stop
    using spike_drive_inv [OF d s1] l spike_inv_proc(1)
    by (auto simp: spike_leave_def split: if_splits option.splits)
  show ?thesis
  proof (cases r2)
    case (Inl e)
    with body d l v show ?thesis by auto
  next
    case (Inr stop)
    with body d l have r: "spike_verdict env mode stop v = (r, t)" by simp
    from spike_verdict_result [OF spike_inv_open [OF v(1)] r] have
      t: "spike_inv mode t" "same_client v t"
      and ev: "\<forall>n. r = Inr n \<longrightarrow> (\<exists>w x. same_client v w \<and> \<not> sp_closed w \<and> evaluate env mode stop w = (Inr n, x))"
      using spike_inv_same v(1) by blast+
    have "same_client w t" if "same_client v w" for w using that t(2) by (simp add: same_client_def)
    moreover have "Answered (Inr stop) \<in> set script" 
      using d v(2) [OF Inr] by (auto intro: spike_drive_answer)
    moreover have "spike_inv mode w" if "same_client v w" "\<not> sp_closed w" for w
      using spike_inv_same [OF v(1) that] .
    ultimately show ?thesis using t(1) ev by blast
  qed
qed

lemma spike_except_result:
  assumes "\<not> sp_closed s" and "spike_except env r s = (x, t)"
  shows "same_client s t \<and> \<not> sp_closed t \<and>
    (case x of Inr n \<Rightarrow> r = Inr n \<or> n = 1 | Inl e \<Rightarrow> r = Inl e \<and> \<not> is_exception e)"
  using assms
  by (auto simp: spike_except_def io_bind_def io_return_def same_client_def split: sum.splits if_splits)

lemma spike_finally_result:
  assumes "\<not> sp_closed s" and "spike_finally env s = (x, t)"
  shows "same_client s t \<and> (x = Inr () \<longrightarrow> sp_closed t \<and> sp_proc t \<noteq> Alive) \<and>
    (\<forall>e. x = Inl e \<longrightarrow> (\<exists>n. se_wait env n = Inl e))"
proof -
  obtain y u where k: "spike_kill env s = (y, u)" by fastforce
  from spike_kill_result [OF k] k assms show ?thesis
    by (cases y) (auto simp: spike_finally_def io_bind_def spike_close_def same_client_def)
qed

lemma spike_start_inv: "spike_inv mode spike_start"
  by (simp add: spike_inv_def spike_start_def)

text \<open>The parts of a run whose scratch directory could be set up.\<close>

lemma spike_run_result:
  assumes "spike_run env write mode scratch script = Some (r, t)" and "is_ok (rbind (setup_scratch mode) write)"
  obtains r1 s1 r2 s2 x where "spike_body env mode scratch script spike_start = Some (r1, s1)"
    "spike_except env r1 s1 = (r2, s2)" "spike_finally env s2 = (x, t)"
    "r = (case x of Inl e \<Rightarrow> Inl e | Inr _ \<Rightarrow> r2)" "spike_inv mode s1" "\<not> sp_closed s2" "same_client s1 s2"
proof -
  from assms obtain r1 s1 where b: "spike_body env mode scratch script spike_start = Some (r1, s1)"
    by (auto simp: spike_run_def is_ok_iff split: option.splits)
  obtain r2 s2 where e: "spike_except env r1 s1 = (r2, s2)" by fastforce
  obtain x u where f: "spike_finally env s2 = (x, u)" by fastforce
  from assms b e f have "u = t" "r = (case x of Inl e \<Rightarrow> Inl e | Inr _ \<Rightarrow> r2)"
    by (auto simp: spike_run_def is_ok_iff split: sum.splits)
  moreover have "spike_inv mode s1" using spike_body_result [OF spike_start_inv b] by blast
  moreover from spike_except_result [OF spike_inv_open [OF this] e] have "\<not> sp_closed s2" "same_client s1 s2" by auto
  ultimately show thesis using that b e f by blast
qed

text \<open>
  A spike run leaves nothing behind.  Once its scratch directory is set up, a run that ends,
  by a verdict, a timeout, a protocol error or an exception that is not caught, has killed or
  seen the exit of the agent's process and closed the transcript; its result is exit code 0 or 1
  or that exception, unless waiting for the killed process is itself interrupted.
\<close>

theorem spike_leaves_nothing:
  assumes "spike_run env write mode scratch script = Some (r, t)" and "is_ok (rbind (setup_scratch mode) write)"
  shows "sp_closed t \<and> sp_proc t \<noteq> Alive \<and> (case r of Inr n \<Rightarrow> n \<in> {0, 1} | Inl e \<Rightarrow> \<not> is_exception e) \<or>
    (\<exists>e n. r = Inl e \<and> se_wait env n = Inl e)"
proof -
  from assms obtain r1 s1 r2 s2 x where b: "spike_body env mode scratch script spike_start = Some (r1, s1)"
    and e: "spike_except env r1 s1 = (r2, s2)" and f: "spike_finally env s2 = (x, t)"
    and r: "r = (case x of Inl e \<Rightarrow> Inl e | Inr _ \<Rightarrow> r2)" and s: "spike_inv mode s1" "\<not> sp_closed s2"
    by (rule spike_run_result)
  show ?thesis
  proof (cases x)
    case (Inl e)
    with r spike_finally_result [OF s(2) f] show ?thesis by auto
  next
    case (Inr u)
    have "n \<in> {0, 1}" if n: "r1 = Inr n" for n
    proof -
      from spike_body_result [OF spike_start_inv b] n obtain stop u v where
        "spike_inv mode u" "evaluate env mode stop u = (Inr n, v)" by blast
      with evaluate_result [OF spike_inv_open] show ?thesis by blast
    qed
    with Inr r spike_finally_result [OF s(2) f] spike_except_result [OF spike_inv_open [OF s(1)] e]
    show ?thesis by (auto split: sum.splits)
  qed
qed

text \<open>
  What exit code 0 of the spike attests.  The agent answered the prompt; in the happy mode
  with \<open>end_turn\<close>, having said \<open>ACP-OK\<close>; in the deny mode with a settled stop reason, after at
  least one permission request; in the deny-config mode without any.  In both deny modes every
  request was answered by one of its reject options or cancelled.
\<close>

theorem spike_success_attests:
  assumes "spike_run env write mode scratch script = Some (Inr 0, t)"
  shows "(\<exists>stop. Answered (Inr stop) \<in> set script \<and>
      (if mode = ''happy''
       then stop = ''end_turn'' \<and> (\<exists>said. join_texts (sp_agent_text t) = Inr said \<and> py_contains ''ACP-OK'' said)
       else stop \<in> {''end_turn'', ''refusal''} \<and> (mode = ''deny'' \<longleftrightarrow> sp_replies t \<noteq> []))) \<and>
    (denying mode \<longrightarrow> (\<forall>(opts, reply) \<in> set (sp_replies t). answered_no opts reply))"
proof -
  have ok: "is_ok (rbind (setup_scratch mode) write)"
    using assms by (auto simp: spike_run_def is_ok_iff split: sum.splits)
  from assms ok obtain r1 s1 r2 s2 x where b: "spike_body env mode scratch script spike_start = Some (r1, s1)"
    and e: "spike_except env r1 s1 = (r2, s2)" and f: "spike_finally env s2 = (x, t)"
    and r: "Inr 0 = (case x of Inl e \<Rightarrow> Inl e | Inr _ \<Rightarrow> r2)" and s: "spike_inv mode s1" "\<not> sp_closed s2" "same_client s1 s2"
    by (rule spike_run_result)
  from r have r2: "r2 = Inr 0" by (auto split: sum.splits)
  with spike_except_result [OF spike_inv_open [OF s(1)] e] have "r1 = Inr 0" by auto
  with spike_body_result [OF spike_start_inv b] obtain stop u v where ans: "Answered (Inr stop) \<in> set script"
    and u: "spike_inv mode u" "same_client u s1" "evaluate env mode stop u = (Inr 0, v)" by blast
  from spike_finally_result [OF s(2) f] s(3) have t: "same_client s1 t" by (auto simp: same_client_def)
  with u(2) have "same_client u t" by (simp add: same_client_def)
  moreover from u(1) have "sp_replies u = [] \<longleftrightarrow> sp_permission_requests u = []"
    by (auto simp: spike_inv_def simp flip: length_0_conv)
  ultimately have "if mode = ''happy''
       then stop = ''end_turn'' \<and> (\<exists>said. join_texts (sp_agent_text t) = Inr said \<and> py_contains ''ACP-OK'' said)
       else stop \<in> {''end_turn'', ''refusal''} \<and> (mode = ''deny'' \<longleftrightarrow> sp_replies t \<noteq> [])"
    using evaluate_result [OF spike_inv_open [OF u(1)] u(3)] by (auto simp: same_client_def split: if_splits)
  moreover have "denying mode \<longrightarrow> (\<forall>(opts, reply) \<in> set (sp_replies t). answered_no opts reply)"
    using s(1) t by (simp add: spike_inv_def same_client_def)
  ultimately show ?thesis using ans by blast
qed

text \<open>
  C40: the deny-config verdict cannot see an executed command.  It looks for the command's output
  under a key that the client never records, so whatever the agent reports, no recorded tool call
  counts as executed, and the exit code is 0 even if the agent reports the command as completed.
\<close>

theorem deny_config_blind_to_execution:
  assumes "spike_run env write mode scratch script = Some (r, t)"
  shows "\<not> list_ex ran_probe (sp_tool_calls t)"
proof (cases "is_ok (rbind (setup_scratch mode) write)")
  case False
  with assms show ?thesis by (auto simp: spike_run_def is_ok_iff spike_start_def split: sum.splits)
next
  case True
  with assms obtain s1 s2 r2 x where "spike_inv mode s1" "same_client s1 s2" "\<not> sp_closed s2" "spike_finally env s2 = (x, t)"
    by (elim spike_run_result)
  with spike_finally_result have "spike_inv mode s1" "same_client s1 t" by (auto simp: same_client_def)
  then have keys: "\<forall>tc \<in> set (sp_tool_calls t). map fst tc = [''id'', ''title'', ''status'', ''raw_input'']"
    by (simp add: spike_inv_def same_client_def list_all_iff client_entry_def)
  have "\<not> ran_probe tc" if "tc \<in> set (sp_tool_calls t)" for tc
  proof -
    from that keys have "''raw_output'' \<notin> set (map fst tc)" by auto
    then have "map_of tc ''raw_output'' = None" by (simp add: map_of_eq_None_iff)
    then show ?thesis by (simp add: ran_probe_def dict_get_def py_startswith_def)
  qed
  then show ?thesis by (auto simp: list_ex_iff)
qed

section \<open>Instances\<close>

definition sample_agent :: spike_env where
  "sample_agent =
     \<lparr>se_elapsed = of_nat, se_repr = (\<lambda>_. ''0.0''), se_stamp = ''20260101-000000'', se_which = Some ''/bin/opencode'',
      se_home = ''/h'', se_leave = None, se_reaped = True, se_wait = (\<lambda>_. Inr ()), se_returncode = 0\<rparr>"

text \<open>A tool call that the agent reports as completed, with the output of the command.\<close>

definition executed_probe :: update where
  "executed_probe =
     \<lparr>up_type = ''ToolCallProgress'',
      up_attrs = [(''session_update'', PStr ''tool_call_update''), (''tool_call_id'', PStr ''c1''),
                  (''title'', PStr ''bash''), (''status'', PStr ''completed''),
                  (''raw_input'', PDict [(''command'', PStr ''echo acp-deny-probe'')]),
                  (''raw_output'', PDict [(''output'', PStr ''acp-deny-probe'')])],
      up_content = [], up_self = PNone\<rparr>"

definition sample_exchange :: "spike_happening list \<Rightarrow> spike_happening list" where
  "sample_exchange hs =
     [Spawned (Inr ()), Initialised (Inr (PInt 1, PDict [], [])), Session_New (Inr ''s1'')] @ hs
     @ [Answered (Inr ''end_turn'')]"

lemma scratch_ok: "\<exists>x. setup_scratch mode = Inr x"
proof (cases "PERMISSION_CONFIG mode")
  case (Some config)
  then have "plain (PDict ((''$schema'', PStr ''https://opencode.ai/config.json'') # config))"
    by (auto simp: PERMISSION_CONFIG_def split: if_splits)
  then have "is_ok (json_dumps (json_indented False) 0 (PDict ((''$schema'', PStr ''https://opencode.ai/config.json'') # config)))"
    by (intro json_dumps_plain disjI1)
  with Some show ?thesis by (auto simp: setup_scratch_def is_ok_iff simp del: json_dumps.simps)
qed (simp add: setup_scratch_def)

lemma sample_deny_config:
  "\<exists>t. spike_run sample_agent (\<lambda>_. Inr ()) ''deny-config'' ''/w'' (sample_exchange [Updated executed_probe]) =
     Some (Inr 0, t)"
proof -
  obtain x where x: "setup_scratch ''deny-config'' = Inr x" using scratch_ok by blast
  show ?thesis
    by (simp add: spike_run_def x spike_body_def spike_start_def sample_exchange_def spike_happen_def run_on_def
        spike_session_update_def executed_probe_def update_kind_def attr_def dict_get_def sample_agent_def
        spike_leave_def spike_verdict_def spike_kill_def io_bind_def io_return_def evaluate_def ran_probe_def
        spike_except_def spike_finally_def spike_close_def Let_def)
qed

theorem deny_config_blind_to_execution_witness:
  "\<exists>t. spike_run sample_agent (\<lambda>_. Inr ()) ''deny-config'' ''/w'' (sample_exchange [Updated executed_probe]) =
     Some (Inr 0, t) \<and> \<not> list_ex ran_probe (sp_tool_calls t)"
  using sample_deny_config deny_config_blind_to_execution by blast

definition sample_request :: spike_happening where
  "sample_request = Permission (PStr ''bash'') [\<lparr>po_kind = ''allow_once'', po_option_id = ''a''\<rparr>, \<lparr>po_kind = ''reject_once'', po_option_id = ''r''\<rparr>]"

lemma sample_deny:
  "\<exists>t. spike_run sample_agent (\<lambda>_. Inr ()) ''deny'' ''/w'' (sample_exchange [sample_request]) = Some (Inr 0, t)"
proof -
  obtain x where x: "setup_scratch ''deny'' = Inr x" using scratch_ok by blast
  show ?thesis
    by (simp add: spike_run_def x spike_body_def spike_start_def sample_exchange_def spike_happen_def run_on_def
        sample_request_def spike_request_permission_def denying_def REJECT_KINDS_def sample_agent_def
        spike_leave_def spike_verdict_def spike_kill_def io_bind_def io_return_def evaluate_def
        spike_except_def spike_finally_def spike_close_def Let_def)
qed

theorem spike_success_attests_witness:
  "\<exists>t. spike_run sample_agent (\<lambda>_. Inr ()) ''deny'' ''/w'' (sample_exchange [sample_request]) = Some (Inr 0, t) \<and>
     sp_replies t \<noteq> [] \<and> (\<forall>(opts, reply) \<in> set (sp_replies t). answered_no opts reply)"
proof -
  from sample_deny obtain t where run: "spike_run sample_agent (\<lambda>_. Inr ()) ''deny'' ''/w'' (sample_exchange [sample_request]) =
      Some (Inr 0, t)" by blast
  from spike_success_attests [OF run] have "(''deny'' = ''deny'') = (sp_replies t \<noteq> [])"
      "\<forall>(opts, reply) \<in> set (sp_replies t). answered_no opts reply"
    by (auto simp: denying_def)
  with run show ?thesis by simp
qed

theorem spike_leaves_nothing_witness:
  "\<exists>t. spike_run sample_agent (\<lambda>_. Inr ()) ''deny'' ''/w'' (sample_exchange [sample_request]) = Some (Inr 0, t) \<and>
     sp_closed t \<and> sp_proc t \<noteq> Alive"
proof -
  from sample_deny obtain t where run: "spike_run sample_agent (\<lambda>_. Inr ()) ''deny'' ''/w'' (sample_exchange [sample_request]) =
      Some (Inr 0, t)" by blast
  have "is_ok (rbind (setup_scratch ''deny'') (\<lambda>_. Inr ()))" using scratch_ok [of "''deny''"] by auto
  from spike_leaves_nothing [OF run this] run show ?thesis by (simp add: sample_agent_def)
qed

end
