(* ===== verification/Shared_Root.thy ===== *)
theory Shared_Root
  imports Webhook_App Event_Log
begin

text \<open>
  The two writers below one trace root: the durable event log (\<open>event_log.py\<close>) and the trace of the
  run in progress (\<open>trace_log.py\<close>).  They share the directory of the run, and whichever creates a
  run directory prunes the others.  Here their operations interleave on one file system, under an
  arbitrary plan of faults: what the run keeps as long as the directories fit into the retention,
  and what it loses as soon as they do not.
\<close>

section \<open>Both writers on one file system\<close>

text \<open>
  An emit of any part of the service, a line of the harness, the outcome of the run.  The task that
  reads the harness ends when a line cannot be written (\<open>drain_line\<close> in \<open>Acp_Session\<close>); here
  lines may follow, so the schedules include those of the program.
\<close>

datatype shared_op = Emitted data | Harness string | Outcome data string

record shared =
  sh_log :: event_log
  sh_trace :: run_trace
  sh_fs :: fs

definition shared_do :: "shared_op \<Rightarrow> shared \<Rightarrow> shared" where
  "shared_do op s =
     (case op of
        Emitted item \<Rightarrow>
          (case append_event item (sh_log s) (sh_fs s) of (_, el, f) \<Rightarrow> s\<lparr>sh_log := el, sh_fs := f\<rparr>)
      | Harness line \<Rightarrow>
          (case trace_write line (sh_trace s) (sh_fs s) of (_, tr, f) \<Rightarrow> s\<lparr>sh_trace := tr, sh_fs := f\<rparr>)
      | Outcome kvs now \<Rightarrow>
          (case trace_finish kvs now (sh_trace s) (sh_fs s) of (_, tr, f) \<Rightarrow> s\<lparr>sh_trace := tr, sh_fs := f\<rparr>))"

definition shared_run :: "shared_op list \<Rightarrow> shared \<Rightarrow> shared" where
  "shared_run ops s = fold shared_do ops s"

text \<open>The runs that the emitted events belong to, and the harness lines of a schedule.\<close>

definition emitted_runs :: "shared_op list \<Rightarrow> string set" where
  "emitted_runs ops = {rid. \<exists>item. Emitted item \<in> set ops \<and> run_id_of (event_data item) = Some rid}"

fun harness_lines :: "shared_op list \<Rightarrow> string list" where
  "harness_lines [] = []"
| "harness_lines (Harness line # ops) = line # harness_lines ops"
| "harness_lines (_ # ops) = harness_lines ops"

fun emitted_items :: "shared_op list \<Rightarrow> data list" where
  "emitted_items [] = []"
| "emitted_items (Emitted item # ops) = item # emitted_items ops"
| "emitted_items (_ # ops) = emitted_items ops"

definition history_text :: "string \<Rightarrow> shared_op list \<Rightarrow> string" where
  "history_text d ops = lines_text (map item_text (filter (of_run d) (emitted_items ops)))"

section \<open>While the retention suffices\<close>

text \<open>
  The frame with respect to a run \<open>d\<close>, when all run directories are among \<open>K\<close>: its directory and
  all its files but those named in \<open>N\<close> stay, and no other run directory appears.
\<close>

definition spares :: "string set \<Rightarrow> string \<Rightarrow> string set \<Rightarrow> fs \<Rightarrow> fs \<Rightarrow> bool" where
  "spares N d K s t \<longleftrightarrow>
     (wf_fs s \<and> is_run_dir d s \<and> set (run_dirs s) \<subseteq> K \<longrightarrow>
      wf_fs t \<and> is_run_dir d t \<and> set (run_dirs t) \<subseteq> K \<and>
      (\<forall>n. n \<notin> N \<longrightarrow> run_file d n t = run_file d n s))"

interpretation spares: frame "spares N d K" for N d K
  by unfold_locales (auto simp: spares_def wf_fs_def is_run_dir_def run_dirs_def run_file_def run_files_def)

lemma spares_put_other:
  assumes "e \<noteq> d" and "case nd of Dir _ _ \<Rightarrow> is_run_id e \<longrightarrow> e \<in> K | File _ \<Rightarrow> True"
  shows "spares N d K s (put_node e nd s)"
proof -
  have wf: "wf_fs s \<Longrightarrow> wf_fs (put_node e nd s)" by (simp add: wf_fs_def put_node_def distinct_upsert)
  have "x \<in> K" if "wf_fs s" "set (run_dirs s) \<subseteq> K" "x \<in> set (run_dirs (put_node e nd s))" for x
    using that assms(2) wf
    by (cases "x = e")
      (auto simp: run_dirs_iff is_run_dir_def put_node_def subset_iff split: node.splits option.splits)
  with wf assms(1) show ?thesis
    by (auto simp: spares_def is_run_dir_def run_file_def run_files_def put_node_def)
qed

lemma spares_put_run: "e \<noteq> d \<or> n \<in> N \<Longrightarrow> spares N d K s (put_run_file e n c s)"
proof -
  assume n: "e \<noteq> d \<or> n \<in> N"
  have wf: "wf_fs s \<Longrightarrow> wf_fs (put_run_file e n c s)"
    by (auto simp: put_run_file_def wf_fs_def put_node_def distinct_upsert split: option.splits node.splits)
  then have "wf_fs s \<Longrightarrow> set (run_dirs (put_run_file e n c s)) = set (run_dirs s)"
    by (auto simp: run_dirs_iff)
  moreover have "run_file d m (put_run_file e n c s) = run_file d m s" if "m \<notin> N" for m
    using that n by (cases "e = d")
      (auto simp: put_run_file_def run_file_def run_files_def put_node_def split: option.splits node.splits)
  ultimately show ?thesis using wf by (simp add: spares_def)
qed

lemma spares_mkdir_run: "is_run_id e \<longrightarrow> e \<in> K \<Longrightarrow> keeps (spares N d K) (mkdir_run e)"
  unfolding mkdir_run_def
proof (rule spares.keeps_plain_call, rule keepsI)
  fix s
  assume e: "is_run_id e \<longrightarrow> e \<in> K"
  show "spares N d K s (snd ((case map_of (fs_nodes s) e of Some (File _) \<Rightarrow> fail s | Some (Dir _ _) \<Rightarrow> (Inr (), s)
      | None \<Rightarrow> (Inr (), put_node e (Dir (fs_clock s (fs_tick s)) []) (s\<lparr>fs_root := True\<rparr>)))))"
  proof (cases "map_of (fs_nodes s) e")
    case None
    show ?thesis
    proof (cases "e = d")
      case True
      with None show ?thesis by (simp add: spares_def is_run_dir_def)
    next
      case False
      have "spares N d K s (s\<lparr>fs_root := True\<rparr>)"
        by (simp add: spares_def wf_fs_def is_run_dir_def run_dirs_def run_file_def run_files_def)
      moreover have "spares N d K (s\<lparr>fs_root := True\<rparr>) (put_node e (Dir (fs_clock s (fs_tick s)) []) (s\<lparr>fs_root := True\<rparr>))"
        using e False by (intro spares_put_other) auto
      ultimately show ?thesis using None by (auto intro: spares.trans)
    qed
  next
    case (Some nd)
    then show ?thesis by (cases nd) simp_all
  qed
qed

lemma spares_run_calls:
  assumes "e \<noteq> d \<or> n \<in> N"
  shows "keeps (spares N d K) (open_run_file b e n)" "keeps (spares N d K) (write_run_file e n c)"
proof -
  have put: "spares N d K s (put_run_file e n x s)" for s x using assms by (rule spares_put_run)
  show "keeps (spares N d K) (open_run_file b e n)" "keeps (spares N d K) (write_run_file e n c)"
    unfolding open_run_file_def write_run_file_def
    by (rule spares.keeps_plain_call spares.keeps_syscall; auto simp: keeps_def add_run_text_def put)+
qed

text \<open>Pruning does nothing as long as all run directories are among at most \<open>keep\<close> names.\<close>

lemma prune_within:
  assumes "prune_runs k p s = (r, t)" and "wf_fs s" and "set (run_dirs s) \<subseteq> K" and "finite K"
    and "card K \<le> nat (max 1 k)"
  shows "fs_nodes t = fs_nodes s"
proof -
  have "length (run_dirs s) = card (set (run_dirs s))"
    using distinct_run_dirs [OF assms(2)] by (simp add: distinct_card)
  also have "\<dots> \<le> card K" using assms(3,4) by (rule card_mono [rotated])
  finally have "stale_runs k s = []" using assms(5) by (simp add: stale_runs_def)
  with prune_runs_shape [OF assms(1)] show ?thesis by (auto simp: io_return_def)
qed

lemma spares_prune: "finite K \<Longrightarrow> card K \<le> nat (max 1 k) \<Longrightarrow> keeps (spares N d K) (prune_runs k p)"
proof (rule keepsI)
  fix s assume K: "finite K" "card K \<le> nat (max 1 k)"
  obtain r t where p: "prune_runs k p s = (r, t)" by fastforce
  from prune_within [OF p _ _ K] show "spares N d K s (snd (prune_runs k p s))"
    by (auto simp: p spares_def wf_fs_def is_run_dir_def run_dirs_def run_file_def run_files_def)
qed

lemma spares_append_run:
  assumes "is_run_id rid \<longrightarrow> rid \<in> K" and "finite K" and "card K \<le> nat (max 1 (el_keep_runs el))"
    and "rid \<noteq> d \<or> EVENTS \<in> N"
  shows "keeps (spares N d K) (append_run el rid line)"
  unfolding append_run_def using assms
  by (intro spares.keeps_bind spares.keeps_reads spares.keeps_if spares.keeps_return spares_mkdir_run
      spares_run_calls spares_prune)

lemma spares_global_calls:
  assumes "is_run_id d"
  shows "keeps (spares N d K) mkdir_root" "keeps (spares N d K) (append_file EVENTS line)"
    "keeps (spares N d K) (replace_file EVENTS EVENTS_1)"
proof -
  have names: "EVENTS \<noteq> d" "EVENTS_1 \<noteq> d" using assms by (auto simp: EVENTS_def EVENTS_1_def is_run_id_def)
  have put: "spares N d K s (put_node EVENTS (File c) s)" "spares N d K s (put_node EVENTS_1 (File c) s)" for s c
    using names by (auto intro: spares_put_other)
  have rm: "spares N d K s (s\<lparr>fs_nodes := remove_key EVENTS (fs_nodes s)\<rparr>)" for s
  proof -
    let ?t = "s\<lparr>fs_nodes := remove_key EVENTS (fs_nodes s)\<rparr>"
    have wf: "wf_fs s \<Longrightarrow> wf_fs ?t" by (simp add: wf_fs_def distinct_remove_key)
    then have "wf_fs s \<Longrightarrow> set (run_dirs ?t) \<subseteq> set (run_dirs s)"
      by (auto simp: run_dirs_iff is_run_dir_def split: option.splits if_splits)
    with wf names show ?thesis by (auto simp: spares_def is_run_dir_def run_file_def run_files_def)
  qed
  show "keeps (spares N d K) mkdir_root"
    unfolding mkdir_root_def
    by (rule spares.keeps_plain_call)
      (simp add: keeps_def spares_def wf_fs_def is_run_dir_def run_dirs_def run_file_def run_files_def)
  show "keeps (spares N d K) (append_file EVENTS line)"
    unfolding append_file_def open_append_def write_text_def
    by (intro spares.keeps_bind spares.keeps_plain_call spares.keeps_syscall)
      (auto simp: keeps_def add_text_def put split: option.splits node.splits)
  show "keeps (spares N d K) (replace_file EVENTS EVENTS_1)"
    unfolding replace_file_def
    by (rule spares.keeps_plain_call)
      (auto simp: keeps_def split: option.splits node.splits intro: spares.trans [OF rm put(2)])
qed

lemma spares_append_global:
  assumes "append_global line el s = (r, el1, t)" and "is_run_id d"
  shows "spares N d K s t"
proof -
  have 1: "keeps (spares N d K) (io_bind (global_size el) (rotate el))"
    unfolding global_size_def rotate_def using spares_global_calls(3) [OF assms(2)]
    by (intro spares.keeps_bind) (auto split: option.splits intro!: spares.keeps_catch spares.keeps_bind spares.keeps_reads)
  have 2: "keeps (spares N d K) (io_bind mkdir_root (\<lambda>_. append_file EVENTS line))"
    using assms(2) by (intro spares.keeps_bind spares_global_calls)
  show ?thesis
    using assms(1) keepsD [OF 1] keepsD [OF 2]
    by (fastforce simp: append_global_def split: prod.splits sum.splits intro: spares.trans)
qed

lemma spares_append_event:
  assumes "append_event item el s = (r, el1, t)" and "is_run_id d" and "finite K"
    and "card K \<le> nat (max 1 (el_keep_runs el))"
    and "\<And>rid. run_id_of (event_data item) = Some rid \<Longrightarrow> is_run_id rid \<Longrightarrow> rid \<in> K"
    and "of_run d item \<Longrightarrow> EVENTS \<in> N"
  shows "spares N d K s t" and "el_keep_runs el1 = el_keep_runs el"
proof -
  obtain line where line: "event_line item = Inr (line @ [newline])" using event_line_ok by blast
  show "spares N d K s t" and "el_keep_runs el1 = el_keep_runs el"
  proof (atomize (full), cases "run_id_of (event_data item)")
    case None
    obtain r1 el2 u where ap: "append_global (line @ [newline]) el s = (r1, el2, u)" by (metis prod_cases3)
    with assms(1) None line have "u = t" "el2 = el1" by (auto simp: append_event_def split: sum.splits)
    with spares_append_global [OF ap assms(2)] ap show "spares N d K s t \<and> el_keep_runs el1 = el_keep_runs el"
      by (auto simp: append_global_def split: prod.splits sum.splits)
  next
    case (Some rid)
    obtain r1 u where ap: "append_run el rid (line @ [newline]) s = (r1, u)" by fastforce
    with assms(1) Some line have "u = t" "el1 = el" by (auto simp: append_event_def split: sum.splits)
    with keepsD [OF spares_append_run ap] assms(3-6) Some show "spares N d K s t \<and> el_keep_runs el1 = el_keep_runs el" by auto
  qed
qed

section \<open>What the run keeps\<close>

definition line_text :: "string \<Rightarrow> string" where
  "line_text line = py_rstrip_of newline line @ [newline]"

text \<open>
  A run in progress in directory \<open>d\<close>: its harness log holds \<open>logged\<close> up to what is still in the
  buffer, its manifest is \<open>first\<close> or a complete one, and all run directories are among \<open>K\<close>.
\<close>

definition in_progress :: "string \<Rightarrow> string set \<Rightarrow> string option \<Rightarrow> string \<Rightarrow> shared \<Rightarrow> bool" where
  "in_progress d K first written s \<longleftrightarrow>
     rt_directory (sh_trace s) = d \<and> wf_fs (sh_fs s) \<and> is_run_dir d (sh_fs s) \<and> set (run_dirs (sh_fs s)) \<subseteq> K \<and>
     (\<exists>content pending. run_file d LOG_NAME (sh_fs s) = Some content \<and> rt_handle (sh_trace s) = Some pending \<and>
        content @ pending = written) \<and>
     (run_file d MANIFEST_NAME (sh_fs s) = first \<or>
        (\<exists>m body. manifest_text m = Inr body \<and> run_file d MANIFEST_NAME (sh_fs s) = Some body))"

lemma file_names [simp]:
  "LOG_NAME \<noteq> EVENTS" "MANIFEST_NAME \<noteq> EVENTS" "LOG_NAME \<noteq> MANIFEST_NAME" "LOG_NAME \<noteq> TMP_NAME"
  "MANIFEST_NAME \<noteq> LOG_NAME" "EVENTS \<noteq> LOG_NAME" "EVENTS \<noteq> MANIFEST_NAME" "EVENTS \<noteq> TMP_NAME"
  by (simp_all add: LOG_NAME_def MANIFEST_NAME_def TMP_NAME_def EVENTS_def)

lemma spares_in_progress:
  assumes "in_progress d K first written s" and "spares N d K (sh_fs s) t" and "LOG_NAME \<notin> N" and "MANIFEST_NAME \<notin> N"
    and "sh_fs s2 = t" and "sh_trace s2 = sh_trace s"
  shows "in_progress d K first written s2"
  using assms by (simp add: in_progress_def spares_def)

text \<open>What is added to the history of the run, when nothing fails.\<close>

definition history_grows :: "string \<Rightarrow> string \<Rightarrow> fs \<Rightarrow> fs \<Rightarrow> bool" where
  "history_grows d added s t \<longleftrightarrow>
     (faultless s \<longrightarrow> faultless t \<and> run_log d t = run_log d s @ added)"

lemma history_unchanged:
  assumes "same_plan s t" and "spares N d K s t" and "EVENTS \<notin> N" and "wf_fs s" and "is_run_dir d s"
    and "set (run_dirs s) \<subseteq> K"
  shows "history_grows d '''' s t"
  using assms faultless_plan [OF assms(1)] by (auto simp: history_grows_def spares_def run_log_def)

lemma event_in_progress:
  assumes "in_progress d K first written s" and "is_run_id d" and "finite K"
    and "card K \<le> nat (max 1 (el_keep_runs (sh_log s)))"
    and "\<And>rid. run_id_of (event_data item) = Some rid \<Longrightarrow> is_run_id rid \<Longrightarrow> rid \<in> K"
  shows "in_progress d K first written (shared_do (Emitted item) s)"
    "el_keep_runs (sh_log (shared_do (Emitted item) s)) = el_keep_runs (sh_log s)"
    "history_grows d (if of_run d item then item_text item @ [newline] else '''') (sh_fs s)
       (sh_fs (shared_do (Emitted item) s))"
proof -
  obtain r el f where ap: "append_event item (sh_log s) (sh_fs s) = (r, el, f)" by (metis prod_cases3)
  then have post: "shared_do (Emitted item) s = s\<lparr>sh_log := el, sh_fs := f\<rparr>" by (simp add: shared_do_def)
  note frame = spares_append_event [OF ap assms(2-4) assms(5)]
  from frame(1) [of "{EVENTS}"] assms(1) show "in_progress d K first written (shared_do (Emitted item) s)"
    by (auto simp: post intro: spares_in_progress)
  from frame(2) [of "{EVENTS}"] show "el_keep_runs (sh_log (shared_do (Emitted item) s)) = el_keep_runs (sh_log s)"
    by (simp add: post)
  show "history_grows d (if of_run d item then item_text item @ [newline] else '''') (sh_fs s)
      (sh_fs (shared_do (Emitted item) s))"
  proof (cases "of_run d item")
    case True
    obtain r1 u where run: "append_run (sh_log s) d (item_text item @ [newline]) (sh_fs s) = (r1, u)" by fastforce
    with ap True have "u = f" by (auto simp: append_event_def event_line_text split: sum.splits)
    with append_run_faultless [OF _ _ run] assms(1) True show ?thesis
      by (auto simp: post history_grows_def in_progress_def run_log_def)
  next
    case False
    have "same_plan (sh_fs s) f"
      using ap keepsD [OF plan_append_run] plan_append_global
      by (fastforce simp: append_event_def event_line_text split: option.splits prod.splits sum.splits)
    from history_unchanged [OF this frame(1) [of "{}"]] False assms(1) show ?thesis
      by (simp add: post in_progress_def)
  qed
qed

text \<open>The operations of the trace itself stay in the directory of the run.\<close>

lemma spares_flush:
  assumes "flush_handle d pending s = (r, rest, t)"
  shows "spares {LOG_NAME} d K s t"
proof -
  have tick: "spares {LOG_NAME} d K s (s\<lparr>fs_tick := k\<rparr>)" for k
    by (simp add: spares_def wf_fs_def is_run_dir_def run_dirs_def run_file_def run_files_def)
  have "spares {LOG_NAME} d K (s\<lparr>fs_tick := k\<rparr>) (add_run_text d LOG_NAME x (s\<lparr>fs_tick := k\<rparr>))" for k x
    by (simp add: add_run_text_def spares_put_run)
  with tick spares.trans have "spares {LOG_NAME} d K s (add_run_text d LOG_NAME x (s\<lparr>fs_tick := k\<rparr>))" for k x
    by blast
  with assms show ?thesis by (auto simp: flush_handle_def Let_def split: if_splits fault.splits)
qed

lemma harness_in_progress:
  assumes "in_progress d K first written s"
  shows "in_progress d K first (written @ line_text line) (shared_do (Harness line) s)"
    "history_grows d '''' (sh_fs s) (sh_fs (shared_do (Harness line) s))"
proof -
  obtain content pending where run: "run_file d LOG_NAME (sh_fs s) = Some content"
    "rt_handle (sh_trace s) = Some pending" "content @ pending = written" "rt_directory (sh_trace s) = d"
    "is_run_dir d (sh_fs s)"
    using assms by (auto simp: in_progress_def)
  obtain r rest t where fl: "flush_handle d (pending @ line_text line) (sh_fs s) = (r, rest, t)" by (metis prod_cases3)
  then have post: "shared_do (Harness line) s = s\<lparr>sh_trace := (sh_trace s)\<lparr>rt_handle := Some rest\<rparr>, sh_fs := t\<rparr>"
    using run by (simp add: shared_do_def trace_write_def line_text_def)
  note frame = spares_flush [OF fl, of K]
  with assms run flush_handle_result [OF fl run(5,1)]
  show "in_progress d K first (written @ line_text line) (shared_do (Harness line) s)"
    by (auto simp: post in_progress_def spares_def)
  have "same_plan (sh_fs s) t"
    using fl by (auto simp: flush_handle_def Let_def add_run_text_def same_plan_def put_run_file_def put_node_def
        wf_fs_def distinct_upsert split: if_splits fault.splits option.splits node.splits)
  from history_unchanged [OF this frame] assms show "history_grows d '''' (sh_fs s) (sh_fs (shared_do (Harness line) s))"
    by (simp add: post in_progress_def)
qed

lemma spares_put_files:
  assumes "is_run_dir d s" and "\<forall>n. n \<notin> N \<longrightarrow> map_of fl n = run_file d n s"
  shows "spares N d K s (put_node d (Dir m fl) s)"
proof -
  have wf: "wf_fs s \<Longrightarrow> wf_fs (put_node d (Dir m fl) s)" by (simp add: wf_fs_def put_node_def distinct_upsert)
  then have "wf_fs s \<Longrightarrow> set (run_dirs (put_node d (Dir m fl) s)) = set (run_dirs s)"
    using assms(1) by (auto simp: run_dirs_iff is_run_dir_def put_node_def split: if_splits option.splits node.splits)
  with wf assms show ?thesis by (simp add: spares_def is_run_dir_def run_file_def run_files_def put_node_def)
qed

lemma spares_write_manifest: "keeps (spares {MANIFEST_NAME, TMP_NAME} d K) (write_manifest d m)"
proof -
  let ?N = "{MANIFEST_NAME, TMP_NAME}"
  have "keeps (spares ?N d K) (replace_run_file d TMP_NAME MANIFEST_NAME)"
    unfolding replace_run_file_def
    by (rule spares.keeps_plain_call)
      (auto simp: keeps_def is_run_dir_def run_file_def run_files_def intro!: spares_put_files
        split: option.splits node.splits if_splits)
  then show ?thesis unfolding write_manifest_def by (intro spares.keeps_bind spares.keeps_lift spares_run_calls) auto
qed

lemma outcome_in_progress:
  assumes "in_progress d K first written s"
  shows "in_progress d K first written (shared_do (Outcome kvs now) s)"
    "history_grows d '''' (sh_fs s) (sh_fs (shared_do (Outcome kvs now) s))"
proof -
  define m where "m = upsert ''ended_at'' (PStr now) (dict_update kvs (rt_manifest (sh_trace s)))"
  obtain r t where wr: "write_manifest d m (sh_fs s) = (r, t)" by fastforce
  have d: "rt_directory (sh_trace s) = d" "is_run_dir d (sh_fs s)" using assms by (simp_all add: in_progress_def)
  have "run_file d MANIFEST_NAME t = run_file d MANIFEST_NAME (sh_fs s) \<or>
      (\<exists>body. manifest_text m = Inr body \<and> run_file d MANIFEST_NAME t = Some body)"
  proof (cases "manifest_text m")
    case (Inl e)
    with wr show ?thesis by (auto simp: write_manifest_def io_bind_def io_lift_def)
  next
    case (Inr body)
    from write_manifest_result [OF Inr d(2) wr] Inr show ?thesis by (auto split: if_splits)
  qed
  moreover have post: "shared_do (Outcome kvs now) s = s\<lparr>sh_trace := (sh_trace s)\<lparr>rt_manifest := m\<rparr>, sh_fs := t\<rparr>"
    using wr by (simp add: shared_do_def trace_finish_def Let_def m_def d(1))
  moreover note frame = keepsD [OF spares_write_manifest wr, of K]
  ultimately show "in_progress d K first written (shared_do (Outcome kvs now) s)"
    using assms by (auto simp: in_progress_def spares_def)
  from history_unchanged [OF keepsD [OF plan_write_manifest wr] frame] assms
  show "history_grows d '''' (sh_fs s) (sh_fs (shared_do (Outcome kvs now) s))"
    by (simp add: post in_progress_def)
qed

lemma shared_run_Cons: "shared_run (op # ops) s = shared_run ops (shared_do op s)"
  by (simp add: shared_run_def)

lemma shared_do_in_progress:
  assumes "in_progress d K first written s" and "is_run_id d" and "finite K"
    and "card K \<le> nat (max 1 (el_keep_runs (sh_log s)))"
    and "\<forall>rid \<in> emitted_runs [op]. is_run_id rid \<longrightarrow> rid \<in> K"
  shows "in_progress d K first (written @ concat (map line_text (harness_lines [op]))) (shared_do op s)"
    and "el_keep_runs (sh_log (shared_do op s)) = el_keep_runs (sh_log s)"
    and "history_grows d (history_text d [op]) (sh_fs s) (sh_fs (shared_do op s))"
proof (atomize (full), cases op)
  case (Emitted item)
  with event_in_progress [OF assms(1-4), of item] assms(5)
  show "in_progress d K first (written @ concat (map line_text (harness_lines [op]))) (shared_do op s) \<and>
      el_keep_runs (sh_log (shared_do op s)) = el_keep_runs (sh_log s) \<and>
      history_grows d (history_text d [op]) (sh_fs s) (sh_fs (shared_do op s))"
    by (auto simp: history_text_def emitted_runs_def)
next
  case (Harness line)
  then have "sh_log (shared_do op s) = sh_log s" by (simp add: shared_do_def split: prod.splits)
  with Harness harness_in_progress [OF assms(1), of line]
  show "in_progress d K first (written @ concat (map line_text (harness_lines [op]))) (shared_do op s) \<and>
      el_keep_runs (sh_log (shared_do op s)) = el_keep_runs (sh_log s) \<and>
      history_grows d (history_text d [op]) (sh_fs s) (sh_fs (shared_do op s))"
    by (simp add: history_text_def)
next
  case (Outcome kvs now)
  then have "sh_log (shared_do op s) = sh_log s" by (simp add: shared_do_def split: prod.splits)
  with Outcome outcome_in_progress [OF assms(1), of kvs now]
  show "in_progress d K first (written @ concat (map line_text (harness_lines [op]))) (shared_do op s) \<and>
      el_keep_runs (sh_log (shared_do op s)) = el_keep_runs (sh_log s) \<and>
      history_grows d (history_text d [op]) (sh_fs s) (sh_fs (shared_do op s))"
    by (simp add: history_text_def)
qed

lemma schedule_Cons:
  "harness_lines (op # ops) = harness_lines [op] @ harness_lines ops"
  "history_text d (op # ops) = history_text d [op] @ history_text d ops"
  "emitted_runs (op # ops) = emitted_runs [op] \<union> emitted_runs ops"
  by (cases op; auto simp: history_text_def emitted_runs_def)+

lemma shared_run_in_progress:
  assumes "in_progress d K first written s" and "is_run_id d" and "finite K"
    and "card K \<le> nat (max 1 (el_keep_runs (sh_log s)))"
    and "\<forall>rid \<in> emitted_runs ops. is_run_id rid \<longrightarrow> rid \<in> K"
  shows "in_progress d K first (written @ concat (map line_text (harness_lines ops))) (shared_run ops s) \<and>
    (faultless (sh_fs s) \<longrightarrow>
       run_log d (sh_fs (shared_run ops s)) = run_log d (sh_fs s) @ history_text d ops)"
  using assms
proof (induction ops arbitrary: written s)
  case Nil
  then show ?case by (simp add: shared_run_def history_text_def)
next
  case (Cons op ops)
  have later: "\<forall>rid \<in> emitted_runs ops. is_run_id rid \<longrightarrow> rid \<in> K" "\<forall>rid \<in> emitted_runs [op]. is_run_id rid \<longrightarrow> rid \<in> K"
    using Cons.prems(5) by (simp_all add: schedule_Cons(3) [of op ops])
  note step = shared_do_in_progress [OF Cons.prems(1-4) later(2)]
  from Cons.IH [OF step(1) Cons.prems(2,3) _ later(1)] step(2,3) Cons.prems(4) show ?case
    by (simp add: shared_run_Cons schedule_Cons(1) [of op ops] schedule_Cons(2) [of _ op ops] history_grows_def)
qed

text \<open>A trace that was opened is a run in progress.\<close>

lemma mkdir_run_result:
  assumes "mkdir_run d s = (Inr u, t)"
  shows "is_run_dir d t \<and> (wf_fs s \<longrightarrow> wf_fs t \<and> set (run_dirs t) \<subseteq> insert d (set (run_dirs s))) \<and>
    (\<forall>n. run_file d n t = run_file d n s)"
proof (cases "map_of (fs_nodes s) d")
  case None
  obtain m k where t: "t = put_node d (Dir m []) (s\<lparr>fs_tick := k, fs_root := True\<rparr>)"
    using assms None by (auto simp: mkdir_run_def syscall_def Let_def split: fault.splits)
  have wf: "wf_fs s \<Longrightarrow> wf_fs t" by (simp add: t wf_fs_def put_node_def distinct_upsert)
  then have "wf_fs s \<Longrightarrow> set (run_dirs t) \<subseteq> insert d (set (run_dirs s))"
    by (auto simp: run_dirs_iff) (auto simp: t is_run_dir_def put_node_def split: if_splits)
  with wf None show ?thesis by (simp add: t is_run_dir_def run_file_def run_files_def put_node_def)
next
  case (Some nd)
  with assms obtain k where "t = s\<lparr>fs_tick := k\<rparr>" "is_run_dir d s"
    by (auto simp: mkdir_run_def syscall_def Let_def is_run_dir_def split: fault.splits node.splits)
  then show ?thesis by (auto simp: wf_fs_def run_dirs_def)
qed

lemma open_log_result:
  "open_run_file False d n s = (Inr u, t) \<Longrightarrow> is_run_dir d t \<and>
   run_file d n t = Some (case run_file d n s of Some c \<Rightarrow> c | None \<Rightarrow> '''')"
  by (auto simp: open_run_file_def syscall_def Let_def split: fault.splits if_splits)

definition old_log :: "string \<Rightarrow> fs \<Rightarrow> string" where
  "old_log d s = (case run_file d LOG_NAME s of Some c \<Rightarrow> c | None \<Rightarrow> '''')"

lemma opened_in_progress:
  assumes "open_run_trace homes now trace_root keep info ws f = (Inr (Some tr), f1)"
    and "wf_fs f" and "set (run_dirs f) \<subseteq> K" and "pi_id info \<in> K" and "finite K" and "card K \<le> nat (max 1 keep)"
  shows "\<exists>m body. manifest_text m = Inr body \<and>
    in_progress (pi_id info) K (Some body) (old_log (pi_id info) f) \<lparr>sh_log = el, sh_trace = tr, sh_fs = f1\<rparr>"
proof -
  let ?d = "pi_id info" and ?N = "{MANIFEST_NAME, TMP_NAME}"
  define m where "m = dict_update (identity_fields info ws) [(''started_at'', PStr now)]"
  obtain u0 t where mk: "mkdir_run ?d f = (Inr u0, t)"
    and op: "trace_open (identity_fields info ws) now (RunTrace ?d keep) t = (Inr (), tr, f1)"
    using assms(1) by (auto simp: open_run_trace_def split: prod.splits sum.splits if_splits)
  obtain u1 a b v where log: "open_run_file False ?d LOG_NAME t = (Inr u1, a)"
    and wr: "write_manifest ?d m a = (Inr (), b)" and pr: "prune_runs (max 1 keep) (Some ?d) b = (Inr (), f1)"
    and tr: "rt_handle tr = Some ''''" "rt_directory tr = ?d"
    using op trace_open_handle [OF op] unfolding trace_open_def m_def
    by (auto simp: io_bind_def RunTrace_def Let_def split: prod.splits sum.splits if_splits)
  obtain body where body: "manifest_text m = Inr body"
    using wr by (cases "manifest_text m") (auto simp: write_manifest_def io_bind_def io_lift_def)
  note t = mkdir_run_result [OF mk] and a = open_log_result [OF log]
  have sa: "spares {LOG_NAME} ?d K t a" and sb: "spares ?N ?d K a b"
    using keepsD [OF spares_run_calls(1) log] keepsD [OF spares_write_manifest wr] by auto
  have t_ok: "wf_fs t" "set (run_dirs t) \<subseteq> K" "is_run_dir ?d t" using t assms(2-4) by auto
  with sa have a_ok: "wf_fs a" "set (run_dirs a) \<subseteq> K" "is_run_dir ?d a" by (simp_all add: spares_def)
  with sb have b_ok: "wf_fs b" "set (run_dirs b) \<subseteq> K" "is_run_dir ?d b" by (simp_all add: spares_def)
  have "fs_nodes f1 = fs_nodes b" using assms(6) by (intro prune_within [OF pr b_ok(1,2) assms(5)]) simp
  then have same: "wf_fs f1 = wf_fs b" "is_run_dir e f1 = is_run_dir e b" "run_dirs f1 = run_dirs b"
    "run_file e n f1 = run_file e n b" for e n
    by (simp_all add: wf_fs_def is_run_dir_def run_dirs_def run_file_def run_files_def)
  have "run_file ?d LOG_NAME b = Some (old_log ?d f)"
    using sb a_ok a t by (simp add: spares_def old_log_def)
  moreover have "run_file ?d MANIFEST_NAME b = Some body"
    using write_manifest_result [OF body a_ok(3) wr] by simp
  ultimately show ?thesis
    using body b_ok tr by (intro exI [of _ m] exI [of _ body]) (simp add: in_progress_def same)
qed

text \<open>
  C20: the directory of a run in progress is shared but safe while the retention suffices.  However
  the events of all parts of the service, the lines of the harness and the outcome interleave, and
  whichever calls fail, as long as the runs that exist or emit events are at most \<open>keep_runs\<close>: the
  directory of a run whose trace was opened stays, its harness log (with what is still buffered) is
  extended by exactly the lines written, in their order, and its manifest is a complete one.  If no
  call fails, its history is extended by exactly the events of the run, redacted, in their order.
\<close>

theorem shared_run_keeps_the_run:
  assumes "open_run_trace homes now trace_root keep info ws f = (Inr (Some tr), f1)"
    and "wf_fs f" and "is_run_id (pi_id info)" and "finite K" and "card K \<le> nat (max 1 keep)"
    and "set (run_dirs f) \<subseteq> K" and "pi_id info \<in> K" and "el_keep_runs el = keep"
    and "\<forall>rid \<in> emitted_runs ops. is_run_id rid \<longrightarrow> rid \<in> K"
    and "shared_run ops \<lparr>sh_log = el, sh_trace = tr, sh_fs = f1\<rparr> = s"
  shows "is_run_dir (pi_id info) (sh_fs s) \<and>
    (\<exists>content pending. run_file (pi_id info) LOG_NAME (sh_fs s) = Some content \<and>
       rt_handle (sh_trace s) = Some pending \<and>
       content @ pending = old_log (pi_id info) f @ concat (map line_text (harness_lines ops))) \<and>
    (\<exists>m body. manifest_text m = Inr body \<and> run_file (pi_id info) MANIFEST_NAME (sh_fs s) = Some body) \<and>
    (faultless f1 \<longrightarrow>
       run_log (pi_id info) (sh_fs s) = run_log (pi_id info) f1 @ history_text (pi_id info) ops)"
proof -
  obtain m body where body: "manifest_text m = Inr body"
    "in_progress (pi_id info) K (Some body) (old_log (pi_id info) f) \<lparr>sh_log = el, sh_trace = tr, sh_fs = f1\<rparr>"
    using opened_in_progress [OF assms(1,2,6,7,4,5)] by blast
  from shared_run_in_progress [OF body(2) assms(3,4) _ assms(9)] assms(5,8,10) body(1) show ?thesis
    by (auto simp: in_progress_def)
qed

section \<open>When it does not\<close>

lemma append_run_fresh:
  assumes "faultless s" and "map_of (fs_nodes s) rid = None" and "wf_fs s"
  shows "\<exists>u k. append_run el rid line s = prune_runs (el_keep_runs el) (Some rid) u \<and>
    faultless u \<and> fs_root u \<and> wf_fs u \<and> is_run_dir rid u \<and> fs_tick s \<le> k \<and> mtime u rid = fs_clock s k \<and>
    (\<forall>n. n \<noteq> rid \<longrightarrow> map_of (fs_nodes u) n = map_of (fs_nodes s) n)"
proof -
  let ?k = "fs_tick s"
  define s2 where "s2 = put_node rid (Dir (fs_clock s (Suc (Suc ?k))) []) (s\<lparr>fs_tick := Suc (Suc ?k), fs_root := True\<rparr>)"
  define s3 where "s3 = (put_run_file rid EVENTS '''' (s2\<lparr>fs_tick := Suc (fs_tick s2)\<rparr>))\<lparr>fs_tick := Suc (Suc (fs_tick s2))\<rparr>"
  define u where "u = add_run_text rid EVENTS line s3"
  have "append_run el rid line s = prune_runs (el_keep_runs el) (Some rid) u"
    using assms(1,2)
    by (simp add: append_run_def io_bind_def path_exists_def mkdir_run_def open_run_file_def
        write_run_file_def faultless_syscall u_def s3_def s2_def is_run_dir_def run_file_def run_files_def
        put_node_def put_run_file_def faultless_def)
  moreover have "faultless u \<and> fs_root u \<and> wf_fs u \<and> is_run_dir rid u \<and>
      mtime u rid = fs_clock s (Suc (Suc (Suc ?k))) \<and> (\<forall>n. n \<noteq> rid \<longrightarrow> map_of (fs_nodes u) n = map_of (fs_nodes s) n)"
    using assms
    by (simp add: u_def s3_def s2_def add_run_text_def put_run_file_def put_node_def faultless_def wf_fs_def
        is_run_dir_def mtime_def run_file_def run_files_def distinct_upsert)
  ultimately show ?thesis by (intro exI [of _ u] exI [of _ "Suc (Suc (Suc ?k))"]) simp
qed

lemma oldest_is_stale:
  assumes "d \<in> set (run_dirs s)" and "\<forall>e \<in> set (run_dirs s). e \<noteq> d \<longrightarrow> mtime s d < mtime s e"
    and "nat (max 1 k) < length (run_dirs s)"
  shows "d \<in> set (stale_runs k s)"
proof -
  let ?a = "by_age s (run_dirs s)"
  obtain e es where a: "?a = e # es" using assms(1) by (cases ?a) (auto dest: arg_cong [of _ _ set])
  have "d \<in> set ?a" "e \<in> set (run_dirs s)" using assms(1) a by (auto dest: arg_cong [of _ _ set])
  then have "mtime s e \<le> mtime s d" using by_age_sorted [of s "run_dirs s"] a by auto
  with assms(2) \<open>e \<in> set (run_dirs s)\<close> have "e = d" by fastforce
  moreover have "0 < length (run_dirs s) - nat (max 1 k)" using assms(3) by simp
  ultimately show ?thesis using a by (cases "length (run_dirs s) - nat (max 1 k)") (auto simp: stale_runs_def)
qed

lemma run_id_segment: "is_run_id rid \<Longrightarrow> RUN_SEGMENT rid \<and> rid \<notin> {''.'', ''..''}"
proof -
  assume rid: "is_run_id rid"
  then obtain c cs where cs: "rid = c # cs" by (cases rid) (auto simp: is_run_id_def)
  have "alnum [x] \<and> segment_char x" if "hex_digit x" for x
    using that by (auto simp: hex_digit_def segment_char_def alnum_def in_ranges_def code_def)
  with rid cs show ?thesis by (auto simp: RUN_SEGMENT_def is_run_id_def list_all_iff)
qed

text \<open>The event of a delivery that starts to wait belongs to the run of that delivery.\<close>

lemma queued_run_id:
  assumes "is_run_id (pi_id info)" and "ev_data e = queued_data info"
  shows "run_id_of (event_data (event_item fr e)) = Some (pi_id info)"
proof -
  have "pi_id info \<noteq> ''''" using assms(1) by (auto simp: is_run_id_def)
  with run_id_segment [OF assms(1)] assms(2) show ?thesis
    by (simp add: run_id_of_def event_data_def event_item_def queued_data_def dict_get_def py_or_def)
qed

lemma harness_gone:
  assumes "map_of (fs_nodes (sh_fs s)) d = None" and "rt_directory (sh_trace s) = d"
  shows "map_of (fs_nodes (sh_fs (shared_run (map Harness lines) s))) d = None"
  using assms
proof (induction lines arbitrary: s)
  case Nil
  then show ?case by (simp add: shared_run_def)
next
  case (Cons line lines)
  have "add_run_text d LOG_NAME x t = t" if "map_of (fs_nodes t) d = None" for x t
    using that by (simp add: add_run_text_def put_run_file_def)
  with Cons.prems have "map_of (fs_nodes (sh_fs (shared_do (Harness line) s))) d = None"
    "rt_directory (sh_trace (shared_do (Harness line) s)) = d"
    by (auto simp: shared_do_def trace_write_def flush_handle_def Let_def split: option.splits fault.splits)
  from Cons.IH [OF this] show ?case by (simp add: shared_run_Cons)
qed

text \<open>
  C21: what is missing from the retention.  Pruning protects the run whose directory is created, not
  the run in progress; and a delivery that starts to wait creates one, since its \<open>prompt_queued\<close> event
  carries the run id.  If \<open>keep_runs\<close> directories exist and that of the run in progress is the
  oldest, this event deletes it, history, manifest and harness log, although nothing failed; what
  the harness writes afterwards is lost.
\<close>

theorem queued_delivery_removes_the_run:
  assumes "in_progress d K first written s" and "is_run_id d"
    and "faultless (sh_fs s)" and "fs_root (sh_fs s)"
    and "nat (max 1 (el_keep_runs (sh_log s))) \<le> length (run_dirs (sh_fs s))"
    and "\<forall>e \<in> set (run_dirs (sh_fs s)). e \<noteq> d \<longrightarrow> mtime (sh_fs s) d < mtime (sh_fs s) e"
    and "\<forall>k \<ge> fs_tick (sh_fs s). mtime (sh_fs s) d < fs_clock (sh_fs s) k"
    and "ev_data e = queued_data info" and "is_run_id (pi_id info)"
    and "map_of (fs_nodes (sh_fs s)) (pi_id info) = None"
  shows "map_of (fs_nodes (sh_fs (shared_run (Emitted (event_item fr e) # map Harness lines) s))) d = None"
proof -
  let ?f = "sh_fs s" and ?rid = "pi_id info"
  have run: "wf_fs ?f" "is_run_dir d ?f" "rt_directory (sh_trace s) = d" using assms(1) by (simp_all add: in_progress_def)
  then have d: "d \<noteq> ?rid" using assms(10) by (auto simp: is_run_dir_def)
  obtain line where line: "event_line (event_item fr e) = Inr (line @ [newline])" using event_line_ok by blast
  obtain u k where u: "append_run (sh_log s) ?rid (line @ [newline]) ?f = prune_runs (el_keep_runs (sh_log s)) (Some ?rid) u"
    "faultless u" "fs_root u" "wf_fs u" "is_run_dir ?rid u" "fs_tick ?f \<le> k" "mtime u ?rid = fs_clock ?f k"
    and others: "\<forall>n. n \<noteq> ?rid \<longrightarrow> map_of (fs_nodes u) n = map_of (fs_nodes ?f) n"
    using append_run_fresh [OF assms(3,10) run(1)] by blast
  have old: "is_run_dir n u = is_run_dir n ?f" "mtime u n = mtime ?f n" if "n \<noteq> ?rid" for n
    using others that by (simp_all add: is_run_dir_def mtime_def)
  have "n \<in> set (run_dirs u) \<longleftrightarrow> n = ?rid \<or> n \<in> set (run_dirs ?f)" for n
    using u(4,5) run(1) assms(9) by (cases "n = ?rid") (simp_all add: run_dirs_iff old(1))
  then have "set (run_dirs u) = insert ?rid (set (run_dirs ?f))" by blast
  moreover have "?rid \<notin> set (run_dirs ?f)" using assms(10) run(1) by (simp add: run_dirs_iff is_run_dir_def)
  ultimately have dirs: "set (run_dirs u) = insert ?rid (set (run_dirs ?f))" "?rid \<notin> set (run_dirs ?f)" .
  have "length (run_dirs u) = Suc (length (run_dirs ?f))"
    using dirs distinct_card [OF distinct_run_dirs [OF u(4)]] distinct_card [OF distinct_run_dirs [OF run(1)]] by simp
  moreover have "mtime u d < mtime u x" if "x \<in> set (run_dirs u)" "x \<noteq> d" for x
    using that dirs(1) d old(2) assms(6,7) u(6,7) by (cases "x = ?rid") auto
  moreover have "d \<in> set (run_dirs u)" using dirs run(1,2) assms(2) by (simp add: run_dirs_iff)
  ultimately have "d \<in> set (stale_runs (el_keep_runs (sh_log s)) u)" "\<not> length (run_dirs u) \<le> nat (max 1 (el_keep_runs (sh_log s)))"
    using assms(5) by (auto intro: oldest_is_stale)
  with prune_runs_faultless [OF u(2,4,3), of "el_keep_runs (sh_log s)" "Some ?rid"] d
  have "fst (prune_runs (el_keep_runs (sh_log s)) (Some ?rid) u) = Inr ()"
    "map_of (fs_nodes (snd (prune_runs (el_keep_runs (sh_log s)) (Some ?rid) u))) d = None"
    by (auto simp: map_of_eq_None_iff)
  then obtain t where t: "append_run (sh_log s) ?rid (line @ [newline]) ?f = (Inr (), t)" "map_of (fs_nodes t) d = None"
    using u(1) by (metis prod.collapse)
  then have "map_of (fs_nodes (sh_fs (shared_do (Emitted (event_item fr e)) s))) d = None"
    "rt_directory (sh_trace (shared_do (Emitted (event_item fr e)) s)) = d"
    using queued_run_id [OF assms(9,8)] line run(3) by (simp_all add: shared_do_def append_event_def)
  from harness_gone [OF this] show ?thesis by (simp add: shared_run_Cons)
qed

section \<open>Opening without faults\<close>

lemma faultless_open: "faultless s \<Longrightarrow> is_run_dir d s \<Longrightarrow> \<exists>t. open_run_file b d n s = (Inr (), t) \<and> fs_root t = fs_root s"
  by (auto simp: open_run_file_def faultless_syscall put_run_file_def put_node_def is_run_dir_def split: option.splits node.splits)

lemma write_manifest_faultless:
  assumes "faultless s" and "is_run_dir d s" and "manifest_text m = Inr body"
  shows "\<exists>t. write_manifest d m s = (Inr (), t) \<and> fs_root t = fs_root s"
proof -
  have f: "faultless u \<Longrightarrow> same_plan u v \<Longrightarrow> faultless v" for u v by (rule faultless_plan)
  obtain a where a: "open_run_file True d TMP_NAME s = (Inr (), a)" "fs_root a = fs_root s"
    using faultless_open [OF assms(1,2)] by blast
  note a = a f [OF assms(1) keepsD [OF plan_run_file(1) a(1)]] open_fresh_result [OF a(1) assms(2)]
  obtain b where b: "write_run_file d TMP_NAME body a = (Inr (), b)" "fs_root b = fs_root a"
    using a(3) by (auto simp: write_run_file_def faultless_syscall add_run_text_def put_run_file_def put_node_def
        split: option.splits node.splits)
  note b = b f [OF a(3) keepsD [OF plan_run_file(2) b(1)]] write_run_result [OF b(1)]
  have "is_run_dir d b" "run_file d TMP_NAME b = Some body" using a(4) b(4) by auto
  then have "\<exists>c. replace_run_file d TMP_NAME MANIFEST_NAME b = (Inr (), c) \<and> fs_root c = fs_root b"
    using b(3) by (auto simp: replace_run_file_def faultless_syscall is_run_dir_def run_file_def run_files_def put_node_def
        split: option.splits node.splits)
  with a b assms(3) show ?thesis by (auto simp: write_manifest_def io_bind_def io_lift_def)
qed

text \<open>If nothing fails, the trace of a run opens.\<close>

lemma open_run_trace_faultless:
  assumes "faultless f" and "wf_fs f" and "fs_root f" and "resolve_trace_root homes trace_root = Inr path"
    and "map_of (fs_nodes f) (pi_id info) = None \<or> is_run_dir (pi_id info) f"
  shows "\<exists>tr f1. open_run_trace homes now trace_root keep info ws f = (Inr (Some tr), f1) \<and> faultless f1"
proof -
  let ?d = "pi_id info"
  define m where "m = dict_update (identity_fields info ws) [(''started_at'', PStr now)]"
  obtain t where t: "mkdir_run ?d f = (Inr (), t)" "fs_root t" "faultless t"
    using assms(1,3,5) by (auto simp: mkdir_run_def faultless_syscall is_run_dir_def put_node_def faultless_def split: option.splits node.splits)
  note t = t mkdir_run_result [OF t(1)]
  obtain a where a: "open_run_file False ?d LOG_NAME t = (Inr (), a)" "fs_root a"
    using faultless_open [OF t(3)] t(2,4) by metis
  have a_ok: "faultless a" "is_run_dir ?d a" "wf_fs a"
    using keepsD [OF plan_run_file(1) a(1)] t(3,4) assms(2) open_log_result [OF a(1)] faultless_plan
    by (auto simp: same_plan_def)
  obtain body where "manifest_text m = Inr body"
    using manifest_text_ok [of m] plain_dict_update [of "identity_fields info ws" "[(''started_at'', PStr now)]"]
    by (auto simp: m_def identity_fields_def)
  then obtain b where b: "write_manifest ?d m a = (Inr (), b)" "fs_root b" using write_manifest_faultless a_ok a(2) by metis
  have b_ok: "faultless b" "wf_fs b" using keepsD [OF plan_write_manifest b(1)] a_ok faultless_plan by (auto simp: same_plan_def)
  obtain r u where pr: "prune_runs (max 1 keep) (Some ?d) b = (r, u)" by fastforce
  with prune_runs_faultless [OF b_ok b(2), of "max 1 keep" "Some ?d"] have "r = Inr ()" by auto
  moreover have "faultless u" by (rule faultless_plan [OF keepsD [OF plan_prune_runs pr] b_ok(1)])
  ultimately show ?thesis
    using t(1) a(1) b(1) pr assms(4)
    by (auto simp: open_run_trace_def trace_open_def RunTrace_def io_bind_def Let_def m_def)
qed

section \<open>Instances\<close>

definition sample_shared :: "int \<Rightarrow> fs \<Rightarrow> shared" where
  "sample_shared keep f =
     \<lparr>sh_log = EventLog keep 1, sh_trace = (RunTrace RUN_A keep)\<lparr>rt_handle := Some ''''\<rparr>, sh_fs = f\<rparr>"

definition waiting_root :: fs where
  "waiting_root =
     \<lparr>fs_root = True, fs_nodes = [(RUN_A, Dir 0 [(LOG_NAME, ''x'')]), (RUN_B, Dir 1 [])],
      fs_clock = of_nat, fs_faults = (\<lambda>_. Fine), fs_tick = 2\<rparr>"

definition sample_run :: "prompt_info" where
  "sample_run = PromptInfo RUN_A 0 ''d'' ''o/r'' ''issues'' ''labeled'' ''x'' PNone"

theorem shared_run_keeps_the_run_witness:
  "\<exists>tr f1. open_run_trace (\<lambda>_. None) ''t0'' '''' 2 sample_run ''/w'' (two_runs (\<lambda>n. Fine)) = (Inr (Some tr), f1) \<and>
     (let s = shared_run [Emitted (sample_item RUN_B), Harness ''y'', Emitted (sample_item RUN_A), Outcome [] ''t1'']
        \<lparr>sh_log = EventLog 2 1, sh_trace = tr, sh_fs = f1\<rparr> in
      (\<exists>content pending. run_file RUN_A LOG_NAME (sh_fs s) = Some content \<and>
         rt_handle (sh_trace s) = Some pending \<and> content @ pending = ''x'' @ line_text ''y'') \<and>
      run_log RUN_A (sh_fs s) = run_log RUN_A f1 @ item_text (sample_item RUN_A) @ [newline])"
proof -
  let ?ops = "[Emitted (sample_item RUN_B), Harness ''y'', Emitted (sample_item RUN_A), Outcome [] ''t1'']"
  let ?f = "two_runs (\<lambda>n. Fine)"
  have id: "pi_id sample_run = RUN_A" by (simp add: sample_run_def PromptInfo_def)
  have f: "faultless ?f" "wf_fs ?f" "fs_root ?f" "is_run_dir RUN_A ?f" "run_dirs ?f = [RUN_A, RUN_B]"
    using two_runs_facts [of "\<lambda>n. Fine"] by (simp_all add: faultless_def) (simp_all add: two_runs_def)
  have root: "resolve_trace_root (\<lambda>_. None) '''' = Inr ''logs/runs''" by (simp add: resolve_trace_root_def)
  obtain tr f1 where op: "open_run_trace (\<lambda>_. None) ''t0'' '''' 2 sample_run ''/w'' ?f = (Inr (Some tr), f1)" "faultless f1"
    using open_run_trace_faultless [OF f(1-3) root, of sample_run] f(4) id by metis
  have ids: "of_run RUN_A (sample_item RUN_A)" "of_run RUN_B (sample_item RUN_B)" by code_simp+
  then have "emitted_runs ?ops = {RUN_A, RUN_B}" by (auto simp: emitted_runs_def)
  moreover have "old_log RUN_A ?f = ''x''" using two_runs_facts(4) by (simp add: old_log_def)
  ultimately show ?thesis
    using shared_run_keeps_the_run [OF op(1) f(2), of "{RUN_A, RUN_B}" "EventLog 2 1" ?ops] f(5) op ids
    by (intro exI [of _ tr] exI [of _ f1]) (simp add: id EventLog_def history_text_def Let_def)
qed

theorem queued_delivery_removes_the_run_witness:
  "map_of (fs_nodes (sh_fs (shared_run
     (Emitted (event_item (\<lambda>_. ''0.0'') \<lparr>ev_id = ''1'', ev_type = ''prompt_queued'', ev_ts = 0,
        ev_data = queued_data (PromptInfo (replicate 32 CHR ''c'') 0 ''d'' ''o/r'' ''issues'' ''labeled'' ''x'' PNone)\<rparr>) #
      map Harness [''y'']) (sample_shared 2 waiting_root)))) RUN_A = None"
proof -
  have dirs: "run_dirs waiting_root = [RUN_A, RUN_B]" by (simp add: waiting_root_def run_dirs_def run_entries_def)
  have "in_progress RUN_A {RUN_A, RUN_B} None ''x'' (sample_shared 2 waiting_root)"
    using dirs by (simp add: in_progress_def sample_shared_def RunTrace_def)
      (simp add: waiting_root_def wf_fs_def is_run_dir_def run_file_def run_files_def)
  moreover have "replicate 32 CHR ''c'' \<noteq> RUN_A" "replicate 32 CHR ''c'' \<noteq> RUN_B" "is_run_id (replicate 32 CHR ''c'')"
    by code_simp+
  ultimately show ?thesis
    using dirs by (intro queued_delivery_removes_the_run)
      (auto simp: sample_shared_def EventLog_def faultless_def mtime_def PromptInfo_def waiting_root_def)
qed

end
