(* ===== verification/Spec2Isabelle.thy ===== *)
theory Spec2Isabelle
  imports Entry_Points Acp_Spike Shared_Root
begin

text \<open>
  A model of the webhook receiver of the swarm orchestration service
  (\<open>src/src/webhook_receiver/\<close>): the program that accepts signed GitHub webhooks, decides which
  of them start an agent session, queues these, runs one session after the other, and shows what
  happens on an event stream and in files that survive a restart.

  \<^bold>\<open>The program and its theories.\<close>  A delivery enters at \<open>POST /webhooks/github\<close> (\<open>app.py\<close>).  Its
  signature is checked (\<open>github.py\<close>), the gate decides whether it may start a session
  (\<open>filters.py\<close>), a prompt is built (\<open>prompt_builder.py\<close>), and an envelope is put into the queue
  (\<open>prompt_queue.py\<close>), whose consumer hands it to the host (\<open>acp_host.py\<close>).  The host prepares a
  workspace, possibly from a sandbox (\<open>sandbox_bridge.py\<close>), opens a trace (\<open>trace_log.py\<close>), drives
  the agent over its protocol and answers its permission requests (\<open>acp_policy.py\<close>).  Every part
  emits events into the event store (\<open>event_store.py\<close>), which serves subscribers and appends to
  the durable log (\<open>event_log.py\<close>).  The settings are read from the environment (\<open>config.py\<close>).

  \<^item> \<open>Prelude\<close>, \<open>Py_Str\<close>, \<open>Py_Val\<close>, \<open>Json_Text\<close>: exceptions and results, bounded deques, Python
    strings (UTF-8 bytes, with \<open>py_chars\<close> for characters), values, \<open>str\<close> and \<open>json.dumps\<close>.
  \<^item> \<open>Json_Loads\<close>, \<open>Json_Roundtrip\<close>: \<open>json.loads\<close> on text, UTF-8 and request bytes, what it can
    raise, and that it reads back what \<open>json.dumps\<close> writes.
  \<^item> \<open>Sha256\<close>, \<open>Signature\<close>: \<open>github.py\<close>, with SHA-256 and HMAC over bytes.
  \<^item> \<open>Filters\<close>: \<open>filters.py\<close>.  \<open>Prompt_Builder\<close>: \<open>prompt_builder.py\<close>.  \<open>Config\<close>: \<open>config.py\<close>.
    \<open>Acp_Policy\<close>: \<open>acp_policy.py\<close>.
  \<^item> \<open>Event_Store\<close>: the methods of \<open>EventStore\<close> and \<open>Subscriber\<close>, run to completion;
    \<open>Event_Bus\<close>: the same store under concurrent emitters and subscribers, as a step relation over
    the atomic steps between the lock operations, which \<open>emit\<close> refines; \<open>Event_Table\<close>: the
    documented event types and their fields (header of \<open>app.py\<close>).
  \<^item> \<open>Prompt_Queue\<close>: envelope, deduplicating queue and consumer; \<open>Queue_Lifecycle\<close>: the queue in
    the running service, as a step relation of arrivals, consumption and shutdown.
  \<^item> \<open>Webhook_App\<close>: the webhook route and the frames of the event stream.
  \<^item> \<open>Redaction\<close>: the credential patterns of \<open>trace_log.py\<close> and their substitution.
  \<^item> \<open>File_System\<close>: the files below the trace root with system calls that may fail;
    \<open>Trace_Log\<close>: retention, manifest and harness log; \<open>Event_Log\<close>: the durable log and its readers;
    \<open>Shared_Root\<close>: both writers, interleaved on one file system.
  \<^item> \<open>Sandbox_Bridge\<close>: provisioning and release of a sandbox.
  \<^item> \<open>Acp_Client\<close>: the parts of \<open>acp_host.py\<close> around a session (the race of prompt and watchdog,
    updates, permissions, the watchdog, the workspace); \<open>Acp_Session\<close>: \<open>AcpHost.run\<close>.
  \<^item> \<open>Service\<close>: \<open>create_app\<close> and the read-only routes, and the composition of the event store with
    the durable log.
  \<^item> \<open>Live_Service\<close>: the \<open>lifespan\<close> of \<open>create_app\<close> as a step relation in which requests, the
    consumer's task, the events of its session and shutdown interleave; it refines
    \<open>Queue_Lifecycle\<close>.
  \<^item> \<open>Entry_Points\<close>: \<open>__main__.py\<close>, \<open>acp_smoke.py\<close> and \<open>sandbox_probe.py\<close>; \<open>Acp_Spike\<close>:
    \<open>spikes/acp/host_spike.py\<close>.

  Definitions have the names of the Python functions, without leading underscores; a class is a
  record with an \<open>inv\<close> or \<open>state\<close> predicate where it has one, its constructor a definition with
  the name of the class, and its methods are functions of the record.

  \<^bold>\<open>Errors, effects and time.\<close>  A call that may raise has a result \<open>pyexc + 'a\<close>; an \<open>except\<close> clause
  is a test of the exception's class, with \<open>CancelledError\<close> outside \<open>Exception\<close> and \<open>TimeoutError\<close>
  inside \<open>OSError\<close>.  Effects are explicit state: the store, the queue, the file system, the list
  of calls to the sandbox API.  Clocks, random ids and answers of the outside world are arguments.
  Failures of the file system follow an arbitrary plan (\<open>fs_faults\<close>): the plan says which call
  fails and how much of an interrupted write is done, so a theorem for every plan covers every
  combination of failures, and a plan that fails from some call on is a crash.  A session
  is driven by an arbitrary list of happenings, so its theorems hold for every interleaving of
  updates, requests, log lines, answers and shutdown.

  \<^bold>\<open>What the lemmas show.\<close>
  \<^item> \<^emph>\<open>Admission\<close>: nothing is queued but signed deliveries that passed the gate; an unsigned body has
    no effect; the gate is characterised branch by branch; under a label without surrounding
    whitespace an issue body becomes a prompt only for an allowlisted sender, and under a padded one
    gate and builder disagree.
  \<^item> \<^emph>\<open>Queueing\<close>: no delivery id is accepted twice within the window under any interleaving,
    and a redelivery within it changes nothing in the queue of the running service; envelopes are neither lost nor duplicated nor reordered; every one ends in one event, and every
    such event has its trail: the signed request it stems from, acceptance, queueing and session.
  \<^item> \<^emph>\<open>Events\<close>: ids are unique, also across restarts with another token; a queue that was never full
    gets every event once, and in order when emits do not overlap; frames are well formed; every event
    but the placeholder's success has a documented type with exactly its fields; and the durable log
    returns, without faults, what was emitted, redacted, once and in order, as far as rotation and
    retention keep it; only a line nested too deeply breaks a read.
  \<^item> \<^emph>\<open>Sessions\<close>: the watchdog ends silent runs in time and only for a reason; an outcome is recorded
    once; process, drainer, log handle and sandbox are gone after a session, unless the log of its
    trace cannot be written or a shutdown arrives inside the \<open>finally\<close> block, while it waits for the
    cancelled drainer or the killed process.
  \<^item> \<^emph>\<open>Files\<close>: retention never touches what is not an old run directory; manifests are replaced
    atomically; log lines are not lost; nothing of this raises where the code promises so.  Events and
    harness lines of a run share its directory, which stays complete under every interleaving and
    every fault as long as the retention suffices, and which a waiting delivery can delete when not.
  \<^item> \<^emph>\<open>Sandboxes\<close>: waiting ends; a failed preparation deletes what it created, with the exceptions
    the statements name.
  \<^item> \<^emph>\<open>Programs\<close>: what starting the service, the smoke driver, the probe and the spike return, and
    what they leave behind.

  Interfaces are locales, interpreted on the model: \<open>bounded_log\<close> (deques, the event store),
  \<open>dedup_window\<close> (the queue), \<open>scrubbing_pass\<close> and \<open>pattern_pass\<close> (redaction), \<open>frame\<close> (what a
  sequence of system calls keeps), \<open>session_host\<close> (what the consumer runs: the placeholder and
  the ACP host).

  \<^bold>\<open>Loops.\<close>  Loops over data are structural recursion or have a measure.  The two loops that wait for the
  outside, \<open>poll_workspace\<close> and \<open>idle_watchdog\<close>, are partial functions into \<open>option\<close>, where \<open>None\<close>
  is a loop that does not end: that they end, and when, is proved, and also that an infinite or
  NaN timeout keeps them running.  The consumer has a bound on the number of envelopes, which is
  the length of the queue where it is used.

  \<^bold>\<open>Parameters.\<close>  Code that is not in the repository is an argument: the regular-expression engine for
  patterns of the operator, the validation of fields by the settings library, \<open>repr(float(s))\<close> of
  a numeral and the recursion limit that \<open>json.loads\<close> meets, \<open>repr\<close> of a float, the user
  database, the sandbox API, \<open>docker\<close>, \<open>git\<close> and the protocol library.  Numerals are
  modelled on ASCII text, floats as exact rationals with infinities and NaN.

  \<^bold>\<open>Not modelled.\<close>  Logging; the HTTP framework, the static page and the constant health reply; the
  reading of command lines by \<open>argparse\<close>.  A call to \<open>docker\<close> always returns, with an answer or an
  exception, and the recursion limit is met by \<open>json.loads\<close> only, not by \<open>json.dumps\<close> or the
  redaction of a deeply nested value.  The wake-ups of the watchdog are arbitrary; what it needs of
  \<open>poll_interval\<close> is a hypothesis on them.  The spike's writes to its transcript succeed.  The
  harness trace and the durable log act on one file system in \<open>Shared_Root\<close>; \<open>Acp_Session\<close> and
  \<open>Service\<close> give each its own, and what a writer holding a deleted file would still write to a
  directory created anew is left out.  Retries inside Python's buffered files beyond the
  one flush of a write or a close, and nested directories inside a run directory, are left out.
\<close>

end
